(* ===== verification/Prelude.thy ===== *)
theory Prelude
  imports Main "HOL-Library.Word"
begin

text \<open>
  Shared ground of the development: the result type of fallible Rust code, the
  sequencing of early returns, loops that stop at the first error, and the list
  facts the components share.

  A Rust function of type \<open>Result<T, E>\<close> is modelled by a value of
  \<open>('t, 'e) result\<close>: \<open>Ok\<close> and \<open>Err\<close> are Rust's constructors, and
  \<open>Panic\<close> is the outcome of an operation that aborts the thread (an index out
  of range, a slice that cuts a character, \<open>expect\<close> on an error).  A function
  that returns a plain value but contains an operation that could panic has this
  type too, so that the absence of the panic is a theorem and not an assumption.
\<close>

section \<open>Collections of rules\<close>

named_theorems model_defs "unfolding equations of the small model definitions"
named_theorems codec_simps "lengths and inverses of byte encoders"
named_theorems obs_simps "what an event contributes to a timeline"

section \<open>Machine integers and bytes\<close>

type_synonym u8 = "8 word"
type_synonym u32 = "32 word"
type_synonym u64 = "64 word"

section \<open>Results, early return and panics\<close>

datatype ('a, 'e) result = Ok 'a | Err 'e | Panic

fun bind_res :: "('a, 'e) result \<Rightarrow> ('a \<Rightarrow> ('b, 'e) result) \<Rightarrow> ('b, 'e) result" where
  "bind_res (Ok a) f = f a"
| "bind_res (Err e) f = Err e"
| "bind_res Panic f = Panic"

text \<open>\<open>Result::map\<close>, \<open>Result::map_err\<close> and \<open>Result::or_else\<close>.\<close>

fun map_res :: "('a \<Rightarrow> 'b) \<Rightarrow> ('a, 'e) result \<Rightarrow> ('b, 'e) result" where
  "map_res f (Ok a) = Ok (f a)"
| "map_res f (Err e) = Err e"
| "map_res f Panic = Panic"

fun map_err :: "('e \<Rightarrow> 'f) \<Rightarrow> ('a, 'e) result \<Rightarrow> ('a, 'f) result" where
  "map_err f (Ok a) = Ok a"
| "map_err f (Err e) = Err (f e)"
| "map_err f Panic = Panic"

fun or_else :: "('a, 'e) result \<Rightarrow> ('e \<Rightarrow> ('a, 'f) result) \<Rightarrow> ('a, 'f) result" where
  "or_else (Ok a) f = Ok a"
| "or_else (Err e) f = f e"
| "or_else Panic f = Panic"

text \<open>\<open>Option::ok_or\<close>.\<close>

fun ok_or :: "'a option \<Rightarrow> 'e \<Rightarrow> ('a, 'e) result" where
  "ok_or (Some a) e = Ok a"
| "ok_or None e = Err e"

fun is_ok :: "('a, 'e) result \<Rightarrow> bool" where
  "is_ok (Ok a) = True"
| "is_ok (Err e) = False"
| "is_ok Panic = False"

lemma bind_res_eq_Ok [simp]:
  "bind_res r f = Ok b \<longleftrightarrow> (\<exists>a. r = Ok a \<and> f a = Ok b)"
  by (cases r) auto

lemma Ok_eq_bind_res [simp]:
  "Ok b = bind_res r f \<longleftrightarrow> (\<exists>a. r = Ok a \<and> f a = Ok b)"
  by (cases r) auto

lemma bind_res_eq_Err [simp]:
  "bind_res r f = Err e \<longleftrightarrow> r = Err e \<or> (\<exists>a. r = Ok a \<and> f a = Err e)"
  by (cases r) auto

lemma bind_res_eq_Panic [simp]:
  "bind_res r f = Panic \<longleftrightarrow> r = Panic \<or> (\<exists>a. r = Ok a \<and> f a = Panic)"
  by (cases r) auto

lemma bind_res_assoc:
  "bind_res (bind_res r f) g = bind_res r (\<lambda>a. bind_res (f a) g)"
  by (cases r) auto

lemma bind_res_cong [fundef_cong]:
  "r = r' \<Longrightarrow> (\<And>a. r' = Ok a \<Longrightarrow> f a = g a) \<Longrightarrow> bind_res r f = bind_res r' g"
  by (cases r') auto

lemma bind_res_Ok_right [simp]: "bind_res r Ok = r"
  by (cases r) auto

lemma map_res_eq_Ok [simp]: "map_res f r = Ok b \<longleftrightarrow> (\<exists>a. r = Ok a \<and> b = f a)"
  by (cases r) auto

lemma map_err_eq_Ok [simp]: "map_err f r = Ok b \<longleftrightarrow> r = Ok b"
  by (cases r) auto

lemma ok_or_eq_Ok [simp]: "ok_or x e = Ok a \<longleftrightarrow> x = Some a"
  by (cases x) auto

lemma is_ok_iff: "is_ok r \<longleftrightarrow> (\<exists>a. r = Ok a)"
  by (cases r) auto

text \<open>
  \<open>for x in xs { s = f(s, x)?; }\<close>: the loop with an early return, and
  \<open>xs.map(f).collect::<Result<Vec<_>, _>>()\<close>, which stops at the first error.
\<close>

fun fold_res :: "('s \<Rightarrow> 'a \<Rightarrow> ('s, 'e) result) \<Rightarrow> 's \<Rightarrow> 'a list \<Rightarrow> ('s, 'e) result" where
  "fold_res f s [] = Ok s"
| "fold_res f s (x # xs) = bind_res (f s x) (\<lambda>s'. fold_res f s' xs)"

fun collect_res :: "('a \<Rightarrow> ('b, 'e) result) \<Rightarrow> 'a list \<Rightarrow> ('b list, 'e) result" where
  "collect_res f [] = Ok []"
| "collect_res f (x # xs) =
     bind_res (f x) (\<lambda>y. bind_res (collect_res f xs) (\<lambda>ys. Ok (y # ys)))"

lemma fold_res_append:
  "fold_res f s (xs @ ys) = bind_res (fold_res f s xs) (\<lambda>s'. fold_res f s' ys)"
  by (induction xs arbitrary: s) (auto simp: bind_res_assoc)

text \<open>Where the loop stops: at the first element whose step fails.\<close>

lemma split_at_Cons:
  "(\<exists>ys x zs. a # xs = ys @ x # zs \<and> P ys x) \<longleftrightarrow>
     P [] a \<or> (\<exists>ys x zs. xs = ys @ x # zs \<and> P (a # ys) x)"
  by (auto simp: Cons_eq_append_conv)

lemma fold_res_eq_Err:
  "fold_res f s xs = Err e \<longleftrightarrow>
     (\<exists>ys x zs. xs = ys @ x # zs \<and> (\<exists>t. fold_res f s ys = Ok t \<and> f t x = Err e))"
proof (induction xs arbitrary: s)
  case (Cons a xs)
  show ?case by (subst split_at_Cons) (cases "f s a"; simp add: Cons.IH)
qed simp

lemma fold_res_no_Panic:
  assumes "\<And>s x. f s x \<noteq> Panic"
  shows "fold_res f s xs \<noteq> Panic"
proof (induction xs arbitrary: s)
  case (Cons x xs)
  then show ?case using assms [of s x] by (cases "f s x") auto
qed simp

text \<open>What every step keeps, the loop keeps.\<close>

lemma fold_res_invariant:
  assumes "\<And>s x s'. I s \<Longrightarrow> f s x = Ok s' \<Longrightarrow> I s'"
  shows "I s \<Longrightarrow> fold_res f s xs = Ok s' \<Longrightarrow> I s'"
  by (induction xs arbitrary: s) (auto intro: assms)

text \<open>Two loops in lockstep: related states, and the same error or panic.\<close>

fun rel_res :: "('a \<Rightarrow> 'b \<Rightarrow> bool) \<Rightarrow> ('a, 'e) result \<Rightarrow> ('b, 'e) result \<Rightarrow> bool" where
  "rel_res R (Ok a) (Ok b) = R a b"
| "rel_res R (Err e) (Err e') = (e = e')"
| "rel_res R Panic Panic = True"
| "rel_res R r r' = False"

lemma fold_res_rel:
  assumes "\<And>s t x. R s t \<Longrightarrow> rel_res R (f s x) (g t x)"
  shows "R s t \<Longrightarrow> rel_res R (fold_res f s xs) (fold_res g t xs)"
proof (induction xs arbitrary: s t)
  case (Cons x xs)
  then show ?case using assms [OF Cons.prems, of x] by (cases "f s x"; cases "g t x") auto
qed simp

lemma rel_res_bind:
  "rel_res R r r' \<Longrightarrow> (\<And>a b. R a b \<Longrightarrow> f a = g b) \<Longrightarrow> bind_res r f = bind_res r' g"
  by (cases r; cases r') auto

text \<open>The same for loops over two lists, and for sequencing.\<close>

lemma fold_res_rel2:
  assumes "\<And>s t x y. R s t \<Longrightarrow> S x y \<Longrightarrow> rel_res R (f s x) (g t y)"
  shows "list_all2 S xs ys \<Longrightarrow> R s t \<Longrightarrow> rel_res R (fold_res f s xs) (fold_res g t ys)"
proof (induction arbitrary: s t rule: list_all2_induct)
  case (Cons x xs y ys)
  then show ?case using assms [OF Cons.prems Cons.hyps(1)] by (cases "f s x"; cases "g t y") auto
qed simp

lemma collect_res_rel:
  assumes "\<And>x y. S x y \<Longrightarrow> rel_res R (f x) (g y)"
  shows "list_all2 S xs ys \<Longrightarrow> rel_res (list_all2 R) (collect_res f xs) (collect_res g ys)"
proof (induction rule: list_all2_induct)
  case (Cons x xs y ys)
  then show ?case
    using assms [OF Cons.hyps(1)]
    by (cases "f x"; cases "g y"; cases "collect_res f xs"; cases "collect_res g ys") auto
qed simp

lemma rel_res_bind2:
  "rel_res R r r' \<Longrightarrow> (\<And>a b. R a b \<Longrightarrow> rel_res S (f a) (g b)) \<Longrightarrow> rel_res S (bind_res r f) (bind_res r' g)"
  by (cases r; cases r') auto

lemma rel_res_refl: "rel_res (=) r r"
  by (cases r) auto

lemma fold_res_cong [fundef_cong]:
  "s = s' \<Longrightarrow> xs = ys \<Longrightarrow> (\<And>s x. x \<in> set ys \<Longrightarrow> f s x = g s x)
    \<Longrightarrow> fold_res f s xs = fold_res g s' ys"
  by (induction ys arbitrary: s s' xs) (auto intro!: bind_res_cong)

lemma fold_res_Ok_fold:
  "(\<And>s x. f s x = Ok (g s x)) \<Longrightarrow> fold_res f s xs = Ok (foldl g s xs)"
  by (induction xs arbitrary: s) auto

lemma collect_res_cong [fundef_cong]:
  "xs = ys \<Longrightarrow> (\<And>x. x \<in> set ys \<Longrightarrow> f x = g x) \<Longrightarrow> collect_res f xs = collect_res g ys"
proof (induction ys arbitrary: xs)
  case (Cons y ys)
  then have "collect_res f ys = collect_res g ys" by auto
  with Cons.prems show ?case by simp
qed auto

lemma collect_res_eq_Ok:
  "collect_res f xs = Ok ys \<longleftrightarrow> list_all2 (\<lambda>x y. f x = Ok y) xs ys"
  by (induction xs arbitrary: ys) (auto simp: list_all2_Cons1)

lemma collect_res_all_Ok:
  "(\<And>x. x \<in> set xs \<Longrightarrow> f x = Ok (g x)) \<Longrightarrow> collect_res f xs = Ok (map g xs)"
  by (induction xs) auto

lemma collect_res_append:
  "collect_res f (xs @ ys) =
     bind_res (collect_res f xs) (\<lambda>us. bind_res (collect_res f ys) (\<lambda>vs. Ok (us @ vs)))"
proof (induction xs)
  case (Cons x xs)
  then show ?case
    by (cases "f x"; cases "collect_res f xs"; cases "collect_res f ys") auto
qed simp

lemma collect_res_length: "collect_res f xs = Ok ys \<Longrightarrow> length ys = length xs"
  by (simp add: collect_res_eq_Ok list_all2_lengthD)

lemma collect_res_no_Panic:
  "(\<And>x. x \<in> set xs \<Longrightarrow> f x \<noteq> Panic) \<Longrightarrow> collect_res f xs \<noteq> Panic"
proof (induction xs)
  case (Cons x xs)
  then have "f x \<noteq> Panic" "collect_res f xs \<noteq> Panic" by auto
  then show ?case by (cases "f x"; cases "collect_res f xs") auto
qed simp


section \<open>Lists\<close>

text \<open>\<open>Vec::dedup_by\<close>: an element equal to the last one kept is dropped.\<close>

fun dedup_by :: "('a \<Rightarrow> 'a \<Rightarrow> bool) \<Rightarrow> 'a list \<Rightarrow> 'a list" where
  "dedup_by eq [] = []"
| "dedup_by eq [x] = [x]"
| "dedup_by eq (x # y # zs) =
     (if eq y x then dedup_by eq (x # zs) else x # dedup_by eq (y # zs))"

text \<open>\<open>slice::windows(2)\<close>.\<close>

fun windows2 :: "'a list \<Rightarrow> ('a \<times> 'a) list" where
  "windows2 (x # y # zs) = (x, y) # windows2 (y # zs)"
| "windows2 xs = []"

lemma windows2_successively: "(\<forall>(x, y) \<in> set (windows2 xs). R x y) \<longleftrightarrow> successively R xs"
  by (induction xs rule: windows2.induct) auto

lemma foldl_append_concat: "foldl (\<lambda>acc x. acc @ f x) a xs = a @ concat (map f xs)"
  by (induction xs arbitrary: a) auto

text \<open>\<open>None\<close> for the empty list: an entry of a table exists once something is in it.\<close>

definition nonempty :: "'a list \<Rightarrow> 'a list option" where
  "nonempty xs = (if xs = [] then None else Some xs)"

lemma nonempty_simps [simp]:
  "nonempty [] = None" "nonempty (x # xs) = Some (x # xs)" "nonempty (xs @ [x]) = Some (xs @ [x])"
  "nonempty xs = None \<longleftrightarrow> xs = []"
  by (auto simp: nonempty_def)

lemma nonempty_eq_Some [simp]: "nonempty xs = Some ys \<longleftrightarrow> xs = ys \<and> ys \<noteq> []"
  by (auto simp: nonempty_def)

lemma case_nonempty [simp]: "(case nonempty xs of None \<Rightarrow> [] | Some ys \<Rightarrow> ys) = xs"
  by (auto simp: nonempty_def)

lemma distinct_singleton_set: "distinct xs \<Longrightarrow> set xs = {x} \<Longrightarrow> xs = [x]"
proof (cases xs)
  case (Cons y ys)
  moreover assume "distinct xs" "set xs = {x}"
  ultimately show ?thesis by (cases ys) auto
qed simp

lemma map_of_rev: "distinct (map fst kvs) \<Longrightarrow> map_of (rev kvs) = map_of kvs"
  by (rule map_of_eqI) (auto simp: rev_map [symmetric] map_of_eq_Some_iff)

lemma last_concat_map:
  "concat (map f xs) \<noteq> [] \<Longrightarrow>
    \<exists>ys x zs. xs = ys @ x # zs \<and> f x \<noteq> [] \<and> (\<forall>z \<in> set zs. f z = [])
      \<and> last (concat (map f xs)) = last (f x)"
proof (induction xs rule: rev_induct)
  case (snoc x xs)
  show ?case
  proof (cases "f x = []")
    case True
    with snoc obtain ys y zs where "xs = ys @ y # zs" "f y \<noteq> []" "\<forall>z \<in> set zs. f z = []"
      "last (concat (map f xs)) = last (f y)" by auto
    with True show ?thesis by (intro exI [of _ ys] exI [of _ y] exI [of _ "zs @ [x]"]) auto
  next
    case False
    then show ?thesis by (intro exI [of _ xs] exI [of _ x] exI [of _ "[]"]) auto
  qed
qed simp

end
