(* ===== verification/Bytes.thy ===== *)
theory Bytes
  imports Prelude "HOL-Library.List_Lexorder" "HOL-Library.Numeral_Type" "HOL-Library.Type_Length"
begin

text \<open>
  Rust's fixed-size byte arrays \<open>[u8; N]\<close> as the type \<open>'n arr\<close> of byte lists of
  length \<open>LENGTH('n)\<close>, with the lexicographic order that \<open>derive(Ord)\<close> gives
  arrays, the array expressions the code uses (\<open>[b; N]\<close>, \<open>copy_from_slice\<close>), and
  the little-endian conversions \<open>to_le_bytes\<close> / \<open>from_le_bytes\<close> of \<open>u32\<close> and
  \<open>u64\<close> with both round trips.  \<open>Debug\<close> formatting of integers and byte arrays is
  here too, because error texts of the code contain it.
\<close>

section \<open>Byte arrays of a fixed length\<close>

typedef (overloaded) 'n arr = "{bs :: u8 list. length bs = LENGTH('n::len)}"
  morphisms as_slice Abs_arr
proof
  show "replicate LENGTH('n) 0 \<in> {bs :: u8 list. length bs = LENGTH('n)}" by simp
qed

lemma Abs_arr_as_slice [code abstype]: "Abs_arr (as_slice a) = a"
  by (rule as_slice_inverse)

lemma length_as_slice [simp]: "length (as_slice (a :: 'n::len arr)) = LENGTH('n)"
  using as_slice [of a] by simp

lemma as_slice_inject_iff [simp]: "as_slice a = as_slice b \<longleftrightarrow> a = b"
  by (simp add: as_slice_inject)

lemma arr_eqI: "as_slice a = as_slice b \<Longrightarrow> a = b"
  by simp

text \<open>
  \<open>let mut out = [0u8; N]; out[..bytes.len()].copy_from_slice(bytes)\<close>: the bytes,
  and zeros behind them up to the length of the array.  \<open>chunkify\<close> uses the padding;
  all other uses are \<open>out.copy_from_slice(bytes)\<close> behind a length check or on a slice
  of a fixed width, where nothing is padded or cut (\<open>as_slice_arr_of\<close>).
\<close>

definition arr_of :: "u8 list \<Rightarrow> 'n::len arr" where
  "arr_of bs = Abs_arr (take LENGTH('n) (bs @ replicate LENGTH('n) 0))"

lemma as_slice_arr_of_raw [code abstract]:
  "as_slice (arr_of bs :: 'n::len arr) = take LENGTH('n) (bs @ replicate LENGTH('n) 0)"
  unfolding arr_of_def by (rule Abs_arr_inverse) simp

lemma as_slice_arr_of [simp]:
  "length bs = LENGTH('n) \<Longrightarrow> as_slice (arr_of bs :: 'n::len arr) = bs"
  by (simp add: as_slice_arr_of_raw)

lemma arr_of_as_slice [simp]: "arr_of (as_slice a) = a"
  by (rule arr_eqI) simp

text \<open>\<open>[b; N]\<close>.\<close>

definition arr_fill :: "u8 \<Rightarrow> 'n::len arr" where
  "arr_fill b = arr_of (replicate LENGTH('n) b)"

lemma as_slice_arr_fill [simp, code abstract]:
  "as_slice (arr_fill b :: 'n::len arr) = replicate LENGTH('n) b"
  by (simp add: arr_fill_def)

lemma arr_fill_eq_iff [simp]: "arr_fill a = (arr_fill b :: 'n::len arr) \<longleftrightarrow> a = b"
  by (simp flip: as_slice_inject_iff)

instantiation arr :: (len) equal
begin
definition equal_arr :: "'a arr \<Rightarrow> 'a arr \<Rightarrow> bool" where
  "equal_arr a b \<longleftrightarrow> HOL.equal (as_slice a) (as_slice b)"
instance
  by standard (simp add: equal_arr_def equal_eq)
end

text \<open>Arrays compare like slices: lexicographically, byte by byte.\<close>

instantiation arr :: (len) linorder
begin
definition less_eq_arr :: "'a arr \<Rightarrow> 'a arr \<Rightarrow> bool" where
  "less_eq_arr a b \<longleftrightarrow> as_slice a \<le> as_slice b"
definition less_arr :: "'a arr \<Rightarrow> 'a arr \<Rightarrow> bool" where
  "less_arr a b \<longleftrightarrow> as_slice a < as_slice b"
instance
  by standard (auto simp: less_eq_arr_def less_arr_def less_le_not_le)
end

lemma replicate_less_iff:
  "replicate n a < replicate n (b :: 'a::linorder) \<longleftrightarrow> 0 < n \<and> a < b"
  by (induction n) auto

lemma arr_fill_less_iff [simp]: "arr_fill a < (arr_fill b :: 'n::len arr) \<longleftrightarrow> a < b"
  by (simp add: less_arr_def replicate_less_iff)

lemma arr_fill_le_iff [simp]: "arr_fill a \<le> (arr_fill b :: 'n::len arr) \<longleftrightarrow> a \<le> b"
  by (simp flip: not_less)

type_synonym address = "20 arr"
type_synonym b32 = "32 arr"

section \<open>Little-endian integers\<close>

text \<open>
  \<open>le_bytes n w\<close> is the little-endian byte string of width \<open>n\<close>, lowest byte first;
  \<open>le_word\<close> reads one back.  \<open>u32\<close> and \<open>u64\<close> use widths 4 and 8.
\<close>

fun le_bytes :: "nat \<Rightarrow> 'a::len word \<Rightarrow> u8 list" where
  "le_bytes 0 w = []"
| "le_bytes (Suc n) w = ucast w # le_bytes n (drop_bit 8 w)"

fun le_word :: "u8 list \<Rightarrow> 'a::len word" where
  "le_word [] = 0"
| "le_word (b # bs) = or (ucast b) (push_bit 8 (le_word bs))"

definition u32_to_le_bytes :: "u32 \<Rightarrow> u8 list" where
  "u32_to_le_bytes w = le_bytes 4 w"

definition u64_to_le_bytes :: "u64 \<Rightarrow> u8 list" where
  "u64_to_le_bytes w = le_bytes 8 w"

definition u32_from_le_bytes :: "u8 list \<Rightarrow> u32" where
  "u32_from_le_bytes bs = le_word bs"

definition u64_from_le_bytes :: "u8 list \<Rightarrow> u64" where
  "u64_from_le_bytes bs = le_word bs"

lemma length_le_bytes [simp]: "length (le_bytes n w) = n"
  by (induction n arbitrary: w) auto

lemma le_word_le_bytes: "le_word (le_bytes n (w :: 'a::len word)) = (take_bit (8 * n) w :: 'a word)"
proof (induction n arbitrary: w)
  case (Suc n)
  have "or (ucast (ucast w :: u8)) (push_bit 8 (take_bit (8 * n) (drop_bit 8 w))) =
      (take_bit (8 * Suc n) w :: 'a word)"
    by (rule bit_word_eqI) (auto simp: bit_simps)
  with Suc show ?case by simp
qed simp

lemma u8_bit_bound: "bit (b :: u8) n \<Longrightarrow> n < 8"
  using bit_imp_le_length [of b n] by simp

lemma bit_le_word: "bit (le_word bs :: 'a::len word) n \<Longrightarrow> n < 8 * length bs"
proof (induction bs arbitrary: n)
  case (Cons b bs)
  then show ?case
    by (cases "n < 8") (auto simp: bit_simps dest: u8_bit_bound Cons.IH [of "n - 8"])
qed simp

lemma le_bytes_le_word:
  "8 * length bs \<le> LENGTH('a) \<Longrightarrow> le_bytes (length bs) (le_word bs :: 'a::len word) = bs"
proof (induction bs)
  case (Cons b bs)
  have head: "ucast (or (ucast b) (push_bit 8 (le_word bs)) :: 'a word) = b"
    using Cons.prems by (intro bit_word_eqI) (auto simp: bit_simps)
  have tail: "drop_bit 8 (or (ucast b) (push_bit 8 (le_word bs)) :: 'a word) = le_word bs"
    using Cons.prems
    by (intro bit_word_eqI) (auto simp: bit_simps dest: u8_bit_bound bit_le_word)
  from Cons head tail show ?case by simp
qed simp

lemma le_word_inj:
  "length bs = length cs \<Longrightarrow> 8 * length bs \<le> LENGTH('a) \<Longrightarrow>
    le_word bs = (le_word cs :: 'a::len word) \<longleftrightarrow> bs = cs"
  by (metis le_bytes_le_word)

lemma u32_le_bytes_codec [simp, codec_simps]:
  "length (u32_to_le_bytes w) = 4"
  "u32_from_le_bytes (u32_to_le_bytes w) = w"
  by (simp_all add: u32_to_le_bytes_def u32_from_le_bytes_def le_word_le_bytes take_bit_word_eq_self)

lemma u64_le_bytes_codec [simp, codec_simps]:
  "length (u64_to_le_bytes w) = 8"
  "u64_from_le_bytes (u64_to_le_bytes w) = w"
  by (simp_all add: u64_to_le_bytes_def u64_from_le_bytes_def le_word_le_bytes take_bit_word_eq_self)

lemma u32_to_from_le_bytes [simp, codec_simps]:
  "length bs = 4 \<Longrightarrow> u32_to_le_bytes (u32_from_le_bytes bs) = bs"
  using le_bytes_le_word [of bs, where 'a = 32]
  by (simp add: u32_to_le_bytes_def u32_from_le_bytes_def)

lemma u64_to_from_le_bytes [simp, codec_simps]:
  "length bs = 8 \<Longrightarrow> u64_to_le_bytes (u64_from_le_bytes bs) = bs"
  using le_bytes_le_word [of bs, where 'a = 64]
  by (simp add: u64_to_le_bytes_def u64_from_le_bytes_def)

section \<open>Debug formatting\<close>

text \<open>Decimal digits, as \<open>{}\<close> and \<open>{:?}\<close> print unsigned integers.\<close>

fun show_nat :: "nat \<Rightarrow> string" where
  "show_nat n =
     (if n < 10 then [char_of (48 + n)] else show_nat (n div 10) @ [char_of (48 + n mod 10)])"

declare show_nat.simps [simp del]

fun commas :: "string list \<Rightarrow> string" where
  "commas [] = ''''"
| "commas [s] = s"
| "commas (s # t # us) = s @ '', '' @ commas (t # us)"

text \<open>\<open>{:?}\<close> of a byte array: \<open>[1, 2, 3]\<close>.\<close>

definition debug_arr :: "'n::len arr \<Rightarrow> string" where
  "debug_arr a = ''['' @ commas (map (\<lambda>b. show_nat (unat b)) (as_slice a)) @ '']''"

end
