(* ===== verification/Hash.thy ===== *)
theory Hash
  imports Bytes
begin

text \<open>
  \<open>runtime/hash/src/lib.rs\<close>: digests, the registry of hash domains and the
  domain-separated commitment.  BLAKE3 is a third-party crate: it is the parameter
  \<open>blake3\<close> of every definition that hashes, a function from byte strings to 32
  bytes, and nothing is assumed of it.  Binding is stated by reduction: two inputs
  with one commitment are equal, or they are a collision of \<open>blake3\<close>.
\<close>

type_synonym hash_fn = "u8 list \<Rightarrow> b32"

section \<open>Digests\<close>

datatype digest = Digest b32

datatype digest_error = InvalidLength

definition from_bytes :: "b32 \<Rightarrow> digest" where
  "from_bytes bs = Digest bs"

fun to_bytes :: "digest \<Rightarrow> b32" where
  "to_bytes (Digest bs) = bs"

definition try_from_slice :: "u8 list \<Rightarrow> (digest, digest_error) result" where
  "try_from_slice s = (if length s = 32 then Ok (from_bytes (arr_of s)) else Err InvalidLength)"

text \<open>\<open>format!("{:02x}", b)\<close>: two lowercase hexadecimal digits.\<close>

definition hex_digit :: "nat \<Rightarrow> char" where
  "hex_digit n = char_of (if n < 10 then 48 + n else 87 + n)"

definition hex_byte :: "u8 \<Rightarrow> string" where
  "hex_byte b = [hex_digit (unat b div 16), hex_digit (unat b mod 16)]"

definition to_hex :: "digest \<Rightarrow> string" where
  "to_hex d = concat (map hex_byte (as_slice (to_bytes d)))"

section \<open>Domains\<close>

datatype domain = TrieLeaf | TrieBranch | LifeCert | SsrRoot | Gate2Replay

text \<open>A byte-string literal \<open>b"..."\<close>.\<close>

definition byte_string :: "string \<Rightarrow> u8 list" where
  "byte_string s = map of_char s"

fun as_bytes :: "domain \<Rightarrow> u8 list" where
  "as_bytes TrieLeaf = byte_string ''KAY_TRIE_LEAF''"
| "as_bytes TrieBranch = byte_string ''KAY_TRIE_BRANCH''"
| "as_bytes LifeCert = byte_string ''KAY_LIFE_CERT''"
| "as_bytes SsrRoot = byte_string ''KAY_SSR_ROOT''"
| "as_bytes Gate2Replay = byte_string ''KAY_GATE2_REPLAY''"

definition derive_commitment :: "hash_fn \<Rightarrow> domain \<Rightarrow> u8 list \<Rightarrow> digest" where
  "derive_commitment blake3 d canonical_bytes = from_bytes (blake3 (as_bytes d @ canonical_bytes))"

section \<open>Facts\<close>

lemma to_bytes_from_bytes [simp]: "to_bytes (from_bytes b) = b"
  by (simp add: from_bytes_def)

lemma from_bytes_inject [simp]: "from_bytes a = from_bytes b \<longleftrightarrow> a = b"
  by (simp add: from_bytes_def)

lemma try_from_slice_Ok: "try_from_slice s = Ok d \<longleftrightarrow> s = as_slice (to_bytes d)"
  by (cases d) (auto simp: try_from_slice_def from_bytes_def)

text \<open>
  The five tags are prefix-free: no tag starts another one, so a hash input determines
  its domain and its canonical bytes.
\<close>

lemma as_bytes_prefix_free: "as_bytes d @ xs = as_bytes d' @ ys \<longleftrightarrow> d = d' \<and> xs = ys"
  by (cases d; cases d') (auto simp: byte_string_def)

definition collision :: "('a \<Rightarrow> 'b) \<Rightarrow> 'a \<Rightarrow> 'a \<Rightarrow> bool" where
  "collision h x y \<longleftrightarrow> x \<noteq> y \<and> h x = h y"

lemma derive_commitment_eq_iff:
  "derive_commitment blake3 d xs = derive_commitment blake3 d' ys \<longleftrightarrow>
     (d = d' \<and> xs = ys) \<or> collision blake3 (as_bytes d @ xs) (as_bytes d' @ ys)"
  unfolding derive_commitment_def collision_def
  by (auto simp: as_bytes_prefix_free)

section \<open>Properties\<close>

text \<open>
  A commitment binds its domain and its canonical bytes: two commitments are equal
  exactly when both agree, or the two hashed strings, tag first, are a BLAKE3 collision.
\<close>

lemma commitment_binds_domain_and_bytes:
  "derive_commitment blake3 d xs = derive_commitment blake3 d' ys \<longleftrightarrow>
     (d = d' \<and> xs = ys) \<or> collision blake3 (as_bytes d @ xs) (as_bytes d' @ ys)"
  by (rule derive_commitment_eq_iff)

end
