(* ===== verification/Wire.thy ===== *)
theory Wire
  imports Hash
begin

text \<open>
  \<open>runtime/bridge/src/wire.rs\<close>: the hexadecimal decoding of hashes and addresses, the
  event types of the Go tracer and the dispatch on their tags.  A Rust \<open>&str\<close> is its
  UTF-8 bytes; slicing it inside a character panics.  \<open>serde_json\<close> is a third-party
  crate: the parsing of a document and of the data of each kind is a parameter
  (\<open>serde\<close>).  The texts of errors are the constructors of an error type.
\<close>

section \<open>Hexadecimal strings\<close>

type_synonym str = "u8 list"

datatype parse_int_error = Empty_String | Invalid_Digit | Pos_Overflow

datatype hex_error =
    Not_Prefixed str
  | Odd_Length str
  | Bad_Digits parse_int_error
  | Wrong_Length nat nat \<comment> \<open>found, expected\<close>

text \<open>\<open>str::strip_prefix\<close> and \<open>&s[i..j]\<close> with its check of character boundaries.\<close>

definition strip_prefix :: "str \<Rightarrow> str \<Rightarrow> str option" where
  "strip_prefix p s = (if take (length p) s = p then Some (drop (length p) s) else None)"

definition is_char_boundary :: "str \<Rightarrow> nat \<Rightarrow> bool" where
  "is_char_boundary s i \<longleftrightarrow> i = 0 \<or> i = length s \<or> (i < length s \<and> and (s ! i) 0xC0 \<noteq> 0x80)"

definition str_slice :: "nat \<Rightarrow> nat \<Rightarrow> str \<Rightarrow> (str, 'e) result" where
  "str_slice i j s =
     (if i \<le> j \<and> is_char_boundary s i \<and> is_char_boundary s j
      then Ok (take (j - i) (drop i s)) else Panic)"

text \<open>\<open>char::to_digit(16)\<close> on one byte.\<close>

definition hex_value :: "u8 \<Rightarrow> nat option" where
  "hex_value c =
     (if 48 \<le> c \<and> c \<le> 57 then Some (unat c - 48)
      else if 97 \<le> c \<and> c \<le> 102 then Some (unat c - 87)
      else if 65 \<le> c \<and> c \<le> 70 then Some (unat c - 55)
      else None)"

text \<open>
  \<open>u8::from_str_radix(src, 16)\<close>: a sign \<open>+\<close> is allowed in front of at least one digit;
  each digit is added to 16 times the value so far, which must stay below 256.
\<close>

fun radix_loop :: "nat \<Rightarrow> str \<Rightarrow> (u8, parse_int_error) result" where
  "radix_loop acc [] = Ok (of_nat acc)"
| "radix_loop acc (c # cs) =
     (case hex_value c of
        None \<Rightarrow> Err Invalid_Digit
      | Some d \<Rightarrow> if 16 * acc + d < 256 then radix_loop (16 * acc + d) cs else Err Pos_Overflow)"

definition u8_from_str_radix_16 :: "str \<Rightarrow> (u8, parse_int_error) result" where
  "u8_from_str_radix_16 src =
     (case src of
        [] \<Rightarrow> Err Empty_String
      | c # rest \<Rightarrow>
          if (c = 43 \<or> c = 45) \<and> rest = [] then Err Invalid_Digit
          else if c = 43 then radix_loop 0 rest
          else radix_loop 0 src)"

text \<open>\<open>(0..s.len()).step_by(2).map(..).collect()\<close>.\<close>

definition hex_decode :: "str \<Rightarrow> (u8 list, hex_error) result" where
  "hex_decode s =
     (if length s mod 2 \<noteq> 0 then Err (Odd_Length s)
      else collect_res
        (\<lambda>i. bind_res (str_slice i (i + 2) s) (\<lambda>t. map_err Bad_Digits (u8_from_str_radix_16 t)))
        (map (\<lambda>k. 2 * k) [0..<length s div 2]))"

definition decode_fixed_hex :: "str \<Rightarrow> ('n::len arr, hex_error) result" where
  "decode_fixed_hex s =
     bind_res (ok_or (strip_prefix (byte_string ''0x'') s) (Not_Prefixed s)) (\<lambda>s.
     bind_res (hex_decode s) (\<lambda>bytes.
       if length bytes \<noteq> LENGTH('n) then Err (Wrong_Length (length bytes) LENGTH('n))
       else Ok (arr_of bytes)))"

datatype hex_hash = HexHash (hash_bytes: b32)

datatype hex_address = HexAddress (address_bytes: address)

definition deserialize_hash :: "str \<Rightarrow> (hex_hash, hex_error) result" where
  "deserialize_hash s = map_res HexHash (decode_fixed_hex s)"

definition deserialize_address :: "str \<Rightarrow> (hex_address, hex_error) result" where
  "deserialize_address s = map_res HexAddress (decode_fixed_hex s)"

section \<open>Events\<close>

definition NO_FRAME :: u64 where
  "NO_FRAME = - 1"

record block_start_data =
  bs_number :: u64

record transaction_start_data =
  st_tx_index :: u64
  st_hash :: hex_hash

record transaction_end_data =
  te_tx_index :: u64
  te_reverted :: bool

record frame_enter_data =
  fe_frame_id :: u64
  fe_parent_frame_id :: u64
  fe_depth :: u64

record frame_exit_data =
  fx_frame_id :: u64
  fx_reverted :: bool

record balance_mutation_data =
  bm_frame_id :: u64
  bm_address :: hex_address
  bm_before :: hex_hash
  bm_after :: hex_hash

record nonce_mutation_data =
  nm_frame_id :: u64
  nm_address :: hex_address
  nm_before :: u64
  nm_after :: u64

record code_mutation_data =
  cm_frame_id :: u64
  cm_address :: hex_address
  cm_before :: hex_hash
  cm_after :: hex_hash

record storage_mutation_data =
  sm_frame_id :: u64
  sm_address :: hex_address
  sm_slot :: hex_hash
  sm_before :: hex_hash
  sm_after :: hex_hash

record account_created_data =
  ac_frame_id :: u64
  ac_address :: hex_address
  ac_creator :: hex_address

record self_destruct_data =
  sd_frame_id :: u64
  sd_address :: hex_address
  sd_beneficiary :: hex_address

datatype go_event =
    BlockStart block_start_data
  | TransactionStart transaction_start_data
  | FrameEnter frame_enter_data
  | FrameExit frame_exit_data
  | TransactionEnd transaction_end_data
  | BlockCommit
  | BalanceMutation balance_mutation_data
  | NonceMutation nonce_mutation_data
  | CodeMutation code_mutation_data
  | StorageMutation storage_mutation_data
  | AccountCreated account_created_data
  | SelfDestruct self_destruct_data

section \<open>The event stream\<close>

record 'json tagged_event =
  te_kind :: string
  te_data :: 'json

datatype 'err stream_error = Json_Error 'err | Unknown_Kind string

text \<open>The deserializers the code calls: of the document, and of each kind's data.\<close>

record ('json, 'err) serde =
  from_str :: "str \<Rightarrow> ('json tagged_event list, 'err) result"
  parse_block_start :: "'json \<Rightarrow> (block_start_data, 'err) result"
  parse_transaction_start :: "'json \<Rightarrow> (transaction_start_data, 'err) result"
  parse_frame_enter :: "'json \<Rightarrow> (frame_enter_data, 'err) result"
  parse_frame_exit :: "'json \<Rightarrow> (frame_exit_data, 'err) result"
  parse_transaction_end :: "'json \<Rightarrow> (transaction_end_data, 'err) result"
  parse_balance_mutation :: "'json \<Rightarrow> (balance_mutation_data, 'err) result"
  parse_nonce_mutation :: "'json \<Rightarrow> (nonce_mutation_data, 'err) result"
  parse_code_mutation :: "'json \<Rightarrow> (code_mutation_data, 'err) result"
  parse_storage_mutation :: "'json \<Rightarrow> (storage_mutation_data, 'err) result"
  parse_account_created :: "'json \<Rightarrow> (account_created_data, 'err) result"
  parse_self_destruct :: "'json \<Rightarrow> (self_destruct_data, 'err) result"

definition parse_tagged :: "('json, 'err) serde \<Rightarrow> 'json tagged_event \<Rightarrow> (go_event, 'err stream_error) result" where
  "parse_tagged sd tagged =
     (let k = te_kind tagged; d = te_data tagged in
      if k = ''BlockStart'' then map_res BlockStart (map_err Json_Error (parse_block_start sd d))
      else if k = ''TransactionStart''
        then map_res TransactionStart (map_err Json_Error (parse_transaction_start sd d))
      else if k = ''FrameEnter'' then map_res FrameEnter (map_err Json_Error (parse_frame_enter sd d))
      else if k = ''FrameExit'' then map_res FrameExit (map_err Json_Error (parse_frame_exit sd d))
      else if k = ''TransactionEnd''
        then map_res TransactionEnd (map_err Json_Error (parse_transaction_end sd d))
      else if k = ''BlockCommit'' then Ok BlockCommit
      else if k = ''BalanceMutation''
        then map_res BalanceMutation (map_err Json_Error (parse_balance_mutation sd d))
      else if k = ''NonceMutation''
        then map_res NonceMutation (map_err Json_Error (parse_nonce_mutation sd d))
      else if k = ''CodeMutation''
        then map_res CodeMutation (map_err Json_Error (parse_code_mutation sd d))
      else if k = ''StorageMutation''
        then map_res StorageMutation (map_err Json_Error (parse_storage_mutation sd d))
      else if k = ''AccountCreated''
        then map_res AccountCreated (map_err Json_Error (parse_account_created sd d))
      else if k = ''SelfDestruct''
        then map_res SelfDestruct (map_err Json_Error (parse_self_destruct sd d))
      else Err (Unknown_Kind k))"

definition parse_event_stream :: "('json, 'err) serde \<Rightarrow> str \<Rightarrow> (go_event list, 'err stream_error) result" where
  "parse_event_stream sd json =
     bind_res (map_err Json_Error (from_str sd json)) (collect_res (parse_tagged sd))"

section \<open>Facts on hexadecimal decoding\<close>

text \<open>Decoding, pair by pair.\<close>

fun decode_pairs :: "str \<Rightarrow> (u8 list, hex_error) result" where
  "decode_pairs [] = Ok []"
| "decode_pairs [c] = Ok []"
| "decode_pairs (c # d # cs) =
     bind_res (map_err Bad_Digits (u8_from_str_radix_16 [c, d])) (\<lambda>b.
     bind_res (decode_pairs cs) (\<lambda>bs. Ok (b # bs)))"

text \<open>In a string of ASCII characters every position is a boundary.\<close>

definition ascii :: "str \<Rightarrow> bool" where
  "ascii s \<longleftrightarrow> list_all (\<lambda>c. c < 128) s"

lemma ascii_not_continuation: "(c :: u8) < 128 \<Longrightarrow> and c 0xC0 \<noteq> 0x80"
proof
  assume c: "c < 128" and "and c 0xC0 = 0x80"
  then have "bit (and c 0xC0) 7" by simp
  then have "bit c 7" by (simp add: bit_and_iff)
  moreover have "unat (c div 128) = 0" using c by (simp add: word_less_nat_alt unat_div)
  then have "\<not> bit c 7" by (simp add: bit_iff_odd unat_eq_zero)
  ultimately show False by contradiction
qed

lemma ascii_boundary: "ascii s \<Longrightarrow> i \<le> length s \<Longrightarrow> is_char_boundary s i"
  using ascii_not_continuation by (auto simp: ascii_def is_char_boundary_def list_all_length)


lemma ascii_slice:
  "ascii s \<Longrightarrow> i + 2 \<le> length s \<Longrightarrow> str_slice i (i + 2) s = Ok (take 2 (drop i s))"
  by (simp add: str_slice_def ascii_boundary)

lemma hex_decode_pairs_aux:
  "even (length s) \<Longrightarrow>
    collect_res (\<lambda>i. map_err Bad_Digits (u8_from_str_radix_16 (take 2 (drop i s))))
      (map (\<lambda>k. 2 * k) [0..<length s div 2]) = decode_pairs s"
proof (induction s rule: decode_pairs.induct)
  case (3 c d cs)
  have idx: "map (\<lambda>k. 2 * k) [0..<length (c # d # cs) div 2]
      = 0 # map (\<lambda>i. i + 2) (map (\<lambda>k. 2 * k) [0..<length cs div 2])"
    by (simp add: upt_conv_Cons map_Suc_upt [symmetric] del: upt_Suc)
  have shift: "collect_res f (map (\<lambda>i. i + 2) is) = collect_res (\<lambda>i. f (i + 2)) is"
    for f :: "nat \<Rightarrow> (u8, hex_error) result" and "is"
    by (induction "is") auto
  have head: "take 2 (drop 0 (c # d # cs)) = [c, d]" by (simp add: numeral_2_eq_2)
  have tail: "drop (i + 2) (c # d # cs) = drop i cs" for i by simp
  show ?case
  proof (cases "u8_from_str_radix_16 [c, d]")
    case (Ok b)
    then have "collect_res (\<lambda>i. map_err Bad_Digits (u8_from_str_radix_16 (take 2 (drop i cs))))
        (map (\<lambda>k. 2 * k) [0..<length cs div 2]) = decode_pairs cs"
      using "3.IH" "3.prems" by simp
    with Ok show ?thesis unfolding idx collect_res.simps shift head tail by simp
  qed (unfold idx collect_res.simps shift head tail, simp_all)
qed auto

lemma hex_decode_pairs:
  assumes "ascii s" and "even (length s)"
  shows "hex_decode s = decode_pairs s"
proof -
  have "collect_res (\<lambda>i. bind_res (str_slice i (i + 2) s) (\<lambda>t. map_err Bad_Digits (u8_from_str_radix_16 t)))
        (map (\<lambda>k. 2 * k) [0..<length s div 2])
      = collect_res (\<lambda>i. map_err Bad_Digits (u8_from_str_radix_16 (take 2 (drop i s))))
        (map (\<lambda>k. 2 * k) [0..<length s div 2])"
  proof (rule collect_res_cong)
    fix i assume "i \<in> set (map (\<lambda>k. 2 * k) [0..<length s div 2])"
    then have "i + 2 \<le> length s" by auto
    then show "bind_res (str_slice i (i + 2) s) (\<lambda>t. map_err Bad_Digits (u8_from_str_radix_16 t))
        = map_err Bad_Digits (u8_from_str_radix_16 (take 2 (drop i s)))"
      by (simp only: ascii_slice [OF assms(1)] bind_res.simps)
  qed simp
  with assms(2) show ?thesis by (simp add: hex_decode_def hex_decode_pairs_aux even_iff_mod_2_eq_zero)
qed

text \<open>What the encoder of \<open>runtime/hash\<close> prints is read back.\<close>

abbreviation digit_byte :: "nat \<Rightarrow> u8" where
  "digit_byte n \<equiv> of_char (hex_digit n)"

lemma digit_byte_value:
  assumes "n < 16"
  shows "hex_value (digit_byte n) = Some n \<and> digit_byte n < 128"
proof -
  have "\<forall>n \<in> set [0..<16]. hex_value (digit_byte n) = Some n \<and> digit_byte n < 128"
    by code_simp
  with assms show ?thesis by simp
qed

lemma radix_of_digits:
  assumes "m < 16" "n < 16"
  shows "u8_from_str_radix_16 [digit_byte m, digit_byte n] = Ok (of_nat (16 * m + n))"
proof -
  have "digit_byte m \<noteq> 43"
    using digit_byte_value [OF assms(1)] by (auto simp: hex_value_def)
  with assms show ?thesis
    by (simp add: u8_from_str_radix_16_def digit_byte_value)
qed

lemma radix_hex_byte: "u8_from_str_radix_16 (byte_string (hex_byte b)) = Ok b"
proof -
  have "unat b div 16 < 16" using unsigned_less [of b, where 'a = nat] by (simp add: less_mult_imp_div_less)
  then show ?thesis
    using radix_of_digits [of "unat b div 16" "unat b mod 16"] by (simp add: hex_byte_def byte_string_def)
qed

lemma decode_pairs_hex: "decode_pairs (byte_string (concat (map hex_byte bs))) = Ok bs"
proof (induction bs)
  case (Cons b bs)
  obtain c d where cd: "byte_string (hex_byte b) = [c, d]"
    by (simp add: hex_byte_def byte_string_def)
  then have "decode_pairs (byte_string (concat (map hex_byte (b # bs))))
      = decode_pairs (c # d # byte_string (concat (map hex_byte bs)))"
    by (simp add: byte_string_def)
  then show ?case using Cons radix_hex_byte [of b] by (simp add: cd)
qed (simp add: byte_string_def)

lemma ascii_hex: "ascii (byte_string (concat (map hex_byte bs)))"
proof (induction bs)
  case (Cons b bs)
  have "unat b div 16 < 16" using unsigned_less [of b, where 'a = nat] by (simp add: less_mult_imp_div_less)
  then show ?case
    using Cons digit_byte_value by (simp add: ascii_def byte_string_def hex_byte_def)
qed (simp add: ascii_def byte_string_def)

lemma length_hex: "length (byte_string (concat (map hex_byte bs))) = 2 * length bs"
  by (induction bs) (simp_all add: byte_string_def hex_byte_def)

text \<open>
  The hexadecimal form with the prefix \<open>0x\<close> round-trips: the lowercase digits of a byte
  array, as the encoder of \<open>runtime/hash\<close> prints them, decode to the array.
\<close>

lemma decode_printed_hex:
  "decode_fixed_hex (byte_string (''0x'' @ concat (map hex_byte (as_slice (a :: 'n::len arr))))) = Ok a"
proof -
  let ?s = "byte_string (concat (map hex_byte (as_slice a)))"
  have "hex_decode ?s = Ok (as_slice a)"
    using hex_decode_pairs [OF ascii_hex] length_hex decode_pairs_hex by simp
  moreover have "strip_prefix (byte_string ''0x'') (byte_string (''0x'' @ concat (map hex_byte (as_slice a)))) = Some ?s"
    by (simp add: strip_prefix_def byte_string_def)
  ultimately show ?thesis by (simp add: decode_fixed_hex_def)
qed

section \<open>Strings that should not decode\<close>

text \<open>
  The decoder also accepts strings that are not hexadecimal: a pair may be a plus sign
  and one digit, so two different strings decode to one address.
\<close>

lemma hex_accepts_plus_sign:
  "decode_fixed_hex (byte_string (''0x'' @ concat (replicate 20 ''+f''))) = Ok (arr_fill 15 :: address)
   \<and> decode_fixed_hex (byte_string (''0x'' @ concat (replicate 20 ''0f''))) = Ok (arr_fill 15 :: address)"
  by code_simp

text \<open>
  The decoder panics on a string of even length with a two-byte character at an odd
  position (here the UTF-8 bytes of \<open>a\<close>, e acute, \<open>a\<close> behind the prefix), instead of
  reporting an error.
\<close>

lemma hex_panics_inside_character:
  "(decode_fixed_hex (byte_string ''0x'' @ [0x61, 0xC3, 0xA9, 0x61]) :: (address, hex_error) result) = Panic"
  by code_simp

end
