(* ===== verification/Cse.thy ===== *)
theory Cse
  imports Bytes
begin

text \<open>
  The Canonical Semantic Event ABI of \<open>runtime/cse\<close>: the execution context
  (\<open>context.rs\<close>), the payload structs (\<open>payloads.rs\<close>), the event type and its
  structural validation (\<open>event.rs\<close>, \<open>errors.rs\<close>, \<open>version.rs\<close>, \<open>traits.rs\<close>).
  Field names carry a prefix per struct, because record fields are global.
\<close>

section \<open>Execution context (context.rs)\<close>

record normative_context =
  sequence_number :: u64

record provisional_context =
  chain_id :: u64
  block_hash :: b32
  block_number :: u64
  transaction_hash :: b32
  transaction_index :: u32

record trace_context =
  call_frame_id :: u32
  call_depth :: u32

record execution_context =
  normative :: normative_context
  provisional :: provisional_context
  trace :: trace_context

section \<open>Payloads (payloads.rs)\<close>

record balance_changed =
  bc_address :: address
  bc_previous_balance :: b32
  bc_current_balance :: b32

record storage_slot_updated =
  su_address :: address
  su_slot :: b32
  su_previous_value :: b32
  su_current_value :: b32

record transient_storage_updated =
  ts_address :: address
  ts_slot :: b32
  ts_previous_value :: b32
  ts_current_value :: b32

record nonce_updated =
  nu_address :: address
  nu_previous_nonce :: u64
  nu_current_nonce :: u64

record contract_created =
  cc_address :: address
  cc_creator :: address

record code_updated =
  cu_address :: address
  cu_previous_code_hash :: b32
  cu_current_code_hash :: b32

record contract_destroyed =
  cd_address :: address
  cd_refund_target :: address

record log_emitted =
  le_address :: address
  le_topics :: "b32 list"
  le_data :: "u8 list"

record gas_refund_changed =
  gr_previous_refund :: u64
  gr_current_refund :: u64

record access_list_touched =
  al_address :: address
  al_slot :: "b32 option"

datatype cse_payload =
    BeginTransaction
  | EndTransaction
  | BalanceChanged balance_changed
  | StorageSlotUpdated storage_slot_updated
  | TransientStorageUpdated transient_storage_updated
  | NonceUpdated nonce_updated
  | ContractCreated contract_created
  | CodeUpdated code_updated
  | ContractDestroyed contract_destroyed
  | LogEmitted log_emitted
  | GasRefundChanged gas_refund_changed
  | AccessListTouched access_list_touched

text \<open>
  The \<open>Identifiable\<close> implementations of the payload structs, as one function on the
  payload enum; the payloads with no implementation give \<open>None\<close>.
\<close>

fun target_address :: "cse_payload \<Rightarrow> address option" where
  "target_address (BalanceChanged p) = Some (bc_address p)"
| "target_address (StorageSlotUpdated p) = Some (su_address p)"
| "target_address (TransientStorageUpdated p) = Some (ts_address p)"
| "target_address (NonceUpdated p) = Some (nu_address p)"
| "target_address (ContractCreated p) = Some (cc_address p)"
| "target_address (CodeUpdated p) = Some (cu_address p)"
| "target_address (ContractDestroyed p) = Some (cd_address p)"
| "target_address (LogEmitted p) = Some (le_address p)"
| "target_address (AccessListTouched p) = Some (al_address p)"
| "target_address _ = None"

section \<open>Events and their validation (event.rs, errors.rs, version.rs)\<close>

datatype cse_version = V1

text \<open>The discriminant, \<open>self.version as u32\<close>.\<close>

fun version_as_u32 :: "cse_version \<Rightarrow> u32" where
  "version_as_u32 V1 = 1"

definition ABI_VERSION :: u32 where
  "ABI_VERSION = 1"

record cse_event =
  version :: cse_version
  event_context :: execution_context
  payload :: cse_payload

datatype validation_error =
    UnsupportedVersion u32 u32 \<comment> \<open>expected, found\<close>
  | SequenceBreakage u64 u64 \<comment> \<open>expected, found\<close>
  | InvalidPayloadState string
  | InvalidBoundaryCondition string

definition validate_payload :: "cse_payload \<Rightarrow> (unit, validation_error) result" where
  "validate_payload pl =
     (case pl of
        BalanceChanged p \<Rightarrow>
          if bc_previous_balance p = bc_current_balance p
          then Err (InvalidPayloadState ''No-op balance change signature'') else Ok ()
      | StorageSlotUpdated p \<Rightarrow>
          if su_previous_value p = su_current_value p
          then Err (InvalidPayloadState ''No-op storage mutation signature'') else Ok ()
      | ContractCreated p \<Rightarrow>
          if cc_address p = arr_fill 0
          then Err (InvalidPayloadState ''Deployment targeting null address'') else Ok ()
      | _ \<Rightarrow> Ok ())"

definition validate :: "cse_event \<Rightarrow> (unit, validation_error) result" where
  "validate e =
     (if version_as_u32 (version e) \<noteq> ABI_VERSION
      then Err (UnsupportedVersion ABI_VERSION (version_as_u32 (version e)))
      else validate_payload (payload e))"

abbreviation seq_of :: "cse_event \<Rightarrow> u64" where
  "seq_of e \<equiv> sequence_number (normative (event_context e))"

text \<open>
  The payloads the validator lets through: a real change of a balance or of a
  persistent slot, and no deployment at the null address.
\<close>

definition payload_meaningful :: "cse_payload \<Rightarrow> bool" where
  "payload_meaningful pl =
     (case pl of
        BalanceChanged p \<Rightarrow> bc_previous_balance p \<noteq> bc_current_balance p
      | StorageSlotUpdated p \<Rightarrow> su_previous_value p \<noteq> su_current_value p
      | ContractCreated p \<Rightarrow> cc_address p \<noteq> arr_fill 0
      | _ \<Rightarrow> True)"

lemma version_supported [simp]: "version_as_u32 v = ABI_VERSION"
  by (cases v) (simp add: ABI_VERSION_def)

lemma validate_eq_payload [simp]: "validate e = validate_payload (payload e)"
  by (simp add: validate_def)

lemma validate_payload_Ok: "validate_payload pl = Ok () \<longleftrightarrow> payload_meaningful pl"
  by (auto simp: validate_payload_def payload_meaningful_def split: cse_payload.split)

lemma validate_payload_no_Panic: "validate_payload pl \<noteq> Panic"
  by (auto simp: validate_payload_def split: cse_payload.split)

end
