(* ===== verification/Envelope.thy ===== *)
theory Envelope
  imports Cse
begin

text \<open>
  The transaction envelope, as an abstract machine of two states: outside and inside
  a transaction.  Three components check or produce the same envelope: the validator
  of \<open>runtime/cse\<close>, the partition stage of \<open>runtime/builder\<close>, and the bridge, which
  emits it.  Each is connected to this machine by an interpretation of
  \<open>envelope_checker\<close>, so what one of them accepts can be fed to another.
\<close>

section \<open>The abstract machine\<close>

datatype boundary_kind = Opens | Closes | Inside

fun boundary :: "cse_payload \<Rightarrow> boundary_kind" where
  "boundary BeginTransaction = Opens"
| "boundary EndTransaction = Closes"
| "boundary _ = Inside"

abbreviation event_boundary :: "cse_event \<Rightarrow> boundary_kind" where
  "event_boundary e \<equiv> boundary (payload e)"

inductive envelope_step :: "bool \<Rightarrow> boundary_kind \<Rightarrow> bool \<Rightarrow> bool" where
  open_tx: "envelope_step False Opens True"
| close_tx: "envelope_step True Closes False"
| inside_tx: "envelope_step True Inside True"

inductive_simps envelope_step_simps [simp]:
  "envelope_step b Opens b'" "envelope_step b Closes b'" "envelope_step b Inside b'"

inductive_cases envelope_stepE: "envelope_step b x b'"

code_pred envelope_step .

inductive envelope_run :: "bool \<Rightarrow> boundary_kind list \<Rightarrow> bool \<Rightarrow> bool" where
  run_nil: "envelope_run b [] b"
| run_cons: "envelope_step b x c \<Longrightarrow> envelope_run c xs d \<Longrightarrow> envelope_run b (x # xs) d"

inductive_simps envelope_run_simps [simp]:
  "envelope_run b [] d" "envelope_run b (x # xs) d"

lemma envelope_run_append:
  "envelope_run b (xs @ ys) d \<longleftrightarrow> (\<exists>c. envelope_run b xs c \<and> envelope_run c ys d)"
  by (induction xs arbitrary: b) auto

lemma envelope_step_deterministic: "envelope_step b x c \<Longrightarrow> envelope_step b x d \<Longrightarrow> c = d"
  by (cases x) auto

lemma envelope_run_deterministic: "envelope_run b xs c \<Longrightarrow> envelope_run b xs d \<Longrightarrow> c = d"
  by (induction xs arbitrary: b) (auto dest: envelope_step_deterministic)

lemma envelope_run_inside: "set xs \<subseteq> {Inside} \<Longrightarrow> envelope_run True xs True"
  by (induction xs) auto

text \<open>Boundaries balance: a run opens as often as it closes, but for the open transaction.\<close>

lemma envelope_run_balance:
  "envelope_run b xs c \<Longrightarrow>
    of_bool b + count_list xs Opens = count_list xs Closes + (of_bool c :: nat)"
  by (induction rule: envelope_run.induct) (auto elim!: envelope_stepE)

section \<open>Checkers\<close>

locale envelope_checker =
  fixes step :: "'s \<Rightarrow> 'ev \<Rightarrow> ('s, 'err) result"
    and in_tx :: "'s \<Rightarrow> bool"
    and kind :: "'ev \<Rightarrow> boundary_kind"
  assumes step_sound: "step s e = Ok s' \<Longrightarrow> envelope_step (in_tx s) (kind e) (in_tx s')"
begin

lemma run_sound:
  "fold_res step s es = Ok s' \<Longrightarrow> envelope_run (in_tx s) (map kind es) (in_tx s')"
  by (induction es arbitrary: s) (auto dest: step_sound)

end

text \<open>A checker that rejects for no other reason than the envelope.\<close>

locale exact_envelope_checker = envelope_checker +
  assumes step_complete: "envelope_step (in_tx s) (kind e) b \<Longrightarrow> \<exists>s'. step s e = Ok s'"
begin

lemma step_exact: "(\<exists>s'. step s e = Ok s' \<and> in_tx s' = b) \<longleftrightarrow> envelope_step (in_tx s) (kind e) b"
proof
  assume b: "envelope_step (in_tx s) (kind e) b"
  then obtain s' where s': "step s e = Ok s'" by (blast dest: step_complete)
  have "in_tx s' = b" by (rule envelope_step_deterministic [OF step_sound [OF s'] b])
  with s' show "\<exists>s'. step s e = Ok s' \<and> in_tx s' = b" by blast
next
  assume "\<exists>s'. step s e = Ok s' \<and> in_tx s' = b"
  then show "envelope_step (in_tx s) (kind e) b" using step_sound by blast
qed

lemma run_complete:
  "envelope_run (in_tx s) (map kind es) b \<Longrightarrow> \<exists>s'. fold_res step s es = Ok s' \<and> in_tx s' = b"
proof (induction es arbitrary: s)
  case (Cons e es)
  then obtain c where c: "envelope_step (in_tx s) (kind e) c" "envelope_run c (map kind es) b"
    by auto
  from c(1) obtain s1 where "step s e = Ok s1" "in_tx s1 = c"
    using step_exact by blast
  with c(2) Cons.IH show ?case by auto
qed auto

lemma run_exact:
  "(\<exists>s'. fold_res step s es = Ok s' \<and> in_tx s' = b) \<longleftrightarrow> envelope_run (in_tx s) (map kind es) b"
  using run_sound run_complete by blast

end

end
