(* ===== verification/Bridge.thy ===== *)
theory Bridge
  imports Wire Envelope
begin

text \<open>
  \<open>runtime/bridge/src/translate.rs\<close>: the translation of the tracer's event stream into
  CSE events.  Mutations inside a call frame wait in the frame's buffer; a frame that
  commits hands its buffer to its parent, one that reverts drops it.  Shown here: which
  streams are accepted, the envelope and the numbering of the output, and that every
  prefix processed without an error can be completed.
\<close>

section \<open>The translation as written\<close>

datatype bridge_error =
    UnbalancedFrames nat
  | TransactionStartWhileOpen nat
  | OutsideTransaction nat
  | FrameIdOverflow u64

record bridge_config =
  cfg_chain_id :: u64

record frame_buffer =
  fb_frame_id :: u64
  fb_depth :: u64
  fb_events :: "cse_event list"

text \<open>The loop's variables; the stack's top is the head of the list.\<close>

record bridge_state =
  br_final :: "cse_event list"
  br_tx_open :: bool
  br_tx_output :: "cse_event list"
  br_stack :: "frame_buffer list"
  br_block_number :: u64
  br_tx_hash :: b32
  br_tx_index :: u64

definition initial_bridge :: bridge_state where
  "initial_bridge = \<lparr>br_final = [], br_tx_open = False, br_tx_output = [], br_stack = [],
     br_block_number = 0, br_tx_hash = arr_fill 0, br_tx_index = 0\<rparr>"

text \<open>\<open>tx_index as u32\<close> keeps the low 32 bits; \<open>u32::MAX\<close> is \<open>- 1\<close>.\<close>

definition mutation_event ::
    "bridge_config \<Rightarrow> u64 \<Rightarrow> b32 \<Rightarrow> u64 \<Rightarrow> u32 \<Rightarrow> u32 \<Rightarrow> cse_payload \<Rightarrow> cse_event" where
  "mutation_event cfg bnum txh txi frame depth pl =
     \<lparr>version = V1,
      event_context =
        \<lparr>normative = \<lparr>sequence_number = 0\<rparr>,
         provisional = \<lparr>chain_id = cfg_chain_id cfg, block_hash = arr_fill 0,
           block_number = bnum, transaction_hash = txh,
           transaction_index = ucast txi\<rparr>,
         trace = \<lparr>call_frame_id = frame, call_depth = depth\<rparr>\<rparr>,
      payload = pl\<rparr>"

definition boundary_event :: "cse_payload \<Rightarrow> bridge_config \<Rightarrow> u64 \<Rightarrow> b32 \<Rightarrow> u64 \<Rightarrow> cse_event" where
  "boundary_event pl cfg bnum txh txi =
     \<lparr>version = V1,
      event_context =
        \<lparr>normative = \<lparr>sequence_number = 0\<rparr>,
         provisional = \<lparr>chain_id = cfg_chain_id cfg, block_hash = arr_fill 0,
           block_number = bnum, transaction_hash = txh,
           transaction_index = ucast txi\<rparr>,
         trace = \<lparr>call_frame_id = - 1, call_depth = 0\<rparr>\<rparr>,
      payload = pl\<rparr>"

text \<open>\<open>u32::try_from\<close>.\<close>

definition u32_try_from :: "u64 \<Rightarrow> (u32, bridge_error) result" where
  "u32_try_from v = (if unat v < 2 ^ 32 then Ok (ucast v) else Err (FrameIdOverflow v))"

definition append_mutation ::
    "bridge_config \<Rightarrow> u64 \<Rightarrow> cse_payload \<Rightarrow> bridge_state \<Rightarrow> (bridge_state, bridge_error) result" where
  "append_mutation cfg frame_id pl s =
     bind_res
       (if frame_id = NO_FRAME then Ok (- 1, 0)
        else (case br_stack s of
                fb # _ \<Rightarrow>
                  bind_res (u32_try_from (fb_frame_id fb)) (\<lambda>call_frame_id.
                  bind_res (u32_try_from (fb_depth fb)) (\<lambda>call_depth. Ok (call_frame_id, call_depth)))
              | [] \<Rightarrow> Ok (- 1, 0)))
       (\<lambda>(call_frame_id, call_depth).
         let event = mutation_event cfg (br_block_number s) (br_tx_hash s) (br_tx_index s)
               call_frame_id call_depth pl
         in if frame_id = NO_FRAME then Ok (s\<lparr>br_tx_output := br_tx_output s @ [event]\<rparr>)
            else (case br_stack s of
                    fb # rest \<Rightarrow> Ok (s\<lparr>br_stack := fb\<lparr>fb_events := fb_events fb @ [event]\<rparr> # rest\<rparr>)
                  | [] \<Rightarrow> Err (UnbalancedFrames (2 ^ 64 - 1))))"

definition translate_step ::
    "bridge_config \<Rightarrow> bridge_state \<Rightarrow> nat \<times> go_event \<Rightarrow> (bridge_state, bridge_error) result" where
  "translate_step cfg s entry =
     (case entry of (i, event) \<Rightarrow>
      case event of
        BlockStart d \<Rightarrow> Ok (s\<lparr>br_block_number := bs_number d\<rparr>)
      | BlockCommit \<Rightarrow> Ok s
      | TransactionStart d \<Rightarrow>
          if br_tx_open s then Err (TransactionStartWhileOpen i)
          else Ok (s\<lparr>br_tx_open := True, br_tx_index := st_tx_index d, br_tx_hash := hash_bytes (st_hash d),
                 br_stack := [],
                 br_tx_output := [boundary_event BeginTransaction cfg (br_block_number s)
                   (hash_bytes (st_hash d)) (st_tx_index d)]\<rparr>)
      | TransactionEnd d \<Rightarrow>
          if \<not> br_tx_open s then Err (OutsideTransaction i)
          else if br_stack s \<noteq> [] then Err (UnbalancedFrames i)
          else Ok (s\<lparr>br_final := br_final s @ br_tx_output s
                   @ [boundary_event EndTransaction cfg (br_block_number s) (br_tx_hash s) (br_tx_index s)],
                 br_tx_output := [], br_tx_open := False\<rparr>)
      | FrameEnter d \<Rightarrow>
          if \<not> br_tx_open s then Err (OutsideTransaction i)
          else Ok (s\<lparr>br_stack := \<lparr>fb_frame_id = fe_frame_id d, fb_depth = fe_depth d, fb_events = []\<rparr>
                 # br_stack s\<rparr>)
      | FrameExit d \<Rightarrow>
          if \<not> br_tx_open s then Err (OutsideTransaction i)
          else (case br_stack s of
                  [] \<Rightarrow> Err (UnbalancedFrames i)
                | popped # rest \<Rightarrow>
                    if fb_frame_id popped \<noteq> fx_frame_id d then Err (UnbalancedFrames i)
                    else if fx_reverted d then Ok (s\<lparr>br_stack := rest\<rparr>)
                    else (case rest of
                            parent # rest' \<Rightarrow>
                              Ok (s\<lparr>br_stack :=
                                parent\<lparr>fb_events := fb_events parent @ fb_events popped\<rparr> # rest'\<rparr>)
                          | [] \<Rightarrow> Ok (s\<lparr>br_stack := [], br_tx_output := br_tx_output s @ fb_events popped\<rparr>)))
      | BalanceMutation d \<Rightarrow>
          append_mutation cfg (bm_frame_id d)
            (BalanceChanged \<lparr>bc_address = address_bytes (bm_address d),
               bc_previous_balance = hash_bytes (bm_before d), bc_current_balance = hash_bytes (bm_after d)\<rparr>) s
      | NonceMutation d \<Rightarrow>
          append_mutation cfg (nm_frame_id d)
            (NonceUpdated \<lparr>nu_address = address_bytes (nm_address d),
               nu_previous_nonce = nm_before d, nu_current_nonce = nm_after d\<rparr>) s
      | CodeMutation d \<Rightarrow>
          append_mutation cfg (cm_frame_id d)
            (CodeUpdated \<lparr>cu_address = address_bytes (cm_address d),
               cu_previous_code_hash = hash_bytes (cm_before d), cu_current_code_hash = hash_bytes (cm_after d)\<rparr>) s
      | StorageMutation d \<Rightarrow>
          append_mutation cfg (sm_frame_id d)
            (StorageSlotUpdated \<lparr>su_address = address_bytes (sm_address d), su_slot = hash_bytes (sm_slot d),
               su_previous_value = hash_bytes (sm_before d), su_current_value = hash_bytes (sm_after d)\<rparr>) s
      | AccountCreated d \<Rightarrow>
          append_mutation cfg (ac_frame_id d)
            (ContractCreated \<lparr>cc_address = address_bytes (ac_address d),
               cc_creator = address_bytes (ac_creator d)\<rparr>) s
      | SelfDestruct d \<Rightarrow>
          append_mutation cfg (sd_frame_id d)
            (ContractDestroyed \<lparr>cd_address = address_bytes (sd_address d),
               cd_refund_target = address_bytes (sd_beneficiary d)\<rparr>) s)"

definition set_sequence :: "nat \<Rightarrow> cse_event \<Rightarrow> cse_event" where
  "set_sequence n e =
     e\<lparr>event_context := (event_context e)\<lparr>normative := (normative (event_context e))\<lparr>sequence_number := of_nat n\<rparr>\<rparr>\<rparr>"

definition assign_sequence :: "cse_event list \<Rightarrow> cse_event list" where
  "assign_sequence es = map (\<lambda>(n, e). set_sequence n e) (enumerate 0 es)"

definition translate :: "go_event list \<Rightarrow> bridge_config \<Rightarrow> (cse_event list, bridge_error) result" where
  "translate events cfg =
     bind_res (fold_res (translate_step cfg) initial_bridge (enumerate 0 events)) (\<lambda>s.
       if br_tx_open s then Err (OutsideTransaction (length events))
       else Ok (assign_sequence (br_final s)))"

section \<open>Envelope and numbering of the output\<close>

lemma set_sequence_simps [simp]:
  "payload (set_sequence n e) = payload e" "seq_of (set_sequence n e) = of_nat n"
  by (simp_all add: set_sequence_def)

lemma map_enumerate_nth: "map (\<lambda>(n, e). f n e) (enumerate k es) = map (\<lambda>i. f (k + i) (es ! i)) [0..<length es]"
  by (rule nth_equalityI) (auto simp: nth_enumerate_eq)

lemma assign_sequence_payloads: "map payload (assign_sequence es) = map payload es"
proof -
  have "map (\<lambda>(n, e). payload (set_sequence n e)) (enumerate k es) = map payload es" for k
    by (induction es arbitrary: k) auto
  then show ?thesis by (simp add: assign_sequence_def split_def comp_def)
qed

lemma assign_sequence_numbers: "map seq_of (assign_sequence es) = map of_nat [0..<length es]"
  by (simp add: assign_sequence_def map_enumerate_nth comp_def)

lemma length_assign_sequence [simp]: "length (assign_sequence es) = length es"
  by (simp add: assign_sequence_def)

definition bridge_inv :: "bridge_state \<Rightarrow> bool" where
  "bridge_inv s \<longleftrightarrow>
     envelope_run False (map event_boundary (br_final s)) False
     \<and> (br_tx_open s \<longrightarrow> envelope_run False (map event_boundary (br_tx_output s)) True)
     \<and> (\<forall>fb \<in> set (br_stack s). \<forall>e \<in> set (fb_events fb). event_boundary e = Inside)"

lemma payload_bridge_event [simp]:
  "payload (mutation_event cfg b h i f d pl) = pl" "payload (boundary_event pl cfg b h i) = pl"
  by (simp_all add: mutation_event_def boundary_event_def)

lemma envelope_run_snoc: "envelope_run b (xs @ [x]) d \<longleftrightarrow> (\<exists>c. envelope_run b xs c \<and> envelope_step c x d)"
  by (simp add: envelope_run_append)

lemma append_mutation_inv:
  assumes "bridge_inv s" and "boundary pl = Inside" and "append_mutation cfg f pl s = Ok s'"
  shows "bridge_inv s'"
  using assms
  by (auto simp: append_mutation_def bridge_inv_def Let_def envelope_run_snoc
      split: if_splits list.splits)

lemma envelope_run_inside_events:
  "\<forall>e \<in> set es. event_boundary e = Inside \<Longrightarrow> envelope_run True (map event_boundary es) True"
  by (rule envelope_run_inside) auto

text \<open>The six mutation events are one case.\<close>

fun mutation_parts :: "go_event \<Rightarrow> (u64 \<times> cse_payload) option" where
  "mutation_parts (BalanceMutation d) = Some (bm_frame_id d,
     BalanceChanged \<lparr>bc_address = address_bytes (bm_address d),
       bc_previous_balance = hash_bytes (bm_before d), bc_current_balance = hash_bytes (bm_after d)\<rparr>)"
| "mutation_parts (NonceMutation d) = Some (nm_frame_id d,
     NonceUpdated \<lparr>nu_address = address_bytes (nm_address d),
       nu_previous_nonce = nm_before d, nu_current_nonce = nm_after d\<rparr>)"
| "mutation_parts (CodeMutation d) = Some (cm_frame_id d,
     CodeUpdated \<lparr>cu_address = address_bytes (cm_address d),
       cu_previous_code_hash = hash_bytes (cm_before d), cu_current_code_hash = hash_bytes (cm_after d)\<rparr>)"
| "mutation_parts (StorageMutation d) = Some (sm_frame_id d,
     StorageSlotUpdated \<lparr>su_address = address_bytes (sm_address d), su_slot = hash_bytes (sm_slot d),
       su_previous_value = hash_bytes (sm_before d), su_current_value = hash_bytes (sm_after d)\<rparr>)"
| "mutation_parts (AccountCreated d) = Some (ac_frame_id d,
     ContractCreated \<lparr>cc_address = address_bytes (ac_address d), cc_creator = address_bytes (ac_creator d)\<rparr>)"
| "mutation_parts (SelfDestruct d) = Some (sd_frame_id d,
     ContractDestroyed \<lparr>cd_address = address_bytes (sd_address d),
       cd_refund_target = address_bytes (sd_beneficiary d)\<rparr>)"
| "mutation_parts e = None"

lemma mutation_step:
  "mutation_parts e = Some (f, pl) \<Longrightarrow>
     translate_step cfg s (i, e) = append_mutation cfg f pl s \<and> boundary pl = Inside"
  by (cases e) (auto simp: translate_step_def)

lemma translate_step_cases:
  obtains (mutation) f pl where "mutation_parts e = Some (f, pl)"
    | (block) d where "e = BlockStart d" | (commit) "e = BlockCommit"
    | (start) d where "e = TransactionStart d" | (finish) d where "e = TransactionEnd d"
    | (enter) d where "e = FrameEnter d" | (exit) d where "e = FrameExit d"
  by (cases e) auto

lemma translate_step_inv:
  assumes inv: "bridge_inv s" and step: "translate_step cfg s (i, e) = Ok s'"
  shows "bridge_inv s'"
proof (cases rule: translate_step_cases [of e])
  case (mutation f pl)
  then show ?thesis
    using mutation_step [OF mutation, of cfg s i] append_mutation_inv [OF inv] step by metis
next
  case (finish d)
  with inv step show ?thesis
    by (auto simp: translate_step_def bridge_inv_def envelope_run_append split: if_splits) blast
next
  case (exit d)
  with inv step show ?thesis
    by (auto simp: translate_step_def bridge_inv_def envelope_run_append
        intro!: envelope_run_inside_events split: if_splits list.splits)
qed (use inv step in \<open>auto simp: translate_step_def bridge_inv_def split: if_splits\<close>)

lemma translate_envelope:
  assumes "translate events cfg = Ok out"
  shows "envelope_run False (map event_boundary out) False" and "map seq_of out = map of_nat [0..<length out]"
proof -
  obtain s where fold: "fold_res (translate_step cfg) initial_bridge (enumerate 0 events) = Ok s"
    and out: "out = assign_sequence (br_final s)"
    using assms by (auto simp: translate_def split: if_splits)
  have "bridge_inv s"
  proof (rule fold_res_invariant [OF _ _ fold])
    show "bridge_inv s2" if "bridge_inv s1" "translate_step cfg s1 x = Ok s2" for s1 x s2
      using that translate_step_inv by (cases x) auto
  qed (simp add: bridge_inv_def initial_bridge_def)
  moreover have "map event_boundary out = map event_boundary (br_final s)"
    using arg_cong [OF assign_sequence_payloads, of "map boundary" "br_final s"] by (simp add: out comp_def)
  ultimately show "envelope_run False (map event_boundary out) False" by (simp add: bridge_inv_def)
  show "map seq_of out = map of_nat [0..<length out]"
    by (simp add: out assign_sequence_numbers)
qed

section \<open>Acceptance\<close>

abbreviation run_events :: "bridge_config \<Rightarrow> bridge_state \<Rightarrow> nat \<Rightarrow> go_event list \<Rightarrow> (bridge_state, bridge_error) result" where
  "run_events cfg s n es \<equiv> fold_res (translate_step cfg) s (enumerate n es)"

lemma run_events_append:
  "run_events cfg s n (xs @ ys) = bind_res (run_events cfg s n xs) (\<lambda>s'. run_events cfg s' (n + length xs) ys)"
  by (simp add: enumerate_append_eq fold_res_append)

text \<open>
  The structure the translation insists on, as a step relation: no transaction
  (\<open>None\<close>), or the open frames of the transaction, innermost first.
\<close>

type_synonym open_frames = "(u64 \<times> u64) list option"

inductive frame_step :: "open_frames \<Rightarrow> go_event \<Rightarrow> open_frames \<Rightarrow> bool" where
  fs_block: "frame_step st (BlockStart d) st"
| fs_commit: "frame_step st BlockCommit st"
| fs_start: "frame_step None (TransactionStart d) (Some [])"
| fs_finish: "frame_step (Some []) (TransactionEnd d) None"
| fs_enter: "frame_step (Some frames) (FrameEnter d) (Some ((fe_frame_id d, fe_depth d) # frames))"
| fs_exit: "fx_frame_id d = i \<Longrightarrow> frame_step (Some ((i, depth) # frames)) (FrameExit d) (Some frames)"
| fs_free: "mutation_parts e = Some (NO_FRAME, pl) \<Longrightarrow> frame_step st e st"
| fs_own: "mutation_parts e = Some (f, pl) \<Longrightarrow> f \<noteq> NO_FRAME \<Longrightarrow> unat i < 2 ^ 32 \<Longrightarrow> unat depth < 2 ^ 32
    \<Longrightarrow> frame_step (Some ((i, depth) # frames)) e (Some ((i, depth) # frames))"

inductive_simps frame_step_simps:
  "frame_step st (BlockStart d) st'" "frame_step st BlockCommit st'"
  "frame_step st (TransactionStart d) st'" "frame_step st (TransactionEnd d) st'"
  "frame_step st (FrameEnter d) st'" "frame_step st (FrameExit d) st'"

inductive_cases frame_stepE: "frame_step st e st'"

code_pred frame_step .

inductive frame_run :: "open_frames \<Rightarrow> go_event list \<Rightarrow> open_frames \<Rightarrow> bool" where
  fr_nil: "frame_run st [] st"
| fr_cons: "frame_step st e st1 \<Longrightarrow> frame_run st1 es st2 \<Longrightarrow> frame_run st (e # es) st2"

inductive_simps frame_run_simps [simp]:
  "frame_run st [] st'" "frame_run st (e # es) st'"

definition frames_of :: "bridge_state \<Rightarrow> open_frames" where
  "frames_of s =
     (if br_tx_open s then Some (map (\<lambda>fb. (fb_frame_id fb, fb_depth fb)) (br_stack s)) else None)"

definition closed_stack :: "bridge_state \<Rightarrow> bool" where
  "closed_stack s \<longleftrightarrow> br_tx_open s \<or> br_stack s = []"

lemma frame_step_mutation:
  assumes "mutation_parts e = Some (f, pl)"
  shows "frame_step st e st' \<longleftrightarrow> st' = st \<and>
    (f = NO_FRAME \<or> (\<exists>i depth frames. st = Some ((i, depth) # frames) \<and> unat i < 2 ^ 32 \<and> unat depth < 2 ^ 32))"
proof (cases "f = NO_FRAME")
  case True
  with assms show ?thesis by (auto elim!: frame_stepE intro: fs_free)
next
  case False
  with assms show ?thesis by (auto elim!: frame_stepE intro: fs_own)
qed

lemma append_mutation_exact:
  assumes "closed_stack s"
  shows "(\<exists>s'. append_mutation cfg f pl s = Ok s' \<and> closed_stack s' \<and> frames_of s' = st) \<longleftrightarrow>
    st = frames_of s \<and> (f = NO_FRAME \<or> (\<exists>i depth frames. frames_of s = Some ((i, depth) # frames)
      \<and> unat i < 2 ^ 32 \<and> unat depth < 2 ^ 32))"
  using assms
  by (cases "br_stack s")
    (auto simp: append_mutation_def u32_try_from_def closed_stack_def frames_of_def)

lemma translate_step_exact:
  assumes "closed_stack s"
  shows "(\<exists>s'. translate_step cfg s (n, e) = Ok s' \<and> closed_stack s' \<and> frames_of s' = st) \<longleftrightarrow>
    frame_step (frames_of s) e st"
proof (cases rule: translate_step_cases [of e])
  case (mutation f pl)
  then show ?thesis
    using append_mutation_exact [OF assms] mutation_step [OF mutation] frame_step_mutation [OF mutation]
    by simp
next
  case (exit d)
  with assms show ?thesis
    by (cases "br_stack s"; cases "tl (br_stack s)")
      (auto simp: translate_step_def frame_step_simps frames_of_def closed_stack_def)
qed (use assms in \<open>auto simp: translate_step_def frame_step_simps frames_of_def closed_stack_def\<close>)

lemma translate_step_closed: "closed_stack s \<Longrightarrow> translate_step cfg s (n, e) = Ok s' \<Longrightarrow> closed_stack s'"
proof (cases rule: translate_step_cases [of e])
  case (mutation f pl)
  moreover assume "closed_stack s" "translate_step cfg s (n, e) = Ok s'"
  ultimately show ?thesis using mutation_step [OF mutation, of cfg s n]
    by (auto simp: append_mutation_def closed_stack_def Let_def split: if_splits list.splits)
qed (auto simp: translate_step_def closed_stack_def split: if_splits list.splits)

lemma run_events_exact:
  "closed_stack s \<Longrightarrow>
    (\<exists>s'. run_events cfg s n es = Ok s' \<and> closed_stack s' \<and> frames_of s' = st) \<longleftrightarrow> frame_run (frames_of s) es st"
proof (induction es arbitrary: s n)
  case (Cons e es)
  have "(\<exists>s'. run_events cfg s n (e # es) = Ok s' \<and> closed_stack s' \<and> frames_of s' = st) \<longleftrightarrow>
      (\<exists>s1. translate_step cfg s (n, e) = Ok s1 \<and> closed_stack s1 \<and> frame_run (frames_of s1) es st)"
    using Cons.IH translate_step_closed [OF Cons.prems] by auto blast+
  also have "\<dots> \<longleftrightarrow> (\<exists>st1. frame_step (frames_of s) e st1 \<and> frame_run st1 es st)"
    using translate_step_exact [OF Cons.prems, of cfg n e] by metis
  finally show ?case by simp
qed auto

lemma translate_step_no_Panic: "translate_step cfg s x \<noteq> Panic"
proof -
  obtain n e where x: "x = (n, e)" by (cases x)
  have no_panic: "append_mutation cfg f pl s \<noteq> Panic" for f pl
    by (auto simp: append_mutation_def u32_try_from_def Let_def split: list.splits)
  show ?thesis unfolding x
  proof (cases rule: translate_step_cases [of e])
    case (mutation f pl)
    with no_panic [of f pl] show "translate_step cfg s (n, e) \<noteq> Panic"
      by (simp add: mutation_step)
  qed (auto simp: translate_step_def split: list.splits)
qed

lemma closed_initial: "closed_stack initial_bridge" "frames_of initial_bridge = None"
  by (simp_all add: closed_stack_def frames_of_def initial_bridge_def)

lemma run_closed: "run_events cfg initial_bridge 0 events = Ok s \<Longrightarrow> closed_stack s"
proof (rule fold_res_invariant [where I = closed_stack, OF _ closed_initial(1)])
  show "closed_stack s2" if "closed_stack s1" "translate_step cfg s1 x = Ok s2" for s1 x s2
    using that translate_step_closed by (cases x) auto
qed

lemma accepted_iff_frame_run: "(\<exists>out. translate events cfg = Ok out) \<longleftrightarrow> frame_run None events None"
proof -
  have none: "frames_of s = None \<longleftrightarrow> \<not> br_tx_open s" for s
    by (simp add: frames_of_def)
  have "(\<exists>out. translate events cfg = Ok out) \<longleftrightarrow>
      (\<exists>s'. run_events cfg initial_bridge 0 events = Ok s' \<and> closed_stack s' \<and> frames_of s' = None)"
    using run_closed by (auto simp: translate_def none split: if_splits)
  then show ?thesis
    using run_events_exact [OF closed_initial(1), of cfg 0 events None] by (simp add: closed_initial)
qed

text \<open>
  C19: the bridge's acceptance of a stream, exactly.  \<open>translate\<close> succeeds when, and only
  when, the stream is a run of the frame machine from "no transaction" back to it:
  transactions do not nest, frames close in order under their own id and inside their
  transaction, and a mutation that names a frame comes while a frame with 32-bit id and
  depth is open.  On every other stream it returns an error; it never panics.
\<close>

theorem bridge_accepts_exactly:
  "((\<exists>out. translate events cfg = Ok out) \<longleftrightarrow> frame_run None events None)
    \<and> translate events cfg \<noteq> Panic"
  using accepted_iff_frame_run fold_res_no_Panic [of "translate_step cfg", OF translate_step_no_Panic]
  by (auto simp: translate_def)

text \<open>
  C36: the shape of the output, for every accepted stream whatever its structure.  The
  output is a sequence of complete transactions, begin marker to end marker, with
  nothing outside them, and its sequence numbers are the positions 0, 1, 2 and so on.
\<close>

theorem bridge_output_well_formed:
  assumes "translate events cfg = Ok out"
  shows "envelope_run False (map event_boundary out) False \<and> map seq_of out = map of_nat [0..<length out]"
  using translate_envelope [OF assms] by blast

theorem bridge_output_well_formed_witness:
  "envelope_run False (map event_boundary
      [set_sequence 0 (boundary_event BeginTransaction \<lparr>cfg_chain_id = 1\<rparr> 0 (arr_fill 8) 1),
       set_sequence 1 (boundary_event EndTransaction \<lparr>cfg_chain_id = 1\<rparr> 0 (arr_fill 8) 1)]) False"
  by (rule bridge_output_well_formed [of
        "[TransactionStart \<lparr>st_tx_index = 1, st_hash = HexHash (arr_fill 8)\<rparr>,
          TransactionEnd \<lparr>te_tx_index = 1, te_reverted = True\<rparr>]" "\<lparr>cfg_chain_id = 1\<rparr>", THEN conjunct1])
    (simp add: translate_def translate_step_def initial_bridge_def assign_sequence_def)

section \<open>Progress\<close>

text \<open>The events that close what a prefix has left open.\<close>

fun closing_events :: "open_frames \<Rightarrow> go_event list" where
  "closing_events None = []"
| "closing_events (Some frames) =
     map (\<lambda>(i, _). FrameExit \<lparr>fx_frame_id = i, fx_reverted = False\<rparr>) frames
       @ [TransactionEnd \<lparr>te_tx_index = 0, te_reverted = False\<rparr>]"

lemma frame_run_append: "frame_run st (xs @ ys) st' \<longleftrightarrow> (\<exists>st1. frame_run st xs st1 \<and> frame_run st1 ys st')"
  by (induction xs arbitrary: st) auto

lemma frame_run_closing: "frame_run st (closing_events st) None"
proof (cases st)
  case (Some frames)
  have "frame_run (Some frames) (map (\<lambda>(i, _). FrameExit \<lparr>fx_frame_id = i, fx_reverted = False\<rparr>) frames) (Some [])"
    by (induction frames) (auto simp: frame_step_simps)
  with Some show ?thesis by (auto simp: frame_run_append frame_step_simps)
qed simp

text \<open>
  C37: the bridge never runs into a dead end.  A prefix it has processed without an error
  can always be completed to a stream it accepts, by leaving the open frames and ending
  the transaction; and only such prefixes are processed without an error.
\<close>

theorem bridge_prefix_completable:
  "(\<exists>s. fold_res (translate_step cfg) initial_bridge (enumerate 0 events) = Ok s) \<longleftrightarrow>
     (\<exists>rest out. translate (events @ rest) cfg = Ok out)"
proof
  assume "\<exists>s. run_events cfg initial_bridge 0 events = Ok s"
  then obtain s where s: "run_events cfg initial_bridge 0 events = Ok s" by blast
  then have "closed_stack s" by (rule run_closed)
  then have "frame_run None events (frames_of s)"
    using run_events_exact [OF closed_initial(1), of cfg 0 events "frames_of s"] s by (auto simp: closed_initial)
  then have "frame_run None (events @ closing_events (frames_of s)) None"
    using frame_run_closing frame_run_append by blast
  then show "\<exists>rest out. translate (events @ rest) cfg = Ok out"
    using accepted_iff_frame_run by blast
next
  assume "\<exists>rest out. translate (events @ rest) cfg = Ok out"
  then show "\<exists>s. run_events cfg initial_bridge 0 events = Ok s"
    by (auto simp: translate_def run_events_append simp del: enumerate_append_eq)
qed

end
