(* ===== verification/Emes.thy ===== *)
theory Emes
  imports Bridge
begin

text \<open>
  \<open>emes/types.go\<close>: the event taxonomy EMES-V1 of the Go side, and how its events look to
  the Rust bridge.  Every Go event embeds a \<open>base\<close> with its sequence number; the structs
  are records that extend it.  Field names carry a prefix per struct.
\<close>

section \<open>Events\<close>

datatype frame_type =
  FrameCall | FrameCallCode | FrameDelegateCall | FrameStaticCall | FrameCreate | FrameCreate2 | FramePrecompile

record base =
  base_sequence :: u64

record block_start_event = base +
  gbs_emes_version :: string
  gbs_number :: u64
  gbs_timestamp :: u64

record transaction_start_event = base +
  gts_tx_index :: u64
  gts_hash :: b32
  gts_from :: address
  gts_to :: "address option"
  gts_value :: b32
  gts_gas_limit :: u64
  gts_gas_price :: b32
  gts_nonce :: u64

record frame_enter_event = base +
  gfe_frame_id :: u64
  gfe_parent_frame_id :: u64
  gfe_depth :: u64
  gfe_type :: frame_type
  gfe_from :: address
  gfe_to :: address

record frame_exit_event = base +
  gfx_frame_id :: u64
  gfx_reverted :: bool

record transaction_end_event = base +
  gte_tx_index :: u64
  gte_reverted :: bool

record block_commit_event = base +
  gbc_state_root :: b32

record balance_mutation_event = base +
  gbm_frame_id :: u64
  gbm_address :: address
  gbm_before :: b32
  gbm_after :: b32

record nonce_mutation_event = base +
  gnm_frame_id :: u64
  gnm_address :: address
  gnm_before :: u64
  gnm_after :: u64

record code_mutation_event = base +
  gcm_frame_id :: u64
  gcm_address :: address
  gcm_before :: b32
  gcm_after :: b32

record storage_mutation_event = base +
  gsm_frame_id :: u64
  gsm_address :: address
  gsm_slot :: b32
  gsm_before :: b32
  gsm_after :: b32

record account_created_event = base +
  gac_frame_id :: u64
  gac_address :: address
  gac_creator :: address

record self_destruct_event = base +
  gsd_frame_id :: u64
  gsd_address :: address
  gsd_beneficiary :: address

text \<open>The interface \<open>Event\<close>: a pointer to one of the structs.\<close>

datatype emes_event =
    BlockStartEvent block_start_event
  | TransactionStartEvent transaction_start_event
  | FrameEnterEvent frame_enter_event
  | FrameExitEvent frame_exit_event
  | TransactionEndEvent transaction_end_event
  | BlockCommitEvent block_commit_event
  | BalanceMutationEvent balance_mutation_event
  | NonceMutationEvent nonce_mutation_event
  | CodeMutationEvent code_mutation_event
  | StorageMutationEvent storage_mutation_event
  | AccountCreatedEvent account_created_event
  | SelfDestructEvent self_destruct_event

fun sequence_num :: "emes_event \<Rightarrow> u64" where
  "sequence_num (BlockStartEvent d) = base_sequence d"
| "sequence_num (TransactionStartEvent d) = base_sequence d"
| "sequence_num (FrameEnterEvent d) = base_sequence d"
| "sequence_num (FrameExitEvent d) = base_sequence d"
| "sequence_num (TransactionEndEvent d) = base_sequence d"
| "sequence_num (BlockCommitEvent d) = base_sequence d"
| "sequence_num (BalanceMutationEvent d) = base_sequence d"
| "sequence_num (NonceMutationEvent d) = base_sequence d"
| "sequence_num (CodeMutationEvent d) = base_sequence d"
| "sequence_num (StorageMutationEvent d) = base_sequence d"
| "sequence_num (AccountCreatedEvent d) = base_sequence d"
| "sequence_num (SelfDestructEvent d) = base_sequence d"

fun set_event_sequence :: "u64 \<Rightarrow> emes_event \<Rightarrow> emes_event" where
  "set_event_sequence s (BlockStartEvent d) = BlockStartEvent (d\<lparr>base_sequence := s\<rparr>)"
| "set_event_sequence s (TransactionStartEvent d) = TransactionStartEvent (d\<lparr>base_sequence := s\<rparr>)"
| "set_event_sequence s (FrameEnterEvent d) = FrameEnterEvent (d\<lparr>base_sequence := s\<rparr>)"
| "set_event_sequence s (FrameExitEvent d) = FrameExitEvent (d\<lparr>base_sequence := s\<rparr>)"
| "set_event_sequence s (TransactionEndEvent d) = TransactionEndEvent (d\<lparr>base_sequence := s\<rparr>)"
| "set_event_sequence s (BlockCommitEvent d) = BlockCommitEvent (d\<lparr>base_sequence := s\<rparr>)"
| "set_event_sequence s (BalanceMutationEvent d) = BalanceMutationEvent (d\<lparr>base_sequence := s\<rparr>)"
| "set_event_sequence s (NonceMutationEvent d) = NonceMutationEvent (d\<lparr>base_sequence := s\<rparr>)"
| "set_event_sequence s (CodeMutationEvent d) = CodeMutationEvent (d\<lparr>base_sequence := s\<rparr>)"
| "set_event_sequence s (StorageMutationEvent d) = StorageMutationEvent (d\<lparr>base_sequence := s\<rparr>)"
| "set_event_sequence s (AccountCreatedEvent d) = AccountCreatedEvent (d\<lparr>base_sequence := s\<rparr>)"
| "set_event_sequence s (SelfDestructEvent d) = SelfDestructEvent (d\<lparr>base_sequence := s\<rparr>)"

fun kind :: "emes_event \<Rightarrow> string" where
  "kind (BlockStartEvent d) = ''BlockStart''"
| "kind (TransactionStartEvent d) = ''TransactionStart''"
| "kind (FrameEnterEvent d) = ''FrameEnter''"
| "kind (FrameExitEvent d) = ''FrameExit''"
| "kind (TransactionEndEvent d) = ''TransactionEnd''"
| "kind (BlockCommitEvent d) = ''BlockCommit''"
| "kind (BalanceMutationEvent d) = ''BalanceMutation''"
| "kind (NonceMutationEvent d) = ''NonceMutation''"
| "kind (CodeMutationEvent d) = ''CodeMutation''"
| "kind (StorageMutationEvent d) = ''StorageMutation''"
| "kind (AccountCreatedEvent d) = ''AccountCreated''"
| "kind (SelfDestructEvent d) = ''SelfDestruct''"

lemma sequence_num_set [simp]: "sequence_num (set_event_sequence s e) = s"
  by (cases e) simp_all

section \<open>Across the language boundary\<close>

text \<open>
  What \<open>parse_event_stream\<close> reads from the JSON text of an event: the fields the Rust
  structs name, the others ignored.
\<close>

fun wire_event :: "emes_event \<Rightarrow> go_event" where
  "wire_event (BlockStartEvent d) = BlockStart \<lparr>bs_number = gbs_number d\<rparr>"
| "wire_event (TransactionStartEvent d) =
     TransactionStart \<lparr>st_tx_index = gts_tx_index d, st_hash = HexHash (gts_hash d)\<rparr>"
| "wire_event (FrameEnterEvent d) =
     FrameEnter \<lparr>fe_frame_id = gfe_frame_id d, fe_parent_frame_id = gfe_parent_frame_id d, fe_depth = gfe_depth d\<rparr>"
| "wire_event (FrameExitEvent d) = FrameExit \<lparr>fx_frame_id = gfx_frame_id d, fx_reverted = gfx_reverted d\<rparr>"
| "wire_event (TransactionEndEvent d) =
     TransactionEnd \<lparr>te_tx_index = gte_tx_index d, te_reverted = gte_reverted d\<rparr>"
| "wire_event (BlockCommitEvent d) = BlockCommit"
| "wire_event (BalanceMutationEvent d) = BalanceMutation
     \<lparr>bm_frame_id = gbm_frame_id d, bm_address = HexAddress (gbm_address d),
      bm_before = HexHash (gbm_before d), bm_after = HexHash (gbm_after d)\<rparr>"
| "wire_event (NonceMutationEvent d) = NonceMutation
     \<lparr>nm_frame_id = gnm_frame_id d, nm_address = HexAddress (gnm_address d),
      nm_before = gnm_before d, nm_after = gnm_after d\<rparr>"
| "wire_event (CodeMutationEvent d) = CodeMutation
     \<lparr>cm_frame_id = gcm_frame_id d, cm_address = HexAddress (gcm_address d),
      cm_before = HexHash (gcm_before d), cm_after = HexHash (gcm_after d)\<rparr>"
| "wire_event (StorageMutationEvent d) = StorageMutation
     \<lparr>sm_frame_id = gsm_frame_id d, sm_address = HexAddress (gsm_address d), sm_slot = HexHash (gsm_slot d),
      sm_before = HexHash (gsm_before d), sm_after = HexHash (gsm_after d)\<rparr>"
| "wire_event (AccountCreatedEvent d) = AccountCreated
     \<lparr>ac_frame_id = gac_frame_id d, ac_address = HexAddress (gac_address d), ac_creator = HexAddress (gac_creator d)\<rparr>"
| "wire_event (SelfDestructEvent d) = SelfDestruct
     \<lparr>sd_frame_id = gsd_frame_id d, sd_address = HexAddress (gsd_address d),
      sd_beneficiary = HexAddress (gsd_beneficiary d)\<rparr>"

text \<open>The frame a mutation names; \<open>None\<close> for the other events.\<close>

definition mutation_frame :: "emes_event \<Rightarrow> u64 option" where
  "mutation_frame e = map_option fst (mutation_parts (wire_event e))"

lemma mutation_frame_simps [simp]:
  "mutation_frame (BlockStartEvent d0) = None" "mutation_frame (TransactionStartEvent d1) = None"
  "mutation_frame (FrameEnterEvent d2) = None" "mutation_frame (FrameExitEvent d3) = None"
  "mutation_frame (TransactionEndEvent d4) = None" "mutation_frame (BlockCommitEvent d5) = None"
  "mutation_frame (BalanceMutationEvent d6) = Some (gbm_frame_id d6)"
  "mutation_frame (NonceMutationEvent d7) = Some (gnm_frame_id d7)"
  "mutation_frame (CodeMutationEvent d8) = Some (gcm_frame_id d8)"
  "mutation_frame (StorageMutationEvent d9) = Some (gsm_frame_id d9)"
  "mutation_frame (AccountCreatedEvent d10) = Some (gac_frame_id d10)"
  "mutation_frame (SelfDestructEvent d11) = Some (gsd_frame_id d11)"
  by (simp_all add: mutation_frame_def)

lemma emes_cases [case_names block_start commit tx_start tx_end enter exit mutation]:
  obtains d where "e = BlockStartEvent d" | d where "e = BlockCommitEvent d"
  | d where "e = TransactionStartEvent d" | d where "e = TransactionEndEvent d"
  | d where "e = FrameEnterEvent d" | d where "e = FrameExitEvent d"
  | f where "mutation_frame e = Some f"
  by (cases e) auto

end
