(* ===== verification/Loops.thy ===== *)
theory Loops
  imports Prelude
begin

text \<open>
  Loops that refine a step relation.  A loop with early returns (\<open>fold_res\<close>) and a step
  relation on an abstract state match when each step of one can be followed by the other;
  then a run of the loop succeeds exactly when the relation has a run.
\<close>

fun runs :: "('t \<Rightarrow> 'a \<Rightarrow> 't \<Rightarrow> bool) \<Rightarrow> 't \<Rightarrow> 'a list \<Rightarrow> 't \<Rightarrow> bool" where
  "runs spec t [] t' \<longleftrightarrow> t = t'"
| "runs spec t (x # xs) t' \<longleftrightarrow> (\<exists>u. spec t x u \<and> runs spec u xs t')"

lemma runs_append: "runs spec t (xs @ ys) t' \<longleftrightarrow> (\<exists>u. runs spec t xs u \<and> runs spec u ys t')"
  by (induction xs arbitrary: t) auto

lemma runs_map: "runs spec t (map f xs) t' \<longleftrightarrow> runs (\<lambda>t x. spec t (f x)) t xs t'"
  by (induction xs arbitrary: t) auto

lemma runs_mono: "runs P t xs t' \<Longrightarrow> (\<And>t x t'. x \<in> set xs \<Longrightarrow> P t x t' \<Longrightarrow> Q t x t') \<Longrightarrow> runs Q t xs t'"
proof (induction xs arbitrary: t)
  case (Cons x xs)
  then show ?case by (simp) blast
qed simp

text \<open>\<open>usual x\<close> singles out the elements for which the two correspond.\<close>

locale loop_bisimulation =
  fixes step :: "'s \<Rightarrow> 'a \<Rightarrow> ('s, 'e) result"
    and spec :: "'t \<Rightarrow> 'a \<Rightarrow> 't \<Rightarrow> bool"
    and rel :: "'s \<Rightarrow> 't \<Rightarrow> bool"
    and usual :: "'a \<Rightarrow> bool"
  assumes sound: "usual x \<Longrightarrow> rel s t \<Longrightarrow> step s x = Ok s' \<Longrightarrow> \<exists>t'. spec t x t' \<and> rel s' t'"
    and complete: "usual x \<Longrightarrow> rel s t \<Longrightarrow> spec t x t' \<Longrightarrow> \<exists>s'. step s x = Ok s' \<and> rel s' t'"
begin

lemma loop_sound:
  "list_all usual xs \<Longrightarrow> rel s t \<Longrightarrow> fold_res step s xs = Ok s' \<Longrightarrow> \<exists>t'. runs spec t xs t' \<and> rel s' t'"
proof (induction xs arbitrary: s t)
  case (Cons x xs)
  then obtain s1 where s1: "step s x = Ok s1" "fold_res step s1 xs = Ok s'" by auto
  obtain t1 where "spec t x t1" "rel s1 t1" using sound [OF _ Cons.prems(2) s1(1)] Cons.prems(1) by auto
  with Cons.IH [OF _ _ s1(2)] Cons.prems(1) show ?case by fastforce
qed auto

lemma loop_complete:
  "list_all usual xs \<Longrightarrow> rel s t \<Longrightarrow> runs spec t xs t' \<Longrightarrow> \<exists>s'. fold_res step s xs = Ok s' \<and> rel s' t'"
proof (induction xs arbitrary: s t)
  case (Cons x xs)
  then obtain t1 where t1: "spec t x t1" "runs spec t1 xs t'" by auto
  obtain s1 where "step s x = Ok s1" "rel s1 t1" using complete [OF _ Cons.prems(2) t1(1)] Cons.prems(1) by auto
  with Cons.IH [OF _ _ t1(2)] Cons.prems(1) show ?case by fastforce
qed auto

end

end
