(* ===== verification/Gate1.thy ===== *)
theory Gate1
  imports Emes Loops
begin

text \<open>
  \<open>validation/gate1.go\<close>: the structural check a stream passes before the bridge sees it.
  The specification is a grammar: a block of transactions, each a balanced sequence of
  call frames and mutations with correct parents, at most one of them a root frame.
\<close>

section \<open>The check as written\<close>

text \<open>\<open>Gate1Error\<close>; a \<open>nil\<close> error is \<open>Ok ()\<close>.\<close>

record gate1_error =
  ge_index :: int
  ge_rule :: string
  ge_msg :: string

definition gate1_fail :: "int \<Rightarrow> string \<Rightarrow> string \<Rightarrow> ('a, gate1_error) result" where
  "gate1_fail i rule msg = Err \<lparr>ge_index = i, ge_rule = rule, ge_msg = msg\<rparr>"

lemma gate1_fail_not_Ok [simp]:
  "gate1_fail i rule msg \<noteq> Ok x" "gate1_fail i rule msg \<noteq> Panic"
  by (simp_all add: gate1_fail_def)

text \<open>
  The loop's variables.  The frame stack grows at its end in Go; here its top is the head
  of the list.
\<close>

record gate1_state =
  g1_prev_seq :: u64
  g1_seq_initialized :: bool
  g1_tx_open :: bool
  g1_frame_stack :: "u64 list"
  g1_root_frame_count :: nat
  g1_root_frame_reverted :: bool

definition initial_gate1 :: gate1_state where
  "initial_gate1 = \<lparr>g1_prev_seq = 0, g1_seq_initialized = False, g1_tx_open = False, g1_frame_stack = [],
     g1_root_frame_count = 0, g1_root_frame_reverted = False\<rparr>"

text \<open>\<open>%d\<close> and \<open>%v\<close> of \<open>fmt.Sprintf\<close>.\<close>

definition fmt_u64 :: "u64 \<Rightarrow> string" where
  "fmt_u64 v = show_nat (unat v)"

definition fmt_bool :: "bool \<Rightarrow> string" where
  "fmt_bool b = (if b then ''true'' else ''false'')"

text \<open>The body of the \<open>switch\<close>; mutations have no case.\<close>

fun gate1_switch :: "nat \<Rightarrow> gate1_state \<Rightarrow> nat \<Rightarrow> emes_event \<Rightarrow> (gate1_state, gate1_error) result" where
  "gate1_switch len s i (BlockStartEvent ev) =
     (if i \<noteq> 0 then gate1_fail (int i) ''block-encapsulation'' ''BlockStartEvent may only appear as the first event''
      else Ok s)"
| "gate1_switch len s i (BlockCommitEvent ev) =
     (if i \<noteq> len - 1 then gate1_fail (int i) ''block-encapsulation'' ''BlockCommitEvent may only appear as the terminal event''
      else if g1_tx_open s
      then gate1_fail (int i) ''tx-encapsulation'' ''BlockCommitEvent seen while a transaction is still open''
      else Ok s)"
| "gate1_switch len s i (TransactionStartEvent ev) =
     (if g1_tx_open s
      then gate1_fail (int i) ''tx-encapsulation'' ''TransactionStartEvent seen while a transaction is already open''
      else Ok (s\<lparr>g1_tx_open := True, g1_frame_stack := [], g1_root_frame_count := 0,
                 g1_root_frame_reverted := False\<rparr>))"
| "gate1_switch len s i (TransactionEndEvent ev) =
     (if \<not> g1_tx_open s
      then gate1_fail (int i) ''tx-encapsulation'' ''TransactionEndEvent seen with no open transaction''
      else if length (g1_frame_stack s) \<noteq> 0
      then gate1_fail (int i) ''frame-balance''
        (''transaction ended with '' @ show_nat (length (g1_frame_stack s)) @ '' unclosed frame(s)'')
      else if 1 < g1_root_frame_count s
      then gate1_fail (int i) ''t1-consistency''
        (''transaction contains '' @ show_nat (g1_root_frame_count s)
          @ '' root frames; exactly one is required when any root frame is present'')
      else if g1_root_frame_count s = 1 \<and> gte_reverted ev \<noteq> g1_root_frame_reverted s
      then gate1_fail (int i) ''t1-consistency''
        (''TransactionEndEvent.Reverted ('' @ fmt_bool (gte_reverted ev)
          @ '') does not match root FrameExitEvent.Reverted ('' @ fmt_bool (g1_root_frame_reverted s) @ '')'')
      else Ok (s\<lparr>g1_tx_open := False\<rparr>))"
| "gate1_switch len s i (FrameEnterEvent ev) =
     (if \<not> g1_tx_open s
      then gate1_fail (int i) ''tx-encapsulation'' ''FrameEnterEvent seen outside any transaction''
      else (case g1_frame_stack s of
              [] \<Rightarrow>
                if gfe_parent_frame_id ev \<noteq> - 1
                then gate1_fail (int i) ''frame-topology''
                  ''FrameID 0's ParentFrameID must be the 0xFFFF...FFFF sentinel''
                else Ok (s\<lparr>g1_root_frame_count := g1_root_frame_count s + 1,
                           g1_frame_stack := [gfe_frame_id ev]\<rparr>)
            | parent # _ \<Rightarrow>
                if gfe_parent_frame_id ev \<noteq> parent
                then gate1_fail (int i) ''frame-topology''
                  ''ParentFrameID does not match the currently open parent frame''
                else Ok (s\<lparr>g1_frame_stack := gfe_frame_id ev # g1_frame_stack s\<rparr>)))"
| "gate1_switch len s i (FrameExitEvent ev) =
     (if \<not> g1_tx_open s
      then gate1_fail (int i) ''tx-encapsulation'' ''FrameExitEvent seen outside any transaction''
      else (case g1_frame_stack s of
              [] \<Rightarrow> gate1_fail (int i) ''frame-balance'' ''FrameExitEvent with no matching open frame''
            | innermost # rest \<Rightarrow>
                if innermost \<noteq> gfx_frame_id ev
                then gate1_fail (int i) ''frame-balance''
                  (''FrameExitEvent for frame '' @ fmt_u64 (gfx_frame_id ev)
                    @ '' does not match innermost open frame '' @ fmt_u64 innermost)
                else let s = (if length (g1_frame_stack s) = 1
                              then s\<lparr>g1_root_frame_reverted := gfx_reverted ev\<rparr> else s)
                     in Ok (s\<lparr>g1_frame_stack := rest\<rparr>)))"
| "gate1_switch len s i ev = Ok s"

definition gate1_step :: "nat \<Rightarrow> gate1_state \<Rightarrow> nat \<times> emes_event \<Rightarrow> (gate1_state, gate1_error) result" where
  "gate1_step len s entry =
     (case entry of (i, e) \<Rightarrow>
      let seq = sequence_num e in
      if g1_seq_initialized s \<and> seq \<le> g1_prev_seq s
      then gate1_fail (int i) ''sequence-monotonic''
        (''sequence '' @ fmt_u64 seq @ '' did not strictly increase from '' @ fmt_u64 (g1_prev_seq s))
      else gate1_switch len (s\<lparr>g1_prev_seq := seq, g1_seq_initialized := True\<rparr>) i e)"

fun is_block_start :: "emes_event \<Rightarrow> bool" where
  "is_block_start (BlockStartEvent d) = True"
| "is_block_start e = False"

fun is_block_commit :: "emes_event \<Rightarrow> bool" where
  "is_block_commit (BlockCommitEvent d) = True"
| "is_block_commit e = False"

definition verify_gate1_invariants :: "emes_event list \<Rightarrow> (unit, gate1_error) result" where
  "verify_gate1_invariants stream =
     (if length stream = 0 then gate1_fail (- 1) ''block-encapsulation'' ''empty event stream''
      else if \<not> is_block_start (stream ! 0)
      then gate1_fail 0 ''block-encapsulation'' ''stream must begin with BlockStartEvent''
      else if sequence_num (stream ! 0) \<noteq> 0
      then gate1_fail 0 ''block-encapsulation'' ''BlockStartEvent must have Sequence 0''
      else if \<not> is_block_commit (stream ! (length stream - 1))
      then gate1_fail (int (length stream) - 1) ''block-encapsulation'' ''stream must end with BlockCommitEvent''
      else bind_res (fold_res (gate1_step (length stream)) initial_gate1 (enumerate 0 stream)) (\<lambda>s.
        if g1_tx_open s
        then gate1_fail (int (length stream) - 1) ''tx-encapsulation''
          ''stream ended with an open transaction (missing TransactionEndEvent)''
        else Ok ()))"

section \<open>The grammar of accepted streams\<close>

text \<open>
  \<open>balanced p es rs\<close>: a sequence of mutations and complete call frames whose parent is
  \<open>p\<close>; \<open>rs\<close> says of each of these frames, in order, whether it reverted.
\<close>

inductive balanced :: "u64 \<Rightarrow> emes_event list \<Rightarrow> bool list \<Rightarrow> bool" where
  b_nil: "balanced p [] []"
| b_mutation: "mutation_frame e = Some f \<Longrightarrow> balanced p es rs \<Longrightarrow> balanced p (e # es) rs"
| b_frame: "gfe_parent_frame_id d = p \<Longrightarrow> balanced (gfe_frame_id d) body rs' \<Longrightarrow> gfx_frame_id d' = gfe_frame_id d
    \<Longrightarrow> balanced p es rs \<Longrightarrow> balanced p (FrameEnterEvent d # body @ FrameExitEvent d' # es) (gfx_reverted d' # rs)"

text \<open>
  What stands between the block markers: transactions, and anywhere mutations.  A
  transaction has no root frame, or one with the outcome the transaction reports.
\<close>

inductive block_body :: "emes_event list \<Rightarrow> bool" where
  bb_nil: "block_body []"
| bb_mutation: "mutation_frame e = Some f \<Longrightarrow> block_body es \<Longrightarrow> block_body (e # es)"
| bb_tx: "balanced (- 1) inner rs \<Longrightarrow> rs = [] \<or> rs = [gte_reverted d'] \<Longrightarrow> block_body es
    \<Longrightarrow> block_body (TransactionStartEvent d # inner @ TransactionEndEvent d' # es)"

section \<open>The state machine behind the check\<close>

text \<open>
  Outside a transaction (\<open>None\<close>), or the open frames, innermost first, and the outcomes of
  the root frames closed so far.
\<close>

type_synonym shape = "(u64 list \<times> bool list) option"

inductive shape_step :: "shape \<Rightarrow> emes_event \<Rightarrow> shape \<Rightarrow> bool" where
  ss_mutation: "mutation_frame e = Some f \<Longrightarrow> shape_step st e st"
| ss_start: "shape_step None (TransactionStartEvent d) (Some ([], []))"
| ss_finish: "rs = [] \<or> rs = [gte_reverted d] \<Longrightarrow> shape_step (Some ([], rs)) (TransactionEndEvent d) None"
| ss_enter: "gfe_parent_frame_id d = hd (fs @ [- 1])
    \<Longrightarrow> shape_step (Some (fs, rs)) (FrameEnterEvent d) (Some (gfe_frame_id d # fs, rs))"
| ss_exit: "gfx_frame_id d = f \<Longrightarrow>
    shape_step (Some (f # fs, rs)) (FrameExitEvent d) (Some (fs, if fs = [] then rs @ [gfx_reverted d] else rs))"

inductive_cases shape_stepE: "shape_step st e st'"

inductive_simps shape_step_simps:
  "shape_step st (BlockStartEvent d) st'" "shape_step st (BlockCommitEvent d) st'"
  "shape_step st (TransactionStartEvent d) st'" "shape_step st (TransactionEndEvent d) st'"
  "shape_step st (FrameEnterEvent d) st'" "shape_step st (FrameExitEvent d) st'"

lemma shape_step_mutation: "mutation_frame e = Some f \<Longrightarrow> shape_step st e st' \<longleftrightarrow> st' = st"
  by (auto elim!: shape_stepE intro: ss_mutation)

text \<open>The loop of the check is a simulation of this machine, in both directions.\<close>

definition gate1_rel :: "gate1_state \<Rightarrow> shape \<Rightarrow> bool" where
  "gate1_rel s st \<longleftrightarrow>
     (case st of
        None \<Rightarrow> \<not> g1_tx_open s
      | Some (fs, rs) \<Rightarrow> g1_tx_open s \<and> g1_frame_stack s = fs
          \<and> g1_root_frame_count s = length rs + (if fs = [] then 0 else 1)
          \<and> (rs = [] \<or> g1_root_frame_reverted s = last rs))"

lemma gate1_rel_simps:
  "gate1_rel s None \<longleftrightarrow> \<not> g1_tx_open s"
  "gate1_rel s (Some (fs, rs)) \<longleftrightarrow> g1_tx_open s \<and> g1_frame_stack s = fs
     \<and> g1_root_frame_count s = length rs + (if fs = [] then 0 else 1)
     \<and> (rs = [] \<or> g1_root_frame_reverted s = last rs)"
  by (simp_all add: gate1_rel_def)

lemma one_outcome: "length rs \<le> 1 \<Longrightarrow> rs = [] \<or> (\<exists>r. rs = [r])"
  by (cases rs) auto

lemma gate1_switch_sound:
  assumes rel: "gate1_rel s st" and i: "0 < i" "i < len - 1" and run: "gate1_switch len s i e = Ok s'"
  shows "\<exists>st'. shape_step st e st' \<and> gate1_rel s' st'"
proof (cases e rule: emes_cases)
  case (tx_end d)
  with run obtain fs rs where st: "st = Some (fs, rs)" using rel
    by (cases st) (auto simp: gate1_rel_simps)
  with rel run tx_end have "fs = []" "length rs \<le> 1" "length rs = 1 \<longrightarrow> gte_reverted d = last rs" "s' = s\<lparr>g1_tx_open := False\<rparr>"
    by (auto simp: gate1_rel_simps split: if_splits)
  with st tx_end show ?thesis
    using one_outcome [of rs] by (auto simp: shape_step_simps gate1_rel_simps)
next
  case (enter d)
  with run rel show ?thesis
    by (cases st; cases "g1_frame_stack s") (auto simp: shape_step_simps gate1_rel_simps split: if_splits)
next
  case (exit d)
  with run rel obtain fs rs where st: "st = Some (gfx_frame_id d # fs, rs)"
    by (cases st; cases "g1_frame_stack s") (auto simp: gate1_rel_simps split: if_splits)
  let ?rs = "if fs = [] then rs @ [gfx_reverted d] else rs"
  have "gate1_rel s' (Some (fs, ?rs))"
    using run rel unfolding exit st
    by (cases fs) (auto simp: gate1_rel_simps Let_def)
  then show ?thesis using st exit by (auto intro: ss_exit)
next
  case (tx_start d)
  with run rel show ?thesis
    by (cases st) (auto simp: shape_step_simps gate1_rel_simps split: if_splits)
next
  case (mutation f)
  then have "gate1_switch len s i e = Ok s" by (cases e) auto
  with run rel mutation show ?thesis by (auto intro: ss_mutation)
qed (use run i in \<open>simp_all split: if_splits\<close>)

lemma gate1_switch_complete:
  assumes rel: "gate1_rel s st" and step: "shape_step st e st'"
  shows "\<exists>s'. gate1_switch len s i e = Ok s' \<and> gate1_rel s' st'"
  using step rel
proof cases
  case (ss_mutation f)
  then have "gate1_switch len s i e = Ok s" by (cases e) auto
  with rel ss_mutation show ?thesis by simp
next
  case (ss_exit d f fs rs)
  with rel show ?thesis by (cases fs) (auto simp: gate1_rel_simps)
next
  case (ss_enter d fs rs)
  with rel show ?thesis by (cases fs) (auto simp: gate1_rel_simps)
qed (auto simp: gate1_rel_simps)

text \<open>With the sequence numbers: the state also holds the last one.\<close>

definition numbered_step :: "shape \<times> u64 \<Rightarrow> nat \<times> emes_event \<Rightarrow> shape \<times> u64 \<Rightarrow> bool" where
  "numbered_step t x t' \<longleftrightarrow>
     snd t < sequence_num (snd x) \<and> snd t' = sequence_num (snd x) \<and> shape_step (fst t) (snd x) (fst t')"

definition numbered_rel :: "gate1_state \<Rightarrow> shape \<times> u64 \<Rightarrow> bool" where
  "numbered_rel s t \<longleftrightarrow> gate1_rel s (fst t) \<and> g1_seq_initialized s \<and> g1_prev_seq s = snd t"

lemma gate1_rel_seq [simp]: "gate1_rel (s\<lparr>g1_prev_seq := n, g1_seq_initialized := b\<rparr>) st \<longleftrightarrow> gate1_rel s st"
  by (cases st) (auto simp: gate1_rel_simps)

lemma gate1_switch_seq:
  "gate1_switch len s i e = Ok s' \<Longrightarrow> g1_prev_seq s' = g1_prev_seq s \<and> g1_seq_initialized s' = g1_seq_initialized s"
  by (cases e) (auto simp: Let_def split: if_splits list.splits)

interpretation gate1: loop_bisimulation "gate1_step len" numbered_step numbered_rel "\<lambda>(i, e). 0 < i \<and> i < len - 1"
  for len
proof
  fix x s t s'
  assume x: "case x of (i, e) \<Rightarrow> 0 < i \<and> i < len - 1" and rel: "numbered_rel s t" and run: "gate1_step len s x = Ok s'"
  obtain i e where ie: "x = (i, e)" by force
  from run rel have seq: "snd t < sequence_num e"
    and sw: "gate1_switch len (s\<lparr>g1_prev_seq := sequence_num e, g1_seq_initialized := True\<rparr>) i e = Ok s'"
    by (auto simp: gate1_step_def ie Let_def numbered_rel_def split: if_splits)
  have "gate1_rel (s\<lparr>g1_prev_seq := sequence_num e, g1_seq_initialized := True\<rparr>) (fst t)"
    using rel by (simp add: numbered_rel_def)
  then obtain st' where "shape_step (fst t) e st'" "gate1_rel s' st'"
    using gate1_switch_sound [OF _ _ _ sw] x ie by auto
  then show "\<exists>t'. numbered_step t x t' \<and> numbered_rel s' t'"
    using gate1_switch_seq [OF sw] seq
    by (intro exI [of _ "(st', sequence_num e)"]) (simp add: numbered_step_def numbered_rel_def ie)
next
  fix x s t t'
  assume rel: "numbered_rel s t" and step: "numbered_step t x t'"
  obtain i e where ie: "x = (i, e)" by force
  let ?s = "s\<lparr>g1_prev_seq := sequence_num e, g1_seq_initialized := True\<rparr>"
  have "gate1_rel ?s (fst t)" "shape_step (fst t) e (fst t')"
    using rel step by (simp_all add: numbered_rel_def numbered_step_def ie)
  then obtain s' where s': "gate1_switch len ?s i e = Ok s'" "gate1_rel s' (fst t')"
    using gate1_switch_complete by blast
  then have "gate1_step len s x = Ok s'"
    using rel step by (simp add: gate1_step_def ie numbered_rel_def numbered_step_def Let_def linorder_not_le)
  with s' show "\<exists>s'. gate1_step len s x = Ok s' \<and> numbered_rel s' t'"
    using gate1_switch_seq [OF s'(1)] step by (auto simp: numbered_rel_def numbered_step_def ie)
qed

lemma numbered_runs:
  "runs numbered_step (st, n) (enumerate k es) (st', n') \<longleftrightarrow>
     runs shape_step st es st' \<and> sorted_wrt (<) (n # map sequence_num es) \<and> n' = last (n # map sequence_num es)"
proof (induction es arbitrary: st n k)
  case (Cons e es)
  have "runs numbered_step (st, n) (enumerate k (e # es)) (st', n') \<longleftrightarrow>
      (\<exists>st1. n < sequence_num e \<and> shape_step st e st1
        \<and> runs numbered_step (st1, sequence_num e) (enumerate (Suc k) es) (st', n'))"
    by (auto simp: numbered_step_def)
  then show ?case by (auto simp: Cons.IH intro: less_trans)
qed auto

section \<open>From runs to the grammar\<close>

text \<open>What must follow a state for its run to end outside a transaction.\<close>

fun rest_ok :: "shape \<Rightarrow> emes_event list \<Rightarrow> bool" where
  "rest_ok None es \<longleftrightarrow> block_body es"
| "rest_ok (Some ([], rs)) es \<longleftrightarrow>
     (\<exists>inner d rest rs'. es = inner @ TransactionEndEvent d # rest \<and> balanced (- 1) inner rs'
       \<and> (rs @ rs' = [] \<or> rs @ rs' = [gte_reverted d]) \<and> block_body rest)"
| "rest_ok (Some (f # fs, rs)) es \<longleftrightarrow>
     (\<exists>inner d rest rs'. es = inner @ FrameExitEvent d # rest \<and> balanced f inner rs' \<and> gfx_frame_id d = f
       \<and> rest_ok (Some (fs, if fs = [] then rs @ [gfx_reverted d] else rs)) rest)"

lemma rest_ok_mutation:
  assumes e: "mutation_frame e = Some f" and "rest_ok st es"
  shows "rest_ok st (e # es)"
proof (cases st)
  case None
  with assms show ?thesis by (auto intro: bb_mutation)
next
  case (Some p)
  obtain fs rs where p: "p = (fs, rs)" by force
  show ?thesis
  proof (cases fs)
    case Nil
    with assms(2) obtain inner d rest rs' where "es = inner @ TransactionEndEvent d # rest" "balanced (- 1) inner rs'"
      "rs @ rs' = [] \<or> rs @ rs' = [gte_reverted d]" "block_body rest" by (auto simp: Some p)
    then show ?thesis unfolding Some p Nil rest_ok.simps
      by (intro exI [of _ "e # inner"] exI [of _ d] exI [of _ rest] exI [of _ rs'])
        (auto intro: b_mutation [OF e])
  next
    case (Cons f' fs')
    with assms(2) obtain inner d rest rs' where "es = inner @ FrameExitEvent d # rest" "balanced f' inner rs'"
      "gfx_frame_id d = f'" "rest_ok (Some (fs', if fs' = [] then rs @ [gfx_reverted d] else rs)) rest"
      by (auto simp: Some p)
    then show ?thesis unfolding Some p Cons rest_ok.simps
      by (intro exI [of _ "e # inner"] exI [of _ d] exI [of _ rest] exI [of _ rs'])
        (auto intro: b_mutation [OF e])
  qed
qed

text \<open>A complete frame in front of what a state needs is again what it needs.\<close>

lemma rest_ok_enter:
  assumes parent: "gfe_parent_frame_id d = hd (fs @ [- 1])" and rest: "rest_ok (Some (gfe_frame_id d # fs, rs)) es"
  shows "rest_ok (Some (fs, rs)) (FrameEnterEvent d # es)"
proof -
  obtain body d1 es1 rs1 where es: "es = body @ FrameExitEvent d1 # es1" and body: "balanced (gfe_frame_id d) body rs1"
    and id: "gfx_frame_id d1 = gfe_frame_id d"
    and after: "rest_ok (Some (fs, if fs = [] then rs @ [gfx_reverted d1] else rs)) es1"
    using rest by auto
  show ?thesis
  proof (cases fs)
    case Nil
    with after obtain inner d2 es2 rs2 where "es1 = inner @ TransactionEndEvent d2 # es2" "balanced (- 1) inner rs2"
      "(rs @ [gfx_reverted d1]) @ rs2 = [gte_reverted d2]" "block_body es2" by auto
    moreover from this parent Nil have "balanced (- 1) (FrameEnterEvent d # body @ FrameExitEvent d1 # inner) (gfx_reverted d1 # rs2)"
      by (intro b_frame [OF _ body id]) simp_all
    ultimately show ?thesis unfolding Nil rest_ok.simps es
      by (intro exI [of _ "FrameEnterEvent d # body @ FrameExitEvent d1 # inner"] exI [of _ d2] exI [of _ es2]
          exI [of _ "gfx_reverted d1 # rs2"]) simp
  next
    case (Cons f fs')
    with after obtain inner d2 es2 rs2 where "es1 = inner @ FrameExitEvent d2 # es2" "balanced f inner rs2"
      "gfx_frame_id d2 = f" "rest_ok (Some (fs', if fs' = [] then rs @ [gfx_reverted d2] else rs)) es2" by auto
    moreover from this parent Cons have "balanced f (FrameEnterEvent d # body @ FrameExitEvent d1 # inner) (gfx_reverted d1 # rs2)"
      by (intro b_frame [OF _ body id]) simp_all
    ultimately show ?thesis unfolding Cons rest_ok.simps es
      by (intro exI [of _ "FrameEnterEvent d # body @ FrameExitEvent d1 # inner"] exI [of _ d2] exI [of _ es2]
          exI [of _ "gfx_reverted d1 # rs2"]) simp
  qed
qed

lemma runs_rest_ok: "runs shape_step st es None \<Longrightarrow> rest_ok st es"
proof (induction es arbitrary: st)
  case Nil
  then show ?case by (auto intro: bb_nil)
next
  case (Cons e es)
  then obtain st1 where step: "shape_step st e st1" and rest: "rest_ok st1 es" by auto
  from step show ?case
  proof cases
    case (ss_mutation f)
    with rest show ?thesis by (simp add: rest_ok_mutation)
  next
    case (ss_start d)
    with rest show ?thesis by (auto intro: bb_tx)
  next
    case (ss_finish rs d)
    with rest show ?thesis unfolding ss_finish rest_ok.simps
      by (intro exI [of _ "[]"] exI [of _ d] exI [of _ es]) (auto intro: b_nil)
  next
    case (ss_enter d fs rs)
    with rest show ?thesis by (simp only: rest_ok_enter)
  next
    case (ss_exit d f fs rs)
    then show ?thesis unfolding ss_exit(1,2) rest_ok.simps
      by (intro exI [of _ "[]"] exI [of _ d] exI [of _ es] exI [of _ "[]"]) (use rest in \<open>auto intro: b_nil\<close>)
  qed
qed

section \<open>From the grammar to runs\<close>

lemma balanced_runs:
  "balanced p es rs \<Longrightarrow> p = hd (fs @ [- 1]) \<Longrightarrow>
    runs shape_step (Some (fs, rs0)) es (Some (fs, if fs = [] then rs0 @ rs else rs0))"
proof (induction arbitrary: fs rs0 rule: balanced.induct)
  case (b_mutation e f p es rs)
  from b_mutation.IH [OF b_mutation.prems] show ?case
    using ss_mutation [OF b_mutation.hyps(1), of "Some (fs, rs0)"] by (simp only: runs.simps) blast
next
  case (b_frame d p body rs' d' es rs)
  let ?rs1 = "if fs = [] then rs0 @ [gfx_reverted d'] else rs0"
  have "shape_step (Some (fs, rs0)) (FrameEnterEvent d) (Some (gfe_frame_id d # fs, rs0))"
    using b_frame by (intro ss_enter) simp
  moreover have "runs shape_step (Some (gfe_frame_id d # fs, rs0)) body (Some (gfe_frame_id d # fs, rs0))"
    using b_frame.IH(1) [of "gfe_frame_id d # fs" rs0] by simp
  moreover have "shape_step (Some (gfe_frame_id d # fs, rs0)) (FrameExitEvent d') (Some (fs, ?rs1))"
    using b_frame by (intro ss_exit) simp
  moreover have "runs shape_step (Some (fs, ?rs1)) es (Some (fs, if fs = [] then ?rs1 @ rs else ?rs1))"
    using b_frame by blast
  ultimately show ?case by (simp add: runs_append) (auto split: if_splits)
qed auto

lemma block_body_runs: "block_body es \<Longrightarrow> runs shape_step None es None"
proof (induction rule: block_body.induct)
  case (bb_mutation e f es)
  then show ?case by (auto intro: ss_mutation)
next
  case (bb_tx inner rs d' es d)
  have "runs shape_step (Some ([], [])) inner (Some ([], rs))"
    using balanced_runs [OF bb_tx.hyps(1), of "[]" "[]"] by simp
  moreover have "shape_step (Some ([], rs)) (TransactionEndEvent d') None"
    using bb_tx by (intro ss_finish) auto
  ultimately show ?case using bb_tx by (auto simp: runs_append intro: ss_start)
qed simp

lemma block_body_iff: "block_body es \<longleftrightarrow> runs shape_step None es None"
  using runs_rest_ok [of None es] block_body_runs by auto

section \<open>Acceptance\<close>

lemma gate1_markers:
  "gate1_step len initial_gate1 (0, BlockStartEvent b)
    = Ok (initial_gate1\<lparr>g1_prev_seq := base_sequence b, g1_seq_initialized := True\<rparr>)"
  "g1_seq_initialized s \<Longrightarrow> gate1_step (Suc k) s (k, BlockCommitEvent c) = Ok s' \<longleftrightarrow>
    g1_prev_seq s < base_sequence c \<and> \<not> g1_tx_open s \<and> s' = s\<lparr>g1_prev_seq := base_sequence c, g1_seq_initialized := True\<rparr>"
  by (auto simp: gate1_step_def Let_def initial_gate1_def linorder_not_le)

lemma gate1_body:
  assumes "numbered_rel s (None, n)" and "len = length body + 2"
  shows "(\<exists>s'. fold_res (gate1_step len) s (enumerate 1 body) = Ok s' \<and> \<not> g1_tx_open s' \<and> g1_seq_initialized s' \<and> P (g1_prev_seq s'))
    \<longleftrightarrow> block_body body \<and> sorted_wrt (<) (n # map sequence_num body) \<and> P (last (n # map sequence_num body))"
    (is "?l \<longleftrightarrow> ?r")
proof -
  have usual: "list_all (\<lambda>(i, e). 0 < i \<and> i < len - 1) (enumerate 1 body)"
    using assms(2) by (auto simp: list_all_iff in_set_enumerate_eq)
  show ?thesis
  proof
    assume ?l
    then obtain s' where s': "fold_res (gate1_step len) s (enumerate 1 body) = Ok s'" "\<not> g1_tx_open s'" "P (g1_prev_seq s')"
      by blast
    obtain st n' where "runs numbered_step (None, n) (enumerate 1 body) (st, n')" "numbered_rel s' (st, n')"
      using gate1.loop_sound [OF usual assms(1) s'(1)] by auto
    moreover from this s'(2) have "st = None" by (cases st) (auto simp: numbered_rel_def gate1_rel_simps)
    ultimately show ?r using s'(3) by (auto simp: numbered_runs block_body_iff numbered_rel_def)
  next
    assume r: ?r
    then have "runs numbered_step (None, n) (enumerate 1 body) (None, last (n # map sequence_num body))"
      by (simp only: numbered_runs block_body_iff simp_thms)
    from gate1.loop_complete [OF usual assms(1) this] r show ?l
      by (auto simp: numbered_rel_def gate1_rel_simps)
  qed
qed

lemma gate1_block:
  "verify_gate1_invariants (BlockStartEvent b # body @ [BlockCommitEvent c]) = Ok () \<longleftrightarrow>
     base_sequence b = 0 \<and> block_body body
     \<and> sorted_wrt (<) (map sequence_num (BlockStartEvent b # body @ [BlockCommitEvent c]))"
proof (cases "base_sequence b = 0")
  case True
  let ?stream = "BlockStartEvent b # body @ [BlockCommitEvent c]" and ?len = "length body + 2"
  let ?s0 = "initial_gate1\<lparr>g1_prev_seq := 0, g1_seq_initialized := True\<rparr>"
  have split: "enumerate 0 ?stream = (0, BlockStartEvent b) # enumerate 1 body @ [(Suc (length body), BlockCommitEvent c)]"
    by (simp add: enumerate_append_eq)
  have rel: "numbered_rel ?s0 (None, 0)"
    by (simp add: numbered_rel_def gate1_rel_simps initial_gate1_def)
  have commit: "(\<exists>s''. gate1_step ?len s' (Suc (length body), BlockCommitEvent c) = Ok s'' \<and> \<not> g1_tx_open s'')
      \<longleftrightarrow> g1_prev_seq s' < base_sequence c \<and> \<not> g1_tx_open s'" if "g1_seq_initialized s'" for s'
    using gate1_markers(2) [OF that, of "Suc (length body)" c] by auto
  have init: "g1_seq_initialized s'" if "fold_res (gate1_step ?len) ?s0 (enumerate 1 body) = Ok s'" for s'
  proof -
    have "list_all (\<lambda>(i, e). 0 < i \<and> i < ?len - 1) (enumerate 1 body)"
      by (auto simp: list_all_iff in_set_enumerate_eq)
    from gate1.loop_sound [OF this rel that] show ?thesis by (auto simp: numbered_rel_def)
  qed
  have "verify_gate1_invariants ?stream = Ok () \<longleftrightarrow>
      (\<exists>s'. fold_res (gate1_step ?len) ?s0 (enumerate 1 body) = Ok s'
        \<and> (\<exists>s''. gate1_step ?len s' (Suc (length body), BlockCommitEvent c) = Ok s'' \<and> \<not> g1_tx_open s''))"
    by (simp add: verify_gate1_invariants_def split nth_append fold_res_append gate1_markers(1) True
        del: enumerate_simps) auto
  also have "\<dots> \<longleftrightarrow> (\<exists>s'. fold_res (gate1_step ?len) ?s0 (enumerate 1 body) = Ok s' \<and> \<not> g1_tx_open s'
      \<and> g1_seq_initialized s' \<and> g1_prev_seq s' < base_sequence c)"
    using commit init by blast
  also have "\<dots> \<longleftrightarrow> block_body body \<and> sorted_wrt (<) (0 # map sequence_num body)
      \<and> last (0 # map sequence_num body) < base_sequence c"
    by (rule gate1_body [OF rel refl])
  also have "\<dots> \<longleftrightarrow> block_body body \<and> sorted_wrt (<) (map sequence_num ?stream)"
  proof -
    have "sorted_wrt (<) (xs @ [v]) \<longleftrightarrow> sorted_wrt (<) xs \<and> last xs < v" if "xs \<noteq> []" for xs and v :: u64
      using that by (induction xs) (auto intro: less_trans)
    from this [of "0 # map sequence_num body" "base_sequence c"] show ?thesis by (simp add: True)
  qed
  finally show ?thesis using True by simp
qed (simp add: verify_gate1_invariants_def)

lemma gate1_ends:
  assumes "verify_gate1_invariants stream = Ok ()"
  obtains b body c where "stream = BlockStartEvent b # body @ [BlockCommitEvent c]"
proof -
  have ne: "stream \<noteq> []" "is_block_start (hd stream)" "is_block_commit (last stream)"
    using assms by (auto simp: verify_gate1_invariants_def hd_conv_nth last_conv_nth split: if_splits)
  then obtain b where "hd stream = BlockStartEvent b" by (cases "hd stream") auto
  moreover obtain c where "last stream = BlockCommitEvent c" using ne(3) by (cases "last stream") auto
  ultimately have "stream = BlockStartEvent b # butlast (tl stream) @ [BlockCommitEvent c]"
    using ne(1) by (cases stream; cases "tl stream" rule: rev_cases) auto
  then show ?thesis by (rule that)
qed

section \<open>Properties\<close>

text \<open>
  C5: Gate 1 accepts exactly the streams of the grammar: a block start numbered zero, a
  body of transactions and mutations, and a block commit, with strictly increasing
  sequence numbers; in every transaction the frames nest under their own ids, each under
  its stated parent, and there is no root frame or exactly one, whose outcome is the
  transaction's.
\<close>

theorem gate1_accepts_exactly:
  "verify_gate1_invariants stream = Ok () \<longleftrightarrow>
     (\<exists>b body c. stream = BlockStartEvent b # body @ [BlockCommitEvent c] \<and> base_sequence b = 0
       \<and> block_body body \<and> sorted_wrt (<) (map sequence_num stream))"
proof
  assume ok: "verify_gate1_invariants stream = Ok ()"
  then obtain b body c where "stream = BlockStartEvent b # body @ [BlockCommitEvent c]" by (rule gate1_ends)
  with ok show "\<exists>b body c. stream = BlockStartEvent b # body @ [BlockCommitEvent c] \<and> base_sequence b = 0
       \<and> block_body body \<and> sorted_wrt (<) (map sequence_num stream)"
    using gate1_block by blast
qed (use gate1_block in blast)

end
