(* ===== verification/Gate1_Tests.thy ===== *)
theory Gate1_Tests
  imports Gate1
begin

text \<open>
  The unit tests of \<open>validation/gate1_test.go\<close>, as facts about the model: each stream is
  built as the test builds it and \<open>verify_gate1_invariants\<close> is evaluated on it.
\<close>

section \<open>Building streams\<close>

text \<open>Struct literals that leave the other fields zero.\<close>

definition lit_block_start :: emes_event where
  "lit_block_start = BlockStartEvent
     \<lparr>base_sequence = 0, gbs_emes_version = [], gbs_number = 0, gbs_timestamp = 0\<rparr>"

definition lit_block_commit :: emes_event where
  "lit_block_commit = BlockCommitEvent \<lparr>base_sequence = 0, gbc_state_root = arr_fill 0\<rparr>"

definition lit_tx_start :: "u64 \<Rightarrow> emes_event" where
  "lit_tx_start i = TransactionStartEvent \<lparr>base_sequence = 0, gts_tx_index = i, gts_hash = arr_fill 0,
     gts_from = arr_fill 0, gts_to = None, gts_value = arr_fill 0, gts_gas_limit = 0,
     gts_gas_price = arr_fill 0, gts_nonce = 0\<rparr>"

definition lit_tx_end :: "u64 \<Rightarrow> bool \<Rightarrow> emes_event" where
  "lit_tx_end i r = TransactionEndEvent \<lparr>base_sequence = 0, gte_tx_index = i, gte_reverted = r\<rparr>"

definition lit_enter :: "u64 \<Rightarrow> u64 \<Rightarrow> u64 \<Rightarrow> emes_event" where
  "lit_enter i p d = FrameEnterEvent \<lparr>base_sequence = 0, gfe_frame_id = i, gfe_parent_frame_id = p,
     gfe_depth = d, gfe_type = FrameCall, gfe_from = arr_fill 0, gfe_to = arr_fill 0\<rparr>"

definition lit_exit :: "u64 \<Rightarrow> bool \<Rightarrow> emes_event" where
  "lit_exit i r = FrameExitEvent \<lparr>base_sequence = 0, gfx_frame_id = i, gfx_reverted = r\<rparr>"

definition lit_nonce :: "u64 \<Rightarrow> u64 \<Rightarrow> u64 \<Rightarrow> emes_event" where
  "lit_nonce f b a = NonceMutationEvent
     \<lparr>base_sequence = 0, gnm_frame_id = f, gnm_address = arr_fill 1, gnm_before = b, gnm_after = a\<rparr>"

lemmas lit_defs = lit_block_start_def lit_block_commit_def lit_tx_start_def lit_tx_end_def
  lit_enter_def lit_exit_def lit_nonce_def

definition build_stream :: "emes_event list \<Rightarrow> emes_event list" where
  "build_stream inner =
     map (\<lambda>(n, e). set_event_sequence (of_nat n) e)
       (enumerate 0 (lit_block_start # inner @ [lit_block_commit]))"

text \<open>The rule an error names; \<open>None\<close> when there is no error.\<close>

definition violated :: "emes_event list \<Rightarrow> string option" where
  "violated stream = (case verify_gate1_invariants stream of Err x \<Rightarrow> Some (ge_rule x) | _ \<Rightarrow> None)"

section \<open>The tests\<close>

lemma t1_consistency:
  "violated (build_stream [lit_tx_start 0, lit_enter 0 (- 1) 0, lit_exit 0 False, lit_tx_end 0 False]) = None"
  "violated (build_stream [lit_tx_start 0, lit_enter 0 (- 1) 0, lit_exit 0 True, lit_tx_end 0 True]) = None"
  "violated (build_stream [lit_tx_start 0, lit_enter 0 (- 1) 0, lit_exit 0 False, lit_tx_end 0 True])
    = Some ''t1-consistency''"
  "violated (build_stream [lit_tx_start 0, lit_enter 0 (- 1) 0, lit_exit 0 True, lit_tx_end 0 False])
    = Some ''t1-consistency''"
  by code_simp+

lemma t1_zero_frames:
  "violated (build_stream [lit_tx_start 0, lit_tx_end 0 True]) = None"
  "violated (build_stream [lit_tx_start 0, lit_tx_end 0 False]) = None"
  by code_simp+

lemma t1_nested_frames:
  "violated (build_stream [lit_tx_start 0, lit_enter 0 (- 1) 0, lit_enter 1 0 1, lit_exit 1 True, lit_exit 0 False,
     lit_tx_end 0 False]) = None"
  by code_simp

lemma t1_multiple_roots:
  "violated (build_stream [lit_tx_start 0, lit_enter 0 (- 1) 0, lit_exit 0 False, lit_enter 1 (- 1) 0, lit_exit 1 False,
     lit_tx_end 0 False]) = Some ''t1-consistency''"
  by code_simp

lemma t1_resets:
  "violated (build_stream [lit_tx_start 0, lit_enter 0 (- 1) 0, lit_exit 0 True, lit_tx_end 0 True,
     lit_tx_start 1, lit_tx_end 1 False]) = None"
  by code_simp

lemma structural_checks:
  "violated [] = Some ''block-encapsulation''"
  "violated (build_stream [lit_tx_start 0, lit_enter 0 (- 1) 0, lit_tx_end 0 False]) = Some ''frame-balance''"
  by code_simp+

lemma block_encapsulation:
  "violated (build_stream [lit_block_start]) = Some ''block-encapsulation''"
  "violated (build_stream [lit_block_commit]) = Some ''block-encapsulation''"
  "violated (build_stream [lit_tx_start 0]) = Some ''tx-encapsulation''"
  by code_simp+

end
