(* ===== verification/Bridge_Trees.thy ===== *)
theory Bridge_Trees
  imports Bridge
begin

text \<open>
  The bridge (\<open>runtime/bridge/src/translate.rs\<close>) on the streams a tracer produces: block
  markers and transactions made of call trees.  Shown here: which mutations survive the
  translation, and in which order; and three behaviours of \<open>translate\<close> that its
  documentation does not mention or contradicts.
\<close>

section \<open>Call trees\<close>

text \<open>
  The streams a tracer produces: a transaction is a list of nodes, each a mutation of the
  frame it is in, a frameless mutation, or a call with its own nodes.
\<close>

datatype mutation =
    MBalance address b32 b32
  | MNonce address u64 u64
  | MCode address b32 b32
  | MStorage address b32 b32 b32
  | MCreated address address
  | MDestroyed address address

fun go_mutation :: "u64 \<Rightarrow> mutation \<Rightarrow> go_event" where
  "go_mutation f (MBalance a b c) = BalanceMutation \<lparr>bm_frame_id = f, bm_address = HexAddress a,
     bm_before = HexHash b, bm_after = HexHash c\<rparr>"
| "go_mutation f (MNonce a b c) = NonceMutation \<lparr>nm_frame_id = f, nm_address = HexAddress a,
     nm_before = b, nm_after = c\<rparr>"
| "go_mutation f (MCode a b c) = CodeMutation \<lparr>cm_frame_id = f, cm_address = HexAddress a,
     cm_before = HexHash b, cm_after = HexHash c\<rparr>"
| "go_mutation f (MStorage a sl b c) = StorageMutation \<lparr>sm_frame_id = f, sm_address = HexAddress a,
     sm_slot = HexHash sl, sm_before = HexHash b, sm_after = HexHash c\<rparr>"
| "go_mutation f (MCreated a c) = AccountCreated \<lparr>ac_frame_id = f, ac_address = HexAddress a,
     ac_creator = HexAddress c\<rparr>"
| "go_mutation f (MDestroyed a b) = SelfDestruct \<lparr>sd_frame_id = f, sd_address = HexAddress a,
     sd_beneficiary = HexAddress b\<rparr>"

fun mutation_payload :: "mutation \<Rightarrow> cse_payload" where
  "mutation_payload (MBalance a b c) =
     BalanceChanged \<lparr>bc_address = a, bc_previous_balance = b, bc_current_balance = c\<rparr>"
| "mutation_payload (MNonce a b c) =
     NonceUpdated \<lparr>nu_address = a, nu_previous_nonce = b, nu_current_nonce = c\<rparr>"
| "mutation_payload (MCode a b c) =
     CodeUpdated \<lparr>cu_address = a, cu_previous_code_hash = b, cu_current_code_hash = c\<rparr>"
| "mutation_payload (MStorage a sl b c) =
     StorageSlotUpdated \<lparr>su_address = a, su_slot = sl, su_previous_value = b, su_current_value = c\<rparr>"
| "mutation_payload (MCreated a c) = ContractCreated \<lparr>cc_address = a, cc_creator = c\<rparr>"
| "mutation_payload (MDestroyed a b) = ContractDestroyed \<lparr>cd_address = a, cd_refund_target = b\<rparr>"

text \<open>A call: frame id, parent id, depth, whether it reverts, and its nodes.\<close>

datatype call_node =
    Own mutation
  | Free mutation
  | Call u64 u64 u64 bool "call_node list"

fun flatten_node :: "u64 \<Rightarrow> call_node \<Rightarrow> go_event list" where
  "flatten_node f (Own m) = [go_mutation f m]"
| "flatten_node f (Free m) = [go_mutation NO_FRAME m]"
| "flatten_node f (Call i p d reverted body) =
     FrameEnter \<lparr>fe_frame_id = i, fe_parent_frame_id = p, fe_depth = d\<rparr>
       # concat (map (flatten_node i) body) @ [FrameExit \<lparr>fx_frame_id = i, fx_reverted = reverted\<rparr>]"

text \<open>
  What survives: every frameless mutation, and the mutations of a frame when neither it
  nor a frame around it reverts.  \<open>mk\<close> makes the event from frame, depth and payload.
\<close>

fun free_events :: "(u32 \<Rightarrow> u32 \<Rightarrow> cse_payload \<Rightarrow> cse_event) \<Rightarrow> call_node \<Rightarrow> cse_event list" where
  "free_events mk (Own m) = []"
| "free_events mk (Free m) = [mk (- 1) 0 (mutation_payload m)]"
| "free_events mk (Call i p d reverted body) = concat (map (free_events mk) body)"

fun kept_events :: "(u32 \<Rightarrow> u32 \<Rightarrow> cse_payload \<Rightarrow> cse_event) \<Rightarrow> u64 \<Rightarrow> u64 \<Rightarrow> call_node \<Rightarrow> cse_event list" where
  "kept_events mk f e (Own m) = [mk (ucast f) (ucast e) (mutation_payload m)]"
| "kept_events mk f e (Free m) = []"
| "kept_events mk f e (Call i p d reverted body) =
     (if reverted then [] else concat (map (kept_events mk i d) body))"

text \<open>Frame ids and depths that fit \<open>u32\<close>; a mutation of a frame needs a frame.\<close>

fun node_fits :: "call_node \<Rightarrow> bool" where
  "node_fits (Own m) = True"
| "node_fits (Free m) = True"
| "node_fits (Call i p d reverted body) =
     (unat i < 2 ^ 32 \<and> unat d < 2 ^ 32 \<and> list_all node_fits body)"

fun root_node :: "call_node \<Rightarrow> bool" where
  "root_node (Own m) = False"
| "root_node (Free m) = True"
| "root_node (Call i p d reverted body) = node_fits (Call i p d reverted body)"

text \<open>A node with no frameless mutation inside a call, or none at all.\<close>

fun tidy :: "bool \<Rightarrow> call_node \<Rightarrow> bool" where
  "tidy inside (Own m) = True"
| "tidy inside (Free m) = (\<not> inside)"
| "tidy inside (Call i p d reverted body) = list_all (tidy True) body"

abbreviation state_event :: "bridge_config \<Rightarrow> bridge_state \<Rightarrow> u32 \<Rightarrow> u32 \<Rightarrow> cse_payload \<Rightarrow> cse_event" where
  "state_event cfg s \<equiv> mutation_event cfg (br_block_number s) (br_tx_hash s) (br_tx_index s)"

lemma mutation_parts_go [simp]: "mutation_parts (go_mutation f m) = Some (f, mutation_payload m)"
  by (cases m) auto

lemma unat_no_frame: "unat NO_FRAME = 2 ^ 64 - 1"
  by (simp add: NO_FRAME_def unsigned_minus_1_eq_mask mask_eq_exp_minus_1)

lemma fits_no_frame: "unat i < 2 ^ 32 \<Longrightarrow> i \<noteq> NO_FRAME"
  using unat_no_frame by auto

lemma own_mutation_step:
  assumes "br_stack s = fb # rest" and "unat (fb_frame_id fb) < 2 ^ 32" and "unat (fb_depth fb) < 2 ^ 32"
  shows "translate_step cfg s (n, go_mutation (fb_frame_id fb) m) =
    Ok (s\<lparr>br_stack := fb\<lparr>fb_events := fb_events fb
      @ [state_event cfg s (ucast (fb_frame_id fb)) (ucast (fb_depth fb)) (mutation_payload m)]\<rparr> # rest\<rparr>)"
  using mutation_step [OF mutation_parts_go] assms fits_no_frame
  by (simp add: append_mutation_def u32_try_from_def)

lemma free_mutation_step:
  "translate_step cfg s (n, go_mutation NO_FRAME m) =
     Ok (s\<lparr>br_tx_output := br_tx_output s @ [state_event cfg s (- 1) 0 (mutation_payload m)]\<rparr>)"
  using mutation_step [OF mutation_parts_go] by (simp add: append_mutation_def)

text \<open>The effect of one node on an open frame, and of a list of nodes.\<close>

definition frame_effect ::
    "bridge_config \<Rightarrow> bridge_state \<Rightarrow> frame_buffer \<Rightarrow> frame_buffer list \<Rightarrow> call_node list \<Rightarrow> bridge_state" where
  "frame_effect cfg s fb rest nodes =
     s\<lparr>br_tx_output := br_tx_output s @ concat (map (free_events (state_event cfg s)) nodes),
       br_stack := fb\<lparr>fb_events := fb_events fb
         @ concat (map (kept_events (state_event cfg s) (fb_frame_id fb) (fb_depth fb)) nodes)\<rparr> # rest\<rparr>"

definition frame_ready :: "bridge_state \<Rightarrow> frame_buffer \<Rightarrow> frame_buffer list \<Rightarrow> bool" where
  "frame_ready s fb rest \<longleftrightarrow> br_tx_open s \<and> br_stack s = fb # rest
     \<and> unat (fb_frame_id fb) < 2 ^ 32 \<and> unat (fb_depth fb) < 2 ^ 32"

lemma run_nodes:
  assumes "\<And>node s fb rest n. node \<in> set nodes \<Longrightarrow> frame_ready s fb rest \<Longrightarrow>
      run_events cfg s n (flatten_node (fb_frame_id fb) node) = Ok (frame_effect cfg s fb rest [node])"
    and "frame_ready s fb rest"
  shows "run_events cfg s n (concat (map (flatten_node (fb_frame_id fb)) nodes)) = Ok (frame_effect cfg s fb rest nodes)"
  using assms
proof (induction nodes arbitrary: s fb n)
  case Nil
  then show ?case by (simp add: frame_effect_def frame_ready_def)
next
  case (Cons node nodes)
  let ?s = "frame_effect cfg s fb rest [node]"
  let ?fb = "hd (br_stack ?s)"
  have step: "run_events cfg s n (flatten_node (fb_frame_id fb) node) = Ok ?s"
    using Cons.prems by auto
  have ready: "frame_ready ?s ?fb rest" and id: "fb_frame_id ?fb = fb_frame_id fb"
    using Cons.prems(2) by (auto simp: frame_ready_def frame_effect_def)
  have rest: "run_events cfg ?s m (concat (map (flatten_node (fb_frame_id fb)) nodes))
      = Ok (frame_effect cfg ?s ?fb rest nodes)" for m
    using Cons.IH [OF Cons.prems(1) ready] id by auto
  have "frame_effect cfg ?s ?fb rest nodes = frame_effect cfg s fb rest (node # nodes)"
    by (simp add: frame_effect_def)
  then show ?case
    by (simp add: run_events_append step rest del: enumerate_append_eq)
qed

lemma run_node:
  "node_fits node \<Longrightarrow> frame_ready s fb rest \<Longrightarrow>
    run_events cfg s n (flatten_node (fb_frame_id fb) node) = Ok (frame_effect cfg s fb rest [node])"
proof (induction node arbitrary: s fb rest n)
  case (Own m)
  then show ?case by (simp add: frame_ready_def frame_effect_def own_mutation_step)
next
  case (Free m)
  then show ?case by (simp add: frame_ready_def frame_effect_def free_mutation_step)
next
  case (Call i p d reverted body)
  let ?new = "\<lparr>fb_frame_id = i, fb_depth = d, fb_events = []\<rparr>"
  let ?s = "s\<lparr>br_stack := ?new # fb # rest\<rparr>"
  have ready: "frame_ready ?s ?new (fb # rest)"
    using Call.prems by (simp add: frame_ready_def)
  have enter: "translate_step cfg s (n, FrameEnter \<lparr>fe_frame_id = i, fe_parent_frame_id = p, fe_depth = d\<rparr>) = Ok ?s"
    using Call.prems(2) by (simp add: translate_step_def frame_ready_def)
  have body: "run_events cfg ?s m (concat (map (flatten_node i) body)) = Ok (frame_effect cfg ?s ?new (fb # rest) body)" for m
    using run_nodes [OF _ ready, of body cfg m] Call.IH Call.prems(1) by (auto simp: list_all_iff)
  have leave: "translate_step cfg (frame_effect cfg ?s ?new (fb # rest) body)
      (m, FrameExit \<lparr>fx_frame_id = i, fx_reverted = reverted\<rparr>)
      = Ok (frame_effect cfg s fb rest [Call i p d reverted body])" for m
    using Call.prems(2) by (simp add: translate_step_def frame_effect_def frame_ready_def)
  show ?case
    by (simp add: enter run_events_append body leave del: enumerate_append_eq)
qed

text \<open>A node outside every frame: a frameless mutation or the call of the transaction.\<close>

definition root_events :: "(u32 \<Rightarrow> u32 \<Rightarrow> cse_payload \<Rightarrow> cse_event) \<Rightarrow> call_node \<Rightarrow> cse_event list" where
  "root_events mk node = free_events mk node @ kept_events mk 0 0 node"

lemma run_root:
  assumes "br_tx_open s" and "br_stack s = []" and "root_node node"
  shows "run_events cfg s n (flatten_node NO_FRAME node) =
    Ok (s\<lparr>br_tx_output := br_tx_output s @ root_events (state_event cfg s) node\<rparr>)"
proof (cases node)
  case (Own m)
  with assms show ?thesis by simp
next
  case (Free m)
  then show ?thesis by (simp add: free_mutation_step root_events_def)
next
  case (Call i p d reverted body)
  let ?new = "\<lparr>fb_frame_id = i, fb_depth = d, fb_events = []\<rparr>"
  let ?s = "s\<lparr>br_stack := [?new]\<rparr>"
  have ready: "frame_ready ?s ?new []"
    using assms Call by (simp add: frame_ready_def)
  have enter: "translate_step cfg s (n, FrameEnter \<lparr>fe_frame_id = i, fe_parent_frame_id = p, fe_depth = d\<rparr>) = Ok ?s"
    using assms by (simp add: translate_step_def)
  have body: "run_events cfg ?s m (concat (map (flatten_node i) body)) = Ok (frame_effect cfg ?s ?new [] body)" for m
    using run_nodes [OF _ ready, of body cfg m] run_node assms(3) Call by (auto simp: list_all_iff)
  have leave: "translate_step cfg (frame_effect cfg ?s ?new [] body)
      (m, FrameExit \<lparr>fx_frame_id = i, fx_reverted = reverted\<rparr>)
      = Ok (s\<lparr>br_tx_output := br_tx_output s @ root_events (state_event cfg s) node\<rparr>)" for m
    using assms Call by (simp add: translate_step_def frame_effect_def root_events_def)
  show ?thesis
    by (simp add: Call enter run_events_append body leave [unfolded Call] del: enumerate_append_eq)
qed

lemma run_roots:
  "br_tx_open s \<Longrightarrow> br_stack s = [] \<Longrightarrow> list_all root_node nodes \<Longrightarrow>
    run_events cfg s n (concat (map (flatten_node NO_FRAME) nodes)) =
      Ok (s\<lparr>br_tx_output := br_tx_output s @ concat (map (root_events (state_event cfg s)) nodes)\<rparr>)"
proof (induction nodes arbitrary: s n)
  case (Cons node nodes)
  then show ?case
    by (simp add: run_events_append run_root del: enumerate_append_eq)
qed simp

text \<open>A stream: block markers, transactions, and frameless mutations outside of them.\<close>

datatype stream_item =
    Header u64
  | Footer
  | Transact u64 b32 bool "call_node list"
  | Loose mutation

fun flatten_item :: "stream_item \<Rightarrow> go_event list" where
  "flatten_item (Header n) = [BlockStart \<lparr>bs_number = n\<rparr>]"
| "flatten_item Footer = [BlockCommit]"
| "flatten_item (Transact i h reverted nodes) =
     TransactionStart \<lparr>st_tx_index = i, st_hash = HexHash h\<rparr>
       # concat (map (flatten_node NO_FRAME) nodes)
       @ [TransactionEnd \<lparr>te_tx_index = i, te_reverted = reverted\<rparr>]"
| "flatten_item (Loose m) = [go_mutation NO_FRAME m]"

fun item_fits :: "stream_item \<Rightarrow> bool" where
  "item_fits (Transact i h reverted nodes) = list_all root_node nodes"
| "item_fits item = True"

fun stream_output :: "bridge_config \<Rightarrow> u64 \<Rightarrow> stream_item list \<Rightarrow> cse_event list" where
  "stream_output cfg b [] = []"
| "stream_output cfg b (Header n # items) = stream_output cfg n items"
| "stream_output cfg b (Footer # items) = stream_output cfg b items"
| "stream_output cfg b (Transact i h reverted nodes # items) =
     boundary_event BeginTransaction cfg b h i
       # concat (map (root_events (mutation_event cfg b h i)) nodes)
       @ [boundary_event EndTransaction cfg b h i] @ stream_output cfg b items"
| "stream_output cfg b (Loose m # items) = stream_output cfg b items"

lemma run_items:
  assumes "\<not> br_tx_open s" and "br_stack s = []" and "list_all item_fits items"
  shows "\<exists>s'. run_events cfg s n (concat (map flatten_item items)) = Ok s' \<and> \<not> br_tx_open s'
    \<and> br_final s' = br_final s @ stream_output cfg (br_block_number s) items"
  using assms
proof (induction cfg "br_block_number s" items arbitrary: s n rule: stream_output.induct)
  case (2 cfg k items)
  then show ?case
    using "2.hyps" [of "s\<lparr>br_block_number := k\<rparr>" "Suc n"] by (simp add: translate_step_def)
next
  case (3 cfg items)
  then show ?case
    using "3.hyps" [of s "Suc n"] by (simp add: translate_step_def)
next
  case (4 cfg i h reverted nodes items)
  let ?b = "br_block_number s"
  let ?opened = "s\<lparr>br_tx_open := True, br_tx_index := i, br_tx_hash := h, br_stack := [],
    br_tx_output := [boundary_event BeginTransaction cfg ?b h i]\<rparr>"
  let ?closed = "?opened\<lparr>br_final := br_final s
      @ boundary_event BeginTransaction cfg ?b h i
        # concat (map (root_events (mutation_event cfg ?b h i)) nodes)
        @ [boundary_event EndTransaction cfg ?b h i],
    br_tx_output := [], br_tx_open := False\<rparr>"
  have start: "translate_step cfg s (n, TransactionStart \<lparr>st_tx_index = i, st_hash = HexHash h\<rparr>) = Ok ?opened"
    using "4.prems" by (simp add: translate_step_def)
  have inner: "run_events cfg ?opened m (concat (map (flatten_node NO_FRAME) nodes)) =
      Ok (?opened\<lparr>br_tx_output := br_tx_output ?opened
        @ concat (map (root_events (mutation_event cfg ?b h i)) nodes)\<rparr>)" for m
    using "4.prems" run_roots [of ?opened nodes cfg m] by simp
  have transact: "run_events cfg s n (flatten_item (Transact i h reverted nodes)) = Ok ?closed"
    by (simp add: start run_events_append inner del: enumerate_append_eq) (simp add: translate_step_def)
  show ?case
    using "4.hyps" [of ?closed] "4.prems"(3)
    by (simp add: run_events_append transact del: enumerate_append_eq flatten_item.simps)
next
  case (5 cfg m items)
  let ?s = "s\<lparr>br_tx_output := br_tx_output s @ [state_event cfg s (- 1) 0 (mutation_payload m)]\<rparr>"
  have "translate_step cfg s (n, go_mutation NO_FRAME m) = Ok ?s" by (rule free_mutation_step)
  then show ?case using "5.hyps" [of ?s "Suc n"] "5.prems" by simp
qed simp

lemma translate_items:
  assumes "list_all item_fits items"
  shows "translate (concat (map flatten_item items)) cfg = Ok (assign_sequence (stream_output cfg 0 items))"
proof -
  obtain s where "run_events cfg initial_bridge 0 (concat (map flatten_item items)) = Ok s" "\<not> br_tx_open s"
    "br_final s = stream_output cfg 0 items"
    using run_items [of initial_bridge items cfg 0] assms by (auto simp: initial_bridge_def)
  then show ?thesis by (simp add: translate_def)
qed

section \<open>Properties\<close>

text \<open>
  C13: what a well-formed tracer stream becomes.  A stream made of block markers,
  frameless mutations outside transactions, which are lost, and transactions, each a
  sequence of frameless mutations and call trees, translates to exactly the transactions'
  events: begin marker, surviving mutations, end marker, numbered from zero.  A mutation
  survives if it is frameless, or if neither its frame nor any frame around it reverts; a call contributes its frameless mutations first and
  its surviving framed mutations after them, each group in stream order, every event
  stamped with the block number, transaction hash and index in force and the id and
  depth of its frame.
\<close>

theorem bridge_keeps_committed_frames:
  assumes "list_all item_fits items"
  shows "translate (concat (map flatten_item items)) cfg = Ok (assign_sequence (stream_output cfg 0 items))"
  using assms by (rule translate_items)

theorem bridge_keeps_committed_frames_witness:
  "translate (concat (map flatten_item
      [Header 5, Transact 1 (arr_fill 8) False
        [Call 0 0 0 False [Own (MNonce (arr_fill 1) 0 1), Call 1 0 1 True [Own (MNonce (arr_fill 1) 1 2)],
          Free (MNonce (arr_fill 2) 6 7)]], Footer])) \<lparr>cfg_chain_id = 1\<rparr>
    = Ok (assign_sequence
        [boundary_event BeginTransaction \<lparr>cfg_chain_id = 1\<rparr> 5 (arr_fill 8) 1,
         mutation_event \<lparr>cfg_chain_id = 1\<rparr> 5 (arr_fill 8) 1 (- 1) 0 (mutation_payload (MNonce (arr_fill 2) 6 7)),
         mutation_event \<lparr>cfg_chain_id = 1\<rparr> 5 (arr_fill 8) 1 0 0 (mutation_payload (MNonce (arr_fill 1) 0 1)),
         boundary_event EndTransaction \<lparr>cfg_chain_id = 1\<rparr> 5 (arr_fill 8) 1])"
  by (subst bridge_keeps_committed_frames) (simp_all add: root_events_def)

text \<open>
  A frameless mutation between transactions is accepted and lost: whatever it
  changes, the translation succeeds with an empty output, where the documentation says
  frameless mutations are forwarded unconditionally.
\<close>

lemma bridge_drops_mutation_outside:
  "translate [go_mutation NO_FRAME m] cfg = Ok []"
proof -
  have "translate_step cfg initial_bridge (0, go_mutation NO_FRAME m) =
      Ok (initial_bridge\<lparr>br_tx_output := br_tx_output initial_bridge
        @ [state_event cfg initial_bridge (- 1) 0 (mutation_payload m)]\<rparr>)"
    by (rule free_mutation_step)
  then show ?thesis by (simp add: translate_def initial_bridge_def assign_sequence_def)
qed

text \<open>
  \<open>tx_index as u32\<close> truncates silently: transactions whose indices differ by
  \<open>2^32\<close> translate to the same events, while a frame id or depth above 32 bits is an
  error as soon as a mutation of that frame appears.
\<close>

lemma bridge_truncates_tx_index:
  "translate [TransactionStart \<lparr>st_tx_index = i + 2 ^ 32, st_hash = h\<rparr>,
      TransactionEnd \<lparr>te_tx_index = i + 2 ^ 32, te_reverted = r\<rparr>] cfg
   = translate [TransactionStart \<lparr>st_tx_index = i, st_hash = h\<rparr>,
      TransactionEnd \<lparr>te_tx_index = i, te_reverted = r\<rparr>] cfg
   \<and> translate [TransactionStart \<lparr>st_tx_index = 0, st_hash = h\<rparr>,
      FrameEnter \<lparr>fe_frame_id = 2 ^ 32, fe_parent_frame_id = 0, fe_depth = 0\<rparr>, go_mutation 0 m] cfg
   = Err (FrameIdOverflow (2 ^ 32))"
proof (rule conjI)
  have "ucast (i + 2 ^ 32 :: u64) = (ucast i :: u32)"
    by transfer (simp add: take_bit_eq_mod mod_mod_cancel)
  show "translate [TransactionStart \<lparr>st_tx_index = i + 2 ^ 32, st_hash = h\<rparr>,
      TransactionEnd \<lparr>te_tx_index = i + 2 ^ 32, te_reverted = r\<rparr>] cfg
   = translate [TransactionStart \<lparr>st_tx_index = i, st_hash = h\<rparr>,
      TransactionEnd \<lparr>te_tx_index = i, te_reverted = r\<rparr>] cfg"
    by (simp add: translate_def translate_step_def initial_bridge_def boundary_event_def
        \<open>ucast (i + 2 ^ 32 :: u64) = (ucast i :: u32)\<close> [simplified])
  show "translate [TransactionStart \<lparr>st_tx_index = 0, st_hash = h\<rparr>,
      FrameEnter \<lparr>fe_frame_id = 2 ^ 32, fe_parent_frame_id = 0, fe_depth = 0\<rparr>, go_mutation 0 m] cfg
   = Err (FrameIdOverflow (2 ^ 32))"
    using mutation_step [OF mutation_parts_go]
    by (simp add: translate_def translate_step_def append_mutation_def u32_try_from_def NO_FRAME_def initial_bridge_def)
qed

text \<open>
  A mutation that names a frame goes to the innermost open frame, whichever frame it
  names: the id is compared with the sentinel only.
\<close>

lemma mutation_frame_id_ignored:
  assumes "f \<noteq> NO_FRAME" and "g \<noteq> NO_FRAME"
  shows "translate_step cfg s (n, go_mutation f m) = translate_step cfg s (n, go_mutation g m)"
  using mutation_step [OF mutation_parts_go] assms by (simp add: append_mutation_def)

end
