(* ===== verification/Gate1_Bridge.thy ===== *)
theory Gate1_Bridge
  imports Gate1_Tests Bridge_Trees
begin

text \<open>
  Gate 1 in front of the bridge.  \<open>runtime/bridge/src/translate.rs\<close> assumes that its input
  has passed \<open>validation/gate1.go\<close> and calls its own checks a backstop.  Here: which of
  its errors Gate 1 rules out and which it does not, and that a stream which passes, under
  the conditions on mutations, ids and indices it does not check, is a sequence of call trees.
\<close>

section \<open>The bridge on a stream that passed\<close>

definition bridge_rel :: "bridge_state \<Rightarrow> shape \<Rightarrow> bool" where
  "bridge_rel s st \<longleftrightarrow> closed_stack s \<and>
     (case st of None \<Rightarrow> \<not> br_tx_open s
      | Some (fs, rs) \<Rightarrow> br_tx_open s \<and> map fb_frame_id (br_stack s) = fs)"

text \<open>The two errors of the bridge that come from a mutation.\<close>

definition mutation_error :: "bridge_error \<Rightarrow> bool" where
  "mutation_error x \<longleftrightarrow> x = UnbalancedFrames (2 ^ 64 - 1) \<or> (\<exists>v. x = FrameIdOverflow v)"

lemma append_mutation_rel:
  assumes "bridge_rel s st"
  shows "(\<exists>s'. append_mutation cfg f pl s = Ok s' \<and> bridge_rel s' st)
    \<or> (\<exists>x. append_mutation cfg f pl s = Err x \<and> mutation_error x)"
  using assms
  by (cases "br_stack s"; cases st)
    (auto simp: append_mutation_def u32_try_from_def bridge_rel_def closed_stack_def mutation_error_def Let_def)

lemma wire_mutation: "mutation_frame e = Some f \<Longrightarrow> \<exists>pl. mutation_parts (wire_event e) = Some (f, pl)"
  by (auto simp: mutation_frame_def)

lemma bridge_follows:
  assumes "bridge_rel s st" and "shape_step st e st'"
  shows "(\<exists>s'. translate_step cfg s (n, wire_event e) = Ok s' \<and> bridge_rel s' st')
    \<or> (\<exists>x. translate_step cfg s (n, wire_event e) = Err x \<and> mutation_error x)"
  using assms(2)
proof cases
  case (ss_mutation f)
  then obtain pl where "mutation_parts (wire_event e) = Some (f, pl)" using wire_mutation by blast
  from mutation_step [OF this] append_mutation_rel [OF assms(1), of cfg f pl] ss_mutation show ?thesis by auto
next
  case (ss_exit d f fs rs)
  with assms(1) show ?thesis
    by (cases "br_stack s"; cases "tl (br_stack s)")
      (auto simp: translate_step_def bridge_rel_def closed_stack_def)
qed (use assms(1) in \<open>auto simp: translate_step_def bridge_rel_def closed_stack_def\<close>)

lemma bridge_runs:
  "runs shape_step st es st' \<Longrightarrow> bridge_rel s st \<Longrightarrow>
    (\<exists>s'. run_events cfg s n (map wire_event es) = Ok s' \<and> bridge_rel s' st')
    \<or> (\<exists>x. run_events cfg s n (map wire_event es) = Err x \<and> mutation_error x)"
proof (induction es arbitrary: st s n)
  case (Cons e es)
  then obtain st1 where st1: "shape_step st e st1" "runs shape_step st1 es st'" by auto
  from bridge_follows [OF Cons.prems(2) st1(1), of cfg n] Cons.IH [OF st1(2)] show ?case by fastforce
qed auto

lemma bridge_after_gate1:
  assumes "verify_gate1_invariants stream = Ok ()"
  shows "(\<exists>out. translate (map wire_event stream) cfg = Ok out)
    \<or> (\<exists>x. translate (map wire_event stream) cfg = Err x \<and> mutation_error x)"
proof -
  obtain b body c where stream: "stream = BlockStartEvent b # body @ [BlockCommitEvent c]"
    using assms by (rule gate1_ends)
  then have body: "runs shape_step None body None" using assms gate1_block block_body_iff by blast
  let ?s = "initial_bridge\<lparr>br_block_number := gbs_number b\<rparr>"
  have "bridge_rel ?s None" by (simp add: bridge_rel_def initial_bridge_def closed_stack_def)
  from bridge_runs [OF body this, of cfg 1] show ?thesis
    by (auto simp: translate_def stream translate_step_def fold_res_append enumerate_append_eq bridge_rel_def)
qed

section \<open>Streams that passed, as call trees\<close>

text \<open>
  What Gate 1 leaves open: that a mutation names the innermost open frame or none, and
  none outside transactions, that frame ids and depths are 32-bit numbers, and that a
  transaction ends with the index it started with.  The state is the index and the list of
  open frames, \<open>None\<close> outside transactions.  In the strict form a mutation names the
  innermost frame whenever one is open, as the tracer's do.
\<close>

type_synonym place = "(u64 \<times> u64 list) option"

definition in_frame :: "bool \<Rightarrow> place \<Rightarrow> u64 \<Rightarrow> bool" where
  "in_frame strict st f \<longleftrightarrow>
     (case st of
        None \<Rightarrow> f = NO_FRAME
      | Some (i, fs) \<Rightarrow> f = hd (fs @ [NO_FRAME]) \<or> \<not> strict \<and> f = NO_FRAME)"

fun placed :: "bool \<Rightarrow> place \<Rightarrow> emes_event list \<Rightarrow> bool" where
  "placed strict st [] \<longleftrightarrow> True"
| "placed strict st (TransactionStartEvent d # es) \<longleftrightarrow> placed strict (Some (gts_tx_index d, [])) es"
| "placed strict st (TransactionEndEvent d # es) \<longleftrightarrow> map_option fst st = Some (gte_tx_index d) \<and> placed strict None es"
| "placed strict st (FrameEnterEvent d # es) \<longleftrightarrow> unat (gfe_frame_id d) < 2 ^ 32 \<and> unat (gfe_depth d) < 2 ^ 32
     \<and> placed strict (map_option (\<lambda>(i, fs). (i, gfe_frame_id d # fs)) st) es"
| "placed strict st (FrameExitEvent d # es) \<longleftrightarrow> placed strict (map_option (\<lambda>(i, fs). (i, tl fs)) st) es"
| "placed strict st (e # es) \<longleftrightarrow> (case mutation_frame e of Some f \<Rightarrow> in_frame strict st f | None \<Rightarrow> True) \<and> placed strict st es"

lemma placed_mutation:
  "mutation_frame e = Some f \<Longrightarrow> placed strict st (e # es) \<longleftrightarrow> in_frame strict st f \<and> placed strict st es"
  by (cases e) auto

lemma placed_strict: "placed True st es \<Longrightarrow> placed False st es"
proof (induction "False" st es rule: placed.induct)
qed (auto simp: in_frame_def split: option.splits)

lemma wire_go_mutation: "mutation_frame e = Some f \<Longrightarrow> \<exists>m. wire_event e = go_mutation f m"
proof (cases e)
  case (BalanceMutationEvent d)
  moreover assume "mutation_frame e = Some f"
  ultimately show ?thesis
    by (intro exI [of _ "MBalance (gbm_address d) (gbm_before d) (gbm_after d)"]) simp
next
  case (NonceMutationEvent d)
  moreover assume "mutation_frame e = Some f"
  ultimately show ?thesis
    by (intro exI [of _ "MNonce (gnm_address d) (gnm_before d) (gnm_after d)"]) simp
next
  case (CodeMutationEvent d)
  moreover assume "mutation_frame e = Some f"
  ultimately show ?thesis
    by (intro exI [of _ "MCode (gcm_address d) (gcm_before d) (gcm_after d)"]) simp
next
  case (StorageMutationEvent d)
  moreover assume "mutation_frame e = Some f"
  ultimately show ?thesis
    by (intro exI [of _ "MStorage (gsm_address d) (gsm_slot d) (gsm_before d) (gsm_after d)"]) simp
next
  case (AccountCreatedEvent d)
  moreover assume "mutation_frame e = Some f"
  ultimately show ?thesis
    by (intro exI [of _ "MCreated (gac_address d) (gac_creator d)"]) simp
next
  case (SelfDestructEvent d)
  moreover assume "mutation_frame e = Some f"
  ultimately show ?thesis
    by (intro exI [of _ "MDestroyed (gsd_address d) (gsd_beneficiary d)"]) simp
qed auto

text \<open>The outcomes of the calls of a list of nodes.\<close>

fun node_outcome :: "call_node \<Rightarrow> bool list" where
  "node_outcome (Call i p d reverted body) = [reverted]"
| "node_outcome n = []"

definition outcomes :: "call_node list \<Rightarrow> bool list" where
  "outcomes nodes = concat (map node_outcome nodes)"

lemma balanced_nodes:
  "balanced p es rs \<Longrightarrow> placed strict (Some (n, fs)) (es @ rest) \<Longrightarrow> p = hd (fs @ [NO_FRAME]) \<Longrightarrow>
    list_all (\<lambda>f. f \<noteq> NO_FRAME) fs \<Longrightarrow>
    placed strict (Some (n, fs)) rest
    \<and> (\<exists>nodes. map wire_event es = concat (map (flatten_node p) nodes) \<and> outcomes nodes = rs
        \<and> list_all (if fs = [] then root_node else node_fits) nodes \<and> (strict \<longrightarrow> list_all (tidy (fs \<noteq> [])) nodes))"
proof (induction arbitrary: fs rest rule: balanced.induct)
  case (b_nil p)
  then show ?case by (auto simp: outcomes_def intro!: exI [of _ "[]"])
next
  case (b_mutation e f p es rs)
  from b_mutation.prems(1) have e: "in_frame strict (Some (n, fs)) f" "placed strict (Some (n, fs)) (es @ rest)"
    using b_mutation.hyps(1) by (simp_all add: placed_mutation)
  from b_mutation.IH [OF e(2) b_mutation.prems(2,3)] obtain nodes where nodes:
    "placed strict (Some (n, fs)) rest" "map wire_event es = concat (map (flatten_node p) nodes)" "outcomes nodes = rs"
    "list_all (if fs = [] then root_node else node_fits) nodes" "strict \<longrightarrow> list_all (tidy (fs \<noteq> [])) nodes" by blast
  obtain m where m: "wire_event e = go_mutation f m" using b_mutation.hyps(1) wire_go_mutation by blast
  let ?node = "if f = NO_FRAME then Free m else Own m"
  have "flatten_node p ?node = [wire_event e]" "node_outcome ?node = []"
    "(if fs = [] then root_node else node_fits) ?node" "strict \<longrightarrow> tidy (fs \<noteq> []) ?node"
    using e(1) b_mutation.prems(2,3) m by (cases fs; auto simp: in_frame_def)+
  with nodes show ?case
    by (intro conjI exI [of _ "?node # nodes"]) (simp_all add: outcomes_def)
next
  case (b_frame d p body rs' d' es rs)
  let ?i = "gfe_frame_id d"
  from b_frame.prems(1) have fits: "unat ?i < 2 ^ 32" "unat (gfe_depth d) < 2 ^ 32"
    and inner: "placed strict (Some (n, ?i # fs)) (body @ FrameExitEvent d' # es @ rest)" by simp_all
  have "list_all (\<lambda>f. f \<noteq> NO_FRAME) (?i # fs)" using b_frame.prems(3) fits_no_frame [OF fits(1)] by simp
  from b_frame.IH(1) [OF inner _ this] obtain below where
    below: "map wire_event body = concat (map (flatten_node ?i) below)" "list_all node_fits below"
      "strict \<longrightarrow> list_all (tidy True) below"
    and after: "placed strict (Some (n, fs)) (es @ rest)" by auto
  from b_frame.IH(2) [OF after b_frame.prems(2,3)] obtain nodes where nodes:
    "placed strict (Some (n, fs)) rest" "map wire_event es = concat (map (flatten_node p) nodes)" "outcomes nodes = rs"
    "list_all (if fs = [] then root_node else node_fits) nodes" "strict \<longrightarrow> list_all (tidy (fs \<noteq> [])) nodes" by blast
  let ?node = "Call ?i (gfe_parent_frame_id d) (gfe_depth d) (gfx_reverted d') below"
  have flat: "map wire_event (FrameEnterEvent d # body @ FrameExitEvent d' # es)
      = concat (map (flatten_node p) (?node # nodes))"
    by (simp add: below(1) nodes(2) b_frame.hyps(3))
  have "outcomes (?node # nodes) = gfx_reverted d' # rs" using nodes(3) by (simp add: outcomes_def)
  moreover have "list_all (if fs = [] then root_node else node_fits) (?node # nodes)"
    "strict \<longrightarrow> list_all (tidy (fs \<noteq> [])) (?node # nodes)"
    using fits below(2,3) nodes(4,5) by simp_all
  ultimately show ?case using nodes(1) flat by blast
qed

text \<open>The items of a block: invariant T1 holds of every transaction.\<close>

fun item_lawful :: "bool \<Rightarrow> stream_item \<Rightarrow> bool" where
  "item_lawful strict (Transact i h reverted nodes) \<longleftrightarrow>
     list_all root_node nodes \<and> (outcomes nodes = [] \<or> outcomes nodes = [reverted])
     \<and> (strict \<longrightarrow> list_all (tidy False) nodes)"
| "item_lawful strict (Loose m) \<longleftrightarrow> True"
| "item_lawful strict item \<longleftrightarrow> False"

lemma block_body_items:
  "block_body es \<Longrightarrow> placed strict None es \<Longrightarrow>
    \<exists>items. map wire_event es = concat (map flatten_item items) \<and> list_all (item_lawful strict) items"
proof (induction rule: block_body.induct)
  case bb_nil
  show ?case by (intro exI [of _ "[]"]) simp
next
  case (bb_mutation e f es)
  then obtain items where "map wire_event es = concat (map flatten_item items)" "list_all (item_lawful strict) items"
    and f: "f = NO_FRAME" by (auto simp: placed_mutation in_frame_def)
  moreover obtain m where "wire_event e = go_mutation f m" using bb_mutation.hyps(1) wire_go_mutation by blast
  ultimately show ?case by (intro exI [of _ "Loose m # items"]) simp
next
  case (bb_tx inner rs d' es d)
  have inner: "placed strict (Some (gts_tx_index d, [])) (inner @ TransactionEndEvent d' # es)" using bb_tx.prems by simp
  from balanced_nodes [OF bb_tx.hyps(1) inner] obtain nodes where
    nodes: "map wire_event inner = concat (map (flatten_node NO_FRAME) nodes)" "outcomes nodes = rs"
      "list_all root_node nodes" "strict \<longrightarrow> list_all (tidy False) nodes"
    and "placed strict None es" and idx: "gte_tx_index d' = gts_tx_index d" by (auto simp: NO_FRAME_def)
  with bb_tx.IH obtain items where items: "map wire_event es = concat (map flatten_item items)"
    "list_all (item_lawful strict) items" by blast
  let ?tx = "Transact (gts_tx_index d) (gts_hash d) (gte_reverted d') nodes"
  show ?case using nodes items idx bb_tx.hyps(2) by (intro exI [of _ "?tx # items"]) simp
qed

lemma lawful_fits: "item_lawful strict item \<Longrightarrow> item_fits item"
  by (cases item) auto

lemma gate1_items:
  assumes "verify_gate1_invariants stream = Ok ()" and "placed strict None stream"
  shows "\<exists>n items. map wire_event stream = concat (map flatten_item (Header n # items @ [Footer]))
    \<and> list_all (item_lawful strict) items"
proof -
  obtain b body c where stream: "stream = BlockStartEvent b # body @ [BlockCommitEvent c]"
    using assms(1) by (rule gate1_ends)
  have body: "block_body body" using assms(1) gate1_block unfolding stream by blast
  have "placed strict st (es @ [BlockCommitEvent c]) \<Longrightarrow> placed strict st es" for st es
    by (induction strict st es rule: placed.induct) auto
  then have "placed strict None body" using assms(2) by (simp add: stream)
  from block_body_items [OF body this] obtain items where
    "map wire_event body = concat (map flatten_item items)" "list_all (item_lawful strict) items" by blast
  then show ?thesis by (intro exI [of _ "gbs_number b"] exI [of _ items]) (simp add: stream)
qed

lemma gate1_output:
  assumes "verify_gate1_invariants stream = Ok ()" and "placed strict None stream"
  obtains n items where "map wire_event stream = concat (map flatten_item (Header n # items @ [Footer]))"
    "list_all (item_lawful strict) items"
    "translate (map wire_event stream) cfg = Ok (assign_sequence (stream_output cfg n items))"
proof -
  obtain n items where items: "map wire_event stream = concat (map flatten_item (Header n # items @ [Footer]))"
    "list_all (item_lawful strict) items"
    using gate1_items [OF assms] by blast
  have trailing: "stream_output cfg b (xs @ [Footer]) = stream_output cfg b xs" for b xs
    by (induction cfg b xs rule: stream_output.induct) simp_all
  have "translate (map wire_event stream) cfg = Ok (assign_sequence (stream_output cfg n items))"
    unfolding items(1) using items(2) lawful_fits
    by (subst translate_items) (auto simp: trailing list_all_iff)
  with items show ?thesis by (rule that)
qed

text \<open>Under invariant T1 the frames of a reverted transaction leave nothing.\<close>

lemma reverted_leaves_free:
  assumes "outcomes nodes = [True]" and "list_all root_node nodes"
  shows "concat (map (root_events mk) nodes) = concat (map (free_events mk) nodes)"
proof -
  have "root_events mk node = free_events mk node" if "node \<in> set nodes" for node
  proof (cases node)
    case (Call i p d reverted body)
    with that have "reverted \<in> set (outcomes nodes)" by (force simp: outcomes_def)
    with assms(1) Call show ?thesis by (simp add: root_events_def)
  qed (use that assms(2) in \<open>auto simp: root_events_def list_all_iff\<close>)
  then show ?thesis by (simp cong: map_cong)
qed

section \<open>Properties\<close>

text \<open>
  C38: on a stream that passed Gate 1 the bridge's structural errors cannot occur, as its
  documentation says: \<open>translate\<close> either succeeds, or fails on a mutation, because no frame
  is open where the mutation names one or because the id or depth of its frame does not fit
  32 bits.
\<close>

theorem gate1_leaves_mutation_errors:
  assumes "verify_gate1_invariants stream = Ok ()"
  shows "case translate (map wire_event stream) cfg of
      Ok out \<Rightarrow> True
    | Err x \<Rightarrow> x = UnbalancedFrames (2 ^ 64 - 1) \<or> (\<exists>v. x = FrameIdOverflow v)
    | Panic \<Rightarrow> False"
  using bridge_after_gate1 [OF assms, of cfg] by (auto simp: mutation_error_def)

theorem gate1_leaves_mutation_errors_witness:
  "\<exists>x. translate (map wire_event (build_stream [lit_tx_start 0, lit_nonce 3 0 1, lit_tx_end 0 False])) \<lparr>cfg_chain_id = 1\<rparr>
      = Err x \<and> (x = UnbalancedFrames (2 ^ 64 - 1) \<or> (\<exists>v. x = FrameIdOverflow v))"
proof -
  let ?stream = "build_stream [lit_tx_start 0, lit_nonce 3 0 1, lit_tx_end 0 False]" and ?cfg = "\<lparr>cfg_chain_id = 1\<rparr>"
  have "verify_gate1_invariants ?stream = Ok ()" by code_simp
  moreover have "\<nexists>out. translate (map wire_event ?stream) ?cfg = Ok out"
  proof -
    have f: "mutation_parts (wire_event (set_event_sequence n (lit_nonce 3 0 1))) =
        Some (3, NonceUpdated \<lparr>nu_address = arr_fill 1, nu_previous_nonce = 0, nu_current_nonce = 1\<rparr>)" for n
      by (simp add: lit_nonce_def)
    have "\<not> frame_run None (map wire_event ?stream) None"
      by (simp add: build_stream_def lit_defs frame_step_simps)
        (simp add: frame_step_mutation NO_FRAME_def)
    then show ?thesis by (simp add: accepted_iff_frame_run)
  qed
  ultimately show ?thesis
    using gate1_leaves_mutation_errors [of ?stream ?cfg]
    by (cases "translate (map wire_event ?stream) ?cfg") auto
qed

text \<open>
  C6: take a stream that passed Gate 1, with frame ids and depths below \<open>2 ^ 32\<close>, whose
  mutations name the innermost open frame or none, and none outside transactions, and whose
  transactions end with the index they start with.  It is a block of call trees and of frameless
  mutations outside transactions: \<open>translate\<close> accepts it, its output is what the trees keep, and
  a transaction whose root frame reverted keeps its frameless mutations alone.
\<close>

theorem gate1_streams_are_call_trees:
  assumes "verify_gate1_invariants stream = Ok ()" and "placed False None stream"
  shows "\<exists>n items. map wire_event stream = concat (map flatten_item (Header n # items @ [Footer]))
    \<and> translate (map wire_event stream) cfg = Ok (assign_sequence (stream_output cfg n items))
    \<and> list_all (\<lambda>item. case item of
          Transact i h reverted nodes \<Rightarrow> outcomes nodes = [] \<or> outcomes nodes = [reverted]
            \<and> (reverted \<longrightarrow> (\<forall>mk. concat (map (root_events mk) nodes) = concat (map (free_events mk) nodes)))
        | _ \<Rightarrow> True) items"
proof -
  obtain n items where items: "map wire_event stream = concat (map flatten_item (Header n # items @ [Footer]))"
    "list_all (item_lawful False) items" and "translate (map wire_event stream) cfg = Ok (assign_sequence (stream_output cfg n items))"
    using gate1_output [OF assms, of cfg] by blast
  moreover have "case item of
      Transact i h reverted nodes \<Rightarrow> outcomes nodes = [] \<or> outcomes nodes = [reverted]
        \<and> (reverted \<longrightarrow> (\<forall>mk. concat (map (root_events mk) nodes) = concat (map (free_events mk) nodes)))
    | _ \<Rightarrow> True" if "item_lawful False item" for item
    using that reverted_leaves_free by (cases item) auto
  ultimately show ?thesis using items by (auto simp: list_all_iff)
qed

theorem gate1_streams_are_call_trees_witness:
  "\<exists>out. translate (map wire_event (build_stream
      [lit_tx_start 0, lit_nonce (- 1) 0 1, lit_enter 0 (- 1) 0, lit_nonce 0 1 2, lit_exit 0 True, lit_tx_end 0 True]))
      \<lparr>cfg_chain_id = 1\<rparr> = Ok out"
proof -
  let ?stream = "build_stream
      [lit_tx_start 0, lit_nonce (- 1) 0 1, lit_enter 0 (- 1) 0, lit_nonce 0 1 2, lit_exit 0 True, lit_tx_end 0 True]"
  have "verify_gate1_invariants ?stream = Ok ()" by code_simp
  moreover have "placed False None ?stream"
    by (simp add: build_stream_def lit_defs in_frame_def NO_FRAME_def)
  ultimately show ?thesis using gate1_streams_are_call_trees by blast
qed

section \<open>What Gate 1 does not check\<close>

text \<open>
  Depths: the documentation of the invariants lists "nesting monotonicity" among the
  checks Gate 1 makes, but any depth passes.
\<close>

lemma gate1_ignores_depth:
  "verify_gate1_invariants (build_stream
      [lit_tx_start 0, lit_enter 0 (- 1) 7, lit_enter 1 0 3, lit_exit 1 False, lit_exit 0 False, lit_tx_end 0 False]) = Ok ()"
  by code_simp

text \<open>
  Mutations: one outside every transaction passes, and the bridge then drops it without
  an error; a mutation may name a frame that was never opened, and the indices of a transaction's start and end need not agree.
\<close>

lemma gate1_ignores_mutations:
  "verify_gate1_invariants (build_stream [lit_nonce (- 1) 0 1]) = Ok ()"
  "verify_gate1_invariants (build_stream [lit_tx_start 0, lit_nonce 9 0 1, lit_tx_end 4 False]) = Ok ()"
  by code_simp+

end
