(* ===== verification/Tracer.thy ===== *)
theory Tracer
  imports Gate1_Bridge
begin

text \<open>
  \<open>tracer/kaysentinel_tracer.go\<close>: the hooks of the live tracer, which turn go-ethereum's
  callbacks into the event stream.  The callbacks are a datatype with the arguments the
  hooks read, and their order a step relation; shown is which orders yield a stream that
  passes Gate 1.  \<open>EnvironmentDescriptor\<close> is an interface without an implementation, of which
  the tracer uses the precompile test, a parameter.
\<close>

section \<open>State and callbacks\<close>

record frame_ctx =
  fc_frame_id :: u64
  fc_parent_frame_id :: u64
  fc_depth :: u64
  fc_addr :: address

datatype internal_error_code = ErrEmptyFrameStack | ErrDuplicateExit | ErrUnexpectedExit | ErrSequenceOverflow

record internal_tracer_error =
  ite_code :: internal_error_code
  ite_frame_id :: u64
  ite_sequence :: u64
  ite_message :: string

text \<open>The frame stack grows at its end in Go; here its top is the head of the list.\<close>

record tracer =
  tr_global_sequence :: u64
  tr_next_frame_id :: u64
  tr_frame_stack :: "frame_ctx list"
  tr_events :: "emes_event list"
  tr_error_log :: "internal_tracer_error list"
  tr_pending_self_destruct :: "u64 \<Rightarrow> address option"
  tr_block_root :: b32

definition new_tracer :: tracer where
  "new_tracer = \<lparr>tr_global_sequence = 0, tr_next_frame_id = 0, tr_frame_stack = [], tr_events = [],
     tr_error_log = [], tr_pending_self_destruct = (\<lambda>_. None), tr_block_root = arr_fill 0\<rparr>"

text \<open>What the hooks read of go-ethereum's block and transaction; a \<open>*big.Int\<close> may be nil.\<close>

record block_header =
  bh_number :: u64
  bh_time :: u64
  bh_root :: b32

record tx_data =
  td_to :: "address option"
  td_hash :: b32
  td_value :: "int option"
  td_gas :: u64
  td_gas_price :: "int option"
  td_nonce :: u64

datatype hook =
    OnBlockStart block_header
  | OnBlockEnd
  | OnTxStart tx_data address \<comment> \<open>from\<close>
  | OnTxEnd "bool option" bool \<comment> \<open>the receipt's status is "failed", if there is one; \<open>err\<close> is not nil\<close>
  | OnEnter int u8 address address \<comment> \<open>depth, opcode, from, to\<close>
  | OnExit bool \<comment> \<open>reverted\<close>
  | OnBalanceChange address "int option" "int option" bool \<comment> \<open>previous, new, reason is self-destruct\<close>
  | OnNonceChange address u64 u64
  | OnCodeChange address b32 b32 bool \<comment> \<open>previous, new, reason is self-destruct\<close>
  | OnStorageChange address b32 b32 b32 \<comment> \<open>slot, previous, new\<close>

section \<open>The hooks\<close>

text \<open>
  \<open>big.Int.FillBytes\<close> writes the absolute value, and panics when it does not fit.
\<close>

fun be_bytes :: "nat \<Rightarrow> nat \<Rightarrow> u8 list" where
  "be_bytes 0 v = []"
| "be_bytes (Suc n) v = be_bytes n (v div 256) @ [of_nat (v mod 256)]"

definition big_to_hash :: "int option \<Rightarrow> (b32, unit) result" where
  "big_to_hash v =
     (case v of
        None \<Rightarrow> Ok (arr_fill 0)
      | Some n \<Rightarrow> if nat \<bar>n\<bar> < 256 ^ 32 then Ok (arr_of (be_bytes 32 (nat \<bar>n\<bar>))) else Panic)"

definition map_opcode_to_frame_type :: "u8 \<Rightarrow> frame_type" where
  "map_opcode_to_frame_type typ =
     (if typ = 0xf0 then FrameCreate
      else if typ = 0xf1 then FrameCall
      else if typ = 0xf2 then FrameCallCode
      else if typ = 0xf4 then FrameDelegateCall
      else if typ = 0xf5 then FrameCreate2
      else if typ = 0xfa then FrameStaticCall
      else FrameCall)"

definition current_frame_id :: "tracer \<Rightarrow> u64" where
  "current_frame_id t = (case tr_frame_stack t of [] \<Rightarrow> - 1 | fc # _ \<Rightarrow> fc_frame_id fc)"

definition log_error :: "internal_error_code \<Rightarrow> u64 \<Rightarrow> string \<Rightarrow> tracer \<Rightarrow> tracer" where
  "log_error code f msg t = t\<lparr>tr_error_log := tr_error_log t
     @ [\<lparr>ite_code = code, ite_frame_id = f, ite_sequence = tr_global_sequence t, ite_message = msg\<rparr>]\<rparr>"

definition emit :: "emes_event \<Rightarrow> tracer \<Rightarrow> (tracer, unit) result" where
  "emit e t =
     (let e = set_event_sequence (tr_global_sequence t) e;
          t = t\<lparr>tr_global_sequence := tr_global_sequence t + 1\<rparr>
      in if tr_global_sequence t = 0 then Panic
         else Ok (t\<lparr>tr_events := tr_events t @ [e]\<rparr>))"

fun run_hook :: "(address \<Rightarrow> bool) option \<Rightarrow> tracer \<Rightarrow> hook \<Rightarrow> (tracer, unit) result" where
  "run_hook env t (OnBlockStart h) =
     (let t = t\<lparr>tr_events := [], tr_error_log := [], tr_block_root := bh_root h\<rparr>
      in emit (BlockStartEvent \<lparr>base_sequence = 0, gbs_emes_version = ''EMES-V1'', gbs_number = bh_number h,
           gbs_timestamp = bh_time h\<rparr>) t)"
| "run_hook env t OnBlockEnd =
     emit (BlockCommitEvent \<lparr>base_sequence = 0, gbc_state_root = tr_block_root t\<rparr>) t"
| "run_hook env t (OnTxStart tx sender) =
     (let t = t\<lparr>tr_next_frame_id := 0, tr_frame_stack := []\<rparr>
      in bind_res (big_to_hash (td_value tx)) (\<lambda>value.
         bind_res (big_to_hash (td_gas_price tx)) (\<lambda>gas_price.
         emit (TransactionStartEvent \<lparr>base_sequence = 0, gts_tx_index = 0, gts_hash = td_hash tx, gts_from = sender,
           gts_to = td_to tx, gts_value = value, gts_gas_limit = td_gas tx, gts_gas_price = gas_price,
           gts_nonce = td_nonce tx\<rparr>) t)))"
| "run_hook env t (OnTxEnd receipt err) =
     (let reverted = (err \<or> receipt = Some True)
      in bind_res (emit (TransactionEndEvent \<lparr>base_sequence = 0, gte_tx_index = 0, gte_reverted = reverted\<rparr>) t) (\<lambda>t.
         let t = (if length (tr_frame_stack t) \<noteq> 0
                  then log_error ErrUnexpectedExit (current_frame_id t)
                    ''transaction ended with unclosed frames still on the stack'' t
                  else t)
         in Ok (t\<lparr>tr_frame_stack := [], tr_pending_self_destruct := (\<lambda>_. None)\<rparr>)))"
| "run_hook env t (OnEnter depth typ sender recipient) =
     (let parent = current_frame_id t;
          frame_type = map_opcode_to_frame_type typ;
          frame_type = (case env of Some is_precompile \<Rightarrow> if is_precompile recipient then FramePrecompile else frame_type
                        | None \<Rightarrow> frame_type);
          fc = \<lparr>fc_frame_id = tr_next_frame_id t, fc_parent_frame_id = parent, fc_depth = word_of_int depth, fc_addr = recipient\<rparr>;
          t = t\<lparr>tr_frame_stack := fc # tr_frame_stack t, tr_next_frame_id := tr_next_frame_id t + 1\<rparr>
      in emit (FrameEnterEvent \<lparr>base_sequence = 0, gfe_frame_id = fc_frame_id fc,
           gfe_parent_frame_id = fc_parent_frame_id fc, gfe_depth = fc_depth fc, gfe_type = frame_type,
           gfe_from = sender, gfe_to = recipient\<rparr>) t)"
| "run_hook env t (OnExit reverted) =
     (case tr_frame_stack t of
        [] \<Rightarrow> Ok (log_error ErrEmptyFrameStack (- 1)
                 ''ExitHook fired with no matching EnterHook on the frame stack'' t)
      | fc # rest \<Rightarrow>
          emit (FrameExitEvent \<lparr>base_sequence = 0, gfx_frame_id = fc_frame_id fc, gfx_reverted = reverted\<rparr>)
            (t\<lparr>tr_frame_stack := rest\<rparr>))"
| "run_hook env t (OnBalanceChange addr prev new self_destruct) =
     (let frame_id = current_frame_id t
      in bind_res (big_to_hash prev) (\<lambda>prev_hash.
         bind_res (big_to_hash new) (\<lambda>new_hash.
         bind_res (emit (BalanceMutationEvent \<lparr>base_sequence = 0, gbm_frame_id = frame_id, gbm_address = addr,
             gbm_before = prev_hash, gbm_after = new_hash\<rparr>) t) (\<lambda>t.
         if self_destruct
         then (case tr_pending_self_destruct t frame_id of
                 Some destructed \<Rightarrow>
                   bind_res (emit (SelfDestructEvent \<lparr>base_sequence = 0, gsd_frame_id = frame_id,
                       gsd_address = destructed, gsd_beneficiary = addr\<rparr>) t) (\<lambda>t.
                   Ok (t\<lparr>tr_pending_self_destruct := (tr_pending_self_destruct t)(frame_id := None)\<rparr>))
               | None \<Rightarrow> Ok t)
         else Ok t))))"
| "run_hook env t (OnNonceChange addr prev new) =
     emit (NonceMutationEvent \<lparr>base_sequence = 0, gnm_frame_id = current_frame_id t, gnm_address = addr,
       gnm_before = prev, gnm_after = new\<rparr>) t"
| "run_hook env t (OnCodeChange addr prev new self_destruct) =
     (let frame_id = current_frame_id t
      in bind_res (emit (CodeMutationEvent \<lparr>base_sequence = 0, gcm_frame_id = frame_id, gcm_address = addr,
             gcm_before = prev, gcm_after = new\<rparr>) t) (\<lambda>t.
         if self_destruct
         then Ok (t\<lparr>tr_pending_self_destruct := (tr_pending_self_destruct t)(frame_id := Some addr)\<rparr>)
         else Ok t))"
| "run_hook env t (OnStorageChange addr slot prev new) =
     emit (StorageMutationEvent \<lparr>base_sequence = 0, gsm_frame_id = current_frame_id t, gsm_address = addr,
       gsm_slot = slot, gsm_before = prev, gsm_after = new\<rparr>) t"

definition run_hooks :: "(address \<Rightarrow> bool) option \<Rightarrow> tracer \<Rightarrow> hook list \<Rightarrow> (tracer, unit) result" where
  "run_hooks env = fold_res (run_hook env)"

section \<open>The order of callbacks\<close>

text \<open>
  The order of go-ethereum's callbacks between the two block hooks: transactions do not nest,
  and enters and exits balance, in a transaction and outside.  Calls outside are system calls
  (the beacon root and block hash contracts, withdrawal and consolidation requests), and
  state changes come anywhere (withdrawals and rewards outside).  The state is whether a
  transaction is open, the number of open calls and the outcomes of the transaction's
  outermost calls.  Depths are non-negative and below \<open>2 ^ 32\<close> (the EVM's are at most 1024).
\<close>

type_synonym execution = "bool \<times> nat \<times> bool list"

inductive callback_step :: "execution \<Rightarrow> hook \<Rightarrow> execution \<Rightarrow> bool" where
  cs_start: "callback_step (False, 0, rs) (OnTxStart tx a) (True, 0, [])"
| cs_finish: "callback_step (True, 0, rs) (OnTxEnd receipt err) (False, 0, [])"
| cs_enter: "0 \<le> depth \<Longrightarrow> depth < 2 ^ 32 \<Longrightarrow> callback_step (b, n, rs) (OnEnter depth oc x y) (b, Suc n, rs)"
| cs_exit: "callback_step (b, Suc n, rs) (OnExit r) (b, n, if b \<and> n = 0 then rs @ [r] else rs)"
| cs_balance: "callback_step c (OnBalanceChange x y z sd) c"
| cs_nonce: "callback_step c (OnNonceChange x m n) c"
| cs_code: "callback_step c (OnCodeChange x y z sd) c"
| cs_storage: "callback_step c (OnStorageChange x sl y z) c"

code_pred callback_step .

inductive_simps callback_step_simps:
  "callback_step c (OnTxStart tx a) c'" "callback_step c (OnTxEnd receipt err) c'" "callback_step c (OnEnter depth oc x y) c'"
  "callback_step c (OnExit r) c'" "callback_step c (OnNonceChange x m n) c'"
  "callback_step c (OnStorageChange x sl y z) c'"

text \<open>
  The callbacks whose stream Gate 1 admits, as will be shown: every call is inside a
  transaction, which has at most one outermost call and shares its outcome (invariant T1).
  \<open>None\<close> is outside transactions.
\<close>

type_synonym protocol = "(nat \<times> bool list) option"

inductive admitted_step :: "protocol \<Rightarrow> hook \<Rightarrow> protocol \<Rightarrow> bool" where
  as_start: "admitted_step None (OnTxStart tx a) (Some (0, []))"
| as_finish: "rs = [] \<or> rs = [err \<or> receipt = Some True] \<Longrightarrow> admitted_step (Some (0, rs)) (OnTxEnd receipt err) None"
| as_enter: "0 \<le> depth \<Longrightarrow> depth < 2 ^ 32 \<Longrightarrow> admitted_step (Some (n, rs)) (OnEnter depth typ a b) (Some (Suc n, rs))"
| as_exit: "admitted_step (Some (Suc n, rs)) (OnExit r) (Some (n, if n = 0 then rs @ [r] else rs))"
| as_balance: "admitted_step p (OnBalanceChange a b c sd) p"
| as_nonce: "admitted_step p (OnNonceChange a m n) p"
| as_code: "admitted_step p (OnCodeChange a b c sd) p"
| as_storage: "admitted_step p (OnStorageChange a sl b c) p"

code_pred admitted_step .

inductive_simps admitted_step_simps:
  "admitted_step p (OnTxStart tx a) p'" "admitted_step p (OnTxEnd receipt err) p'" "admitted_step p (OnEnter depth oc a b) p'"
  "admitted_step p (OnExit r) p'" "admitted_step p (OnNonceChange a m n) p'"

section \<open>What a hook adds to the stream\<close>

lemma set_sequence_invariant [simp]:
  "mutation_frame (set_event_sequence n e) = mutation_frame e"
  "shape_step st (set_event_sequence n e) st' \<longleftrightarrow> shape_step st e st'"
  "placed strict pl (set_event_sequence n e # es) \<longleftrightarrow> placed strict pl (e # es)"
proof -
  show m: "mutation_frame (set_event_sequence n e) = mutation_frame e" by (cases e) simp_all
  show "shape_step st (set_event_sequence n e) st' \<longleftrightarrow> shape_step st e st'"
    by (cases e; simp add: shape_step_simps; simp add: shape_step_mutation)
  show "placed strict pl (set_event_sequence n e # es) \<longleftrightarrow> placed strict pl (e # es)"
    using m by (cases e) simp_all
qed

lemma emit_Ok:
  "emit e t = Ok t' \<longleftrightarrow> tr_global_sequence t + 1 \<noteq> 0
    \<and> t' = t\<lparr>tr_global_sequence := tr_global_sequence t + 1,
             tr_events := tr_events t @ [set_event_sequence (tr_global_sequence t) e]\<rparr>"
  by (auto simp: emit_def Let_def)

text \<open>The events are numbered from zero, and the counter is their number.\<close>

definition numbered :: "tracer \<Rightarrow> bool" where
  "numbered t \<longleftrightarrow> map sequence_num (tr_events t) = map of_nat [0..<length (tr_events t)]
     \<and> tr_global_sequence t = of_nat (length (tr_events t)) \<and> length (tr_events t) < 2 ^ 64"

lemma emit_numbered:
  assumes "numbered t" and "emit e t = Ok t'"
  shows "numbered t'"
proof -
  let ?n = "length (tr_events t)"
  have "(of_nat (Suc ?n) :: u64) \<noteq> 0" using assms by (simp add: emit_Ok numbered_def add.commute)
  then have "Suc ?n \<noteq> 2 ^ 64" by (auto simp: word_of_nat_eq_0_iff)
  with assms show ?thesis by (auto simp: emit_Ok numbered_def add.commute)
qed

abbreviation frame_ids :: "tracer \<Rightarrow> u64 list" where
  "frame_ids t \<equiv> map fc_frame_id (tr_frame_stack t)"

definition shape_of :: "tracer \<Rightarrow> protocol \<Rightarrow> shape" where
  "shape_of t p = map_option (\<lambda>(n, rs). (frame_ids t, rs)) p"

definition place_of :: "tracer \<Rightarrow> protocol \<Rightarrow> place" where
  "place_of t p = map_option (\<lambda>(n, rs). (0, frame_ids t)) p"

lemma shape_place_simps [simp]:
  "shape_of t None = None" "shape_of t (Some (n, rs)) = Some (frame_ids t, rs)"
  "place_of t None = None" "place_of t (Some (n, rs)) = Some (0, frame_ids t)"
  by (simp_all add: shape_of_def place_of_def)

text \<open>
  After \<open>k\<close> hooks: the stack has the open calls, at most \<open>k\<close> ids are in use, no hook added more
  than two events, and no anomaly was logged.
\<close>

definition calls_inv :: "tracer \<Rightarrow> nat \<Rightarrow> nat \<Rightarrow> bool" where
  "calls_inv t n k \<longleftrightarrow> numbered t \<and> unat (tr_next_frame_id t) \<le> k
     \<and> length (tr_events t) \<le> Suc (2 * k) \<and> tr_error_log t = [] \<and> length (tr_frame_stack t) = n"

abbreviation open_calls :: "protocol \<Rightarrow> nat" where
  "open_calls p \<equiv> (case p of None \<Rightarrow> 0 | Some (n, rs) \<Rightarrow> n)"

abbreviation tracer_inv :: "tracer \<Rightarrow> protocol \<Rightarrow> nat \<Rightarrow> bool" where
  "tracer_inv t p k \<equiv> calls_inv t (open_calls p) k"

lemmas tracer_inv_def = calls_inv_def

text \<open>The events \<open>es\<close> take the stream from one state to the next, and can be followed by anything that fits.\<close>

definition carries :: "tracer \<Rightarrow> protocol \<Rightarrow> emes_event list \<Rightarrow> tracer \<Rightarrow> protocol \<Rightarrow> bool" where
  "carries t p es t' p' \<longleftrightarrow> tr_events t' = tr_events t @ es \<and> runs shape_step (shape_of t p) es (shape_of t' p')
     \<and> (\<forall>rest. placed True (place_of t' p') rest \<longrightarrow> placed True (place_of t p) (es @ rest))"

lemma current_frame: "current_frame_id t = hd (frame_ids t @ [- 1])"
  by (cases "tr_frame_stack t") (simp_all add: current_frame_id_def)

lemma in_current_frame: "length (tr_frame_stack t) = open_calls p \<Longrightarrow> in_frame True (place_of t p) (current_frame_id t)"
  by (cases p) (auto simp: current_frame in_frame_def NO_FRAME_def)

lemma unat_Suc_le: "unat (x + 1 :: u64) \<le> Suc (unat x)"
  by (simp add: unat_word_ariths)

text \<open>A state change adds a mutation of the current frame.\<close>

lemma mutation_carries:
  assumes inv: "tracer_inv t p k" and m: "mutation_frame e = Some (current_frame_id t)" and emit: "emit e t = Ok t'"
  shows "tracer_inv t' p (Suc k)" "\<exists>es. carries t p es t' p"
    "tr_frame_stack t' = tr_frame_stack t" "length (tr_events t') = Suc (length (tr_events t))"
proof -
  show "tracer_inv t' p (Suc k)"
    using inv emit_numbered [OF _ emit] emit by (auto simp: tracer_inv_def emit_Ok)
  let ?e = "set_event_sequence (tr_global_sequence t) e"
  have same: "shape_of t' p = shape_of t p" "place_of t' p = place_of t p"
    using emit by (simp_all add: emit_Ok shape_of_def place_of_def)
  have "shape_step st ?e st" for st using m by (auto intro: ss_mutation)
  moreover have "in_frame True (place_of t p) (current_frame_id t)"
    by (rule in_current_frame) (use inv in \<open>simp add: tracer_inv_def\<close>)
  then have "placed True (place_of t p) (?e # rest) \<longleftrightarrow> placed True (place_of t p) rest" for rest
    using m by (simp add: placed_mutation)
  ultimately have "carries t p [?e] t' p" using emit same by (simp add: carries_def) (simp add: emit_Ok)
  then show "\<exists>es. carries t p es t' p" ..
  show "tr_frame_stack t' = tr_frame_stack t" "length (tr_events t') = Suc (length (tr_events t))"
    using emit by (simp_all add: emit_Ok)
qed

lemma carries_trans:
  "carries t p es t1 p1 \<Longrightarrow> carries t1 p1 es' t2 p2 \<Longrightarrow> carries t p (es @ es') t2 p2"
  by (auto simp: carries_def runs_append)

text \<open>The map of pending self-destructs matters to no other part of the state.\<close>

lemma pending_irrelevant [simp]:
  "calls_inv (t\<lparr>tr_pending_self_destruct := m\<rparr>) n k \<longleftrightarrow> calls_inv t n k"
  "carries t p es (t'\<lparr>tr_pending_self_destruct := m\<rparr>) p' \<longleftrightarrow> carries t p es t' p'"
  by (simp_all add: tracer_inv_def numbered_def carries_def shape_of_def place_of_def)

lemma tracer_inv_mono: "tracer_inv t p k \<Longrightarrow> k \<le> k' \<Longrightarrow> tracer_inv t p k'"
  by (auto simp: tracer_inv_def)

text \<open>One event, from a state whose stack and ids may have changed before it.\<close>

lemma emit_carries:
  assumes emit: "emit e t0 = Ok t'" and num: "numbered t"
    and same: "tr_events t0 = tr_events t" "tr_global_sequence t0 = tr_global_sequence t"
    and shape: "shape_step (shape_of t p) e (shape_of t0 p')"
    and place: "\<And>rest. placed True (place_of t0 p') rest \<Longrightarrow> placed True (place_of t p) (e # rest)"
  shows "numbered t'" "\<exists>es. carries t p es t' p'"
    "tr_frame_stack t' = tr_frame_stack t0" "tr_next_frame_id t' = tr_next_frame_id t0"
    "tr_error_log t' = tr_error_log t0" "length (tr_events t') = Suc (length (tr_events t))"
proof -
  have "numbered t0" using num same by (simp add: numbered_def)
  then show "numbered t'" using emit by (rule emit_numbered)
  show frames: "tr_frame_stack t' = tr_frame_stack t0" "tr_next_frame_id t' = tr_next_frame_id t0"
    "tr_error_log t' = tr_error_log t0" "length (tr_events t') = Suc (length (tr_events t))"
    using emit same by (simp_all add: emit_Ok)
  then have "shape_of t' p' = shape_of t0 p'" "place_of t' p' = place_of t0 p'"
    by (simp_all add: shape_of_def place_of_def)
  moreover have "tr_events t' = tr_events t @ [set_event_sequence (tr_global_sequence t) e]"
    using emit same by (simp add: emit_Ok)
  ultimately have "carries t p [set_event_sequence (tr_global_sequence t) e] t' p'"
    using shape place by (simp add: carries_def)
  then show "\<exists>es. carries t p es t' p'" ..
qed

lemma balance_adds:
  assumes inv: "tracer_inv t p k" and run: "run_hook env t (OnBalanceChange a b c sd) = Ok t'"
  shows "tracer_inv t' p (Suc k) \<and> (\<exists>es. carries t p es t' p)"
proof -
  let ?f = "current_frame_id t"
  obtain d t1 where emit1: "emit (BalanceMutationEvent d) t = Ok t1" and d: "gbm_frame_id d = ?f"
    and rest: "(if sd then (case tr_pending_self_destruct t1 ?f of
          Some destructed \<Rightarrow>
            bind_res (emit (SelfDestructEvent \<lparr>base_sequence = 0, gsd_frame_id = ?f, gsd_address = destructed,
              gsd_beneficiary = a\<rparr>) t1) (\<lambda>t. Ok (t\<lparr>tr_pending_self_destruct := (tr_pending_self_destruct t)(?f := None)\<rparr>))
        | None \<Rightarrow> Ok t1) else Ok t1) = Ok t'"
    using run by (auto simp: Let_def)
  have one: "tracer_inv t1 p (Suc k)" "\<exists>es. carries t p es t1 p" "tr_frame_stack t1 = tr_frame_stack t"
      "length (tr_events t1) = Suc (length (tr_events t))"
    using mutation_carries [OF inv _ emit1] d by simp_all
  show ?thesis
  proof (cases "t' = t1")
    case True
    with one show ?thesis by simp
  next
    case False
    with rest obtain d' t2 where emit2: "emit (SelfDestructEvent d') t1 = Ok t2" and d': "gsd_frame_id d' = ?f"
      and t': "t' = t2\<lparr>tr_pending_self_destruct := (tr_pending_self_destruct t2)(?f := None)\<rparr>"
      by (auto split: if_splits option.splits)
    have "?f = current_frame_id t1" using one(3) by (simp add: current_frame_id_def)
    then have "\<exists>es. carries t1 p es t2 p"
      using mutation_carries(2) [OF one(1) _ emit2] d' by simp
    moreover have "tracer_inv t2 p (Suc k)"
      using one(1,4) inv emit_numbered [OF _ emit2] emit2 by (auto simp: tracer_inv_def emit_Ok)
    ultimately show ?thesis using one(2) carries_trans by (simp add: t') blast
  qed
qed

text \<open>A callback in order keeps the invariant and extends the stream as the protocol moves.\<close>

lemma hook_adds:
  assumes step: "admitted_step p h p'" and inv: "tracer_inv t p k" and k: "k < 2 ^ 32"
    and run: "run_hook env t h = Ok t'"
  shows "tracer_inv t' p' (Suc k) \<and> (\<exists>es. carries t p es t' p')"
proof -
  have num: "numbered t" using inv by (simp add: tracer_inv_def)
  from step show ?thesis
  proof cases
    case (as_start tx a)
    let ?t0 = "t\<lparr>tr_next_frame_id := 0, tr_frame_stack := []\<rparr>"
    obtain d where emit: "emit (TransactionStartEvent d) ?t0 = Ok t'" and d: "gts_tx_index d = 0"
      using run as_start by (fastforce simp: Let_def)
    note adds = emit_carries [OF emit num, where p = p and p' = p']
    have "shape_step (shape_of t p) (TransactionStartEvent d) (shape_of ?t0 p')"
      using as_start by (auto intro: ss_start)
    with d as_start show ?thesis using adds inv by (auto simp: tracer_inv_def)
  next
    case (as_finish rs err receipt)
    obtain d t1 where emit: "emit (TransactionEndEvent d) t = Ok t1"
      and d: "gte_tx_index d = 0" "gte_reverted d = (err \<or> receipt = Some True)"
      and t': "t' = t1\<lparr>tr_frame_stack := [], tr_pending_self_destruct := (\<lambda>_. None)\<rparr>
        \<or> t1 = t1 \<and> tr_frame_stack t1 \<noteq> []"
      using run as_finish by (fastforce simp: Let_def)
    have empty: "tr_frame_stack t = []" using inv as_finish by (simp add: tracer_inv_def)
    note adds = emit_carries [OF emit num, where p = p and p' = p']
    have "shape_step (shape_of t p) (TransactionEndEvent d) (shape_of t p')"
      using as_finish d empty by (auto intro: ss_finish)
    then have "numbered t1 \<and> (\<exists>es. carries t p es t1 p') \<and> tr_frame_stack t1 = [] \<and> tr_next_frame_id t1 = tr_next_frame_id t
        \<and> tr_error_log t1 = tr_error_log t \<and> length (tr_events t1) = Suc (length (tr_events t))"
      using d as_finish adds empty by (auto simp: tracer_inv_def)
    moreover from this t' have "t' = t1\<lparr>tr_pending_self_destruct := (\<lambda>_. None)\<rparr>" by simp
    ultimately show ?thesis using inv as_finish by (auto simp: tracer_inv_def numbered_def)
  next
    case (as_enter depth n rs oc a b)
    let ?fc = "\<lparr>fc_frame_id = tr_next_frame_id t, fc_parent_frame_id = current_frame_id t,
      fc_depth = word_of_int depth, fc_addr = b\<rparr>"
    let ?t0 = "t\<lparr>tr_frame_stack := ?fc # tr_frame_stack t, tr_next_frame_id := tr_next_frame_id t + 1\<rparr>"
    obtain d where emit: "emit (FrameEnterEvent d) ?t0 = Ok t'"
      and d: "gfe_frame_id d = tr_next_frame_id t" "gfe_parent_frame_id d = current_frame_id t" "gfe_depth d = word_of_int depth"
      using run as_enter by (fastforce simp: Let_def)
    note adds = emit_carries [OF emit num, where p = p and p' = p']
    have fits: "unat (tr_next_frame_id t) < 2 ^ 32" using inv k by (simp add: tracer_inv_def)
    have "unat (word_of_int depth :: u64) = nat depth"
      using as_enter by (simp add: unat_eq_nat_uint uint_word_of_int)
    then have depth: "unat (word_of_int depth :: u64) < 2 ^ 32" using as_enter by (simp add: nat_less_iff)
    have "shape_step (shape_of t p) (FrameEnterEvent d) (shape_of ?t0 p')"
      using as_enter ss_enter [of d "frame_ids t" rs] d by (simp add: current_frame)
    moreover have "placed True (place_of t p) (FrameEnterEvent d # rest)" if "placed True (place_of ?t0 p') rest" for rest
      using that as_enter d fits depth by simp
    moreover have "unat (tr_next_frame_id t + 1) \<le> Suc k"
      using unat_Suc_le [of "tr_next_frame_id t"] inv by (simp add: tracer_inv_def)
    ultimately show ?thesis using adds inv as_enter by (auto simp: tracer_inv_def)
  next
    case (as_exit n rs r)
    obtain fc rest where stack: "tr_frame_stack t = fc # rest"
      using inv as_exit by (cases "tr_frame_stack t") (simp_all add: tracer_inv_def)
    let ?t0 = "t\<lparr>tr_frame_stack := rest\<rparr>"
    obtain d where emit: "emit (FrameExitEvent d) ?t0 = Ok t'" and d: "gfx_frame_id d = fc_frame_id fc" "gfx_reverted d = r"
      using run as_exit stack by fastforce
    have n: "length rest = n" using inv as_exit stack by (simp add: tracer_inv_def)
    note adds = emit_carries [OF emit num, where p = p and p' = p']
    have "shape_step (shape_of t p) (FrameExitEvent d) (shape_of ?t0 p')"
      using ss_exit [of d "fc_frame_id fc" "map fc_frame_id rest" rs] d as_exit stack n by (auto split: if_splits)
    then show ?thesis using adds inv as_exit stack n by (auto simp: tracer_inv_def)
  next
    case (as_balance a b c sd)
    then show ?thesis using balance_adds inv run by blast
  next
    case (as_nonce a m n)
    from run as_nonce(1) obtain d where "emit (NonceMutationEvent d) t = Ok t'" and "gnm_frame_id d = current_frame_id t"
      by auto
    with mutation_carries [of t p k "NonceMutationEvent d" t'] inv as_nonce show ?thesis by simp
  next
    case (as_code a b c sd)
    define d where "d = \<lparr>base_sequence = 0, gcm_frame_id = current_frame_id t, gcm_address = a, gcm_before = b, gcm_after = c\<rparr>"
    have "run_hook env t (OnCodeChange a b c sd) = Ok t'" using run unfolding as_code(1) .
    then obtain t1 where emit: "emit (CodeMutationEvent d) t = Ok t1"
      and t': "(if sd then Ok (t1\<lparr>tr_pending_self_destruct := (tr_pending_self_destruct t1)(current_frame_id t := Some a)\<rparr>)
        else Ok t1) = (Ok t' :: (tracer, unit) result)"
      by (auto simp: Let_def d_def simp del: if_split)
    have "mutation_frame (CodeMutationEvent d) = Some (current_frame_id t)" by (simp add: d_def)
    note mutation_carries [OF inv this emit]
    then show ?thesis using t' as_code(2) by (cases sd) auto
  next
    case (as_storage a sl b c)
    from run as_storage(1) obtain d where "emit (StorageMutationEvent d) t = Ok t'" and "gsm_frame_id d = current_frame_id t"
      by auto
    with mutation_carries [of t p k "StorageMutationEvent d" t'] inv as_storage show ?thesis by simp
  qed
qed

text \<open>Whatever the order, as long as calls balance, the counters follow the open calls.\<close>

abbreviation calls :: "execution \<Rightarrow> nat" where
  "calls c \<equiv> fst (snd c)"

abbreviation idle :: execution where
  "idle \<equiv> (False, 0, [])"

text \<open>Seen from the counters alone, every callback in order is one that Gate 1 could admit.\<close>

lemma callback_calls:
  assumes "callback_step c h c'"
  obtains p p' where "admitted_step p h p'" "open_calls p = calls c" "open_calls p' = calls c'"
proof -
  from assms show thesis
  proof cases
    case (cs_start rs tx a)
    then show ?thesis using that [of None "Some (0, [])"] by (simp add: as_start)
  next
    case (cs_finish rs receipt err)
    then show ?thesis using that [of "Some (0, [])" None] by (simp add: as_finish)
  next
    case (cs_enter depth b n rs oc x y)
    then show ?thesis using that [of "Some (n, [])" "Some (Suc n, [])"] by (simp add: as_enter)
  next
    case (cs_exit b n rs r)
    then show ?thesis
      using that [of "Some (Suc n, [])" "Some (n, if n = 0 then [] @ [r] else [])"] as_exit [of n "[]" r] by simp
  next
    case (cs_balance x y z sd)
    then show ?thesis using that [of "Some (calls c, [])" "Some (calls c, [])"] by (simp add: as_balance)
  next
    case (cs_nonce x m n)
    then show ?thesis using that [of "Some (calls c, [])" "Some (calls c, [])"] by (simp add: as_nonce)
  next
    case (cs_code x y z sd)
    then show ?thesis using that [of "Some (calls c, [])" "Some (calls c, [])"] by (simp add: as_code)
  next
    case (cs_storage x sl y z)
    then show ?thesis using that [of "Some (calls c, [])" "Some (calls c, [])"] by (simp add: as_storage)
  qed
qed

lemma hook_inv:
  assumes "callback_step c h c'" and "calls_inv t (calls c) k" and "k < 2 ^ 32" and "run_hook env t h = Ok t'"
  shows "calls_inv t' (calls c') (Suc k)"
proof -
  obtain p p' where p: "admitted_step p h p'" "open_calls p = calls c" "open_calls p' = calls c'"
    using assms(1) by (rule callback_calls)
  have "tracer_inv t p k" using assms(2) p(2) by simp
  then have "tracer_inv t' p' (Suc k)" using hook_adds [OF p(1)] assms(3,4) by blast
  with p(3) show ?thesis by simp
qed

section \<open>What Gate 1 refuses\<close>

text \<open>An execution seen as a state of the admitted callbacks.\<close>

definition view :: "execution \<Rightarrow> protocol" where
  "view c = (if fst c then Some (snd c) else None)"

definition sound :: "execution \<Rightarrow> bool" where
  "sound c \<longleftrightarrow> fst c \<or> calls c = 0"

lemma view_calls: "sound c \<Longrightarrow> open_calls (view c) = calls c"
  by (cases c) (auto simp: view_def sound_def)

lemma admitted_sound: "callback_step c h c' \<Longrightarrow> sound c \<Longrightarrow> admitted_step (view c) h (view c') \<Longrightarrow> sound c'"
  by (erule callback_step.cases) (auto simp: view_def sound_def admitted_step_simps split: if_splits)

lemma shape_step_det: "shape_step st e st1 \<Longrightarrow> shape_step st e st2 \<Longrightarrow> st1 = st2"
  by (erule shape_step.cases) (auto simp: shape_step_simps shape_step_mutation)

lemma shape_runs_det: "runs shape_step st es st1 \<Longrightarrow> runs shape_step st es st2 \<Longrightarrow> st1 = st2"
  by (induction es arbitrary: st) (auto dest: shape_step_det)

text \<open>
  A callback in order that is not admitted is a call outside transactions or the end of a
  transaction with another outcome, or further outermost calls; its event fits no shape.
\<close>

lemma refused_step:
  assumes step: "callback_step c h c'" and sound: "sound c" and refused: "\<not> admitted_step (view c) h (view c')"
    and inv: "calls_inv t (calls c) k" and run: "run_hook env t h = Ok t'"
  shows "\<exists>e. tr_events t' = tr_events t @ [e] \<and> (\<forall>st. \<not> shape_step (shape_of t (view c)) e st)"
  using step
proof cases
  case (cs_finish rs receipt err)
  have empty: "tr_frame_stack t = []" using inv cs_finish by (simp add: calls_inv_def)
  obtain d t1 where emit: "emit (TransactionEndEvent d) t = Ok t1" and d: "gte_reverted d = (err \<or> receipt = Some True)"
    and "tr_events t' = tr_events t1"
    using run cs_finish by (fastforce simp: Let_def log_error_def)
  then have "tr_events t' = tr_events t @ [set_event_sequence (tr_global_sequence t) (TransactionEndEvent d)]"
    by (simp add: emit_Ok)
  moreover have "\<not> (rs = [] \<or> rs = [gte_reverted d])"
    using refused cs_finish d by (auto simp: view_def admitted_step_simps)
  ultimately show ?thesis using cs_finish empty by (auto simp: view_def shape_step_simps)
next
  case (cs_enter depth b n rs oc x y)
  then have "\<not> b" using refused by (auto simp: view_def admitted_step_simps)
  moreover obtain d t0 where "emit (FrameEnterEvent d) t0 = Ok t'" "tr_events t0 = tr_events t"
    using run cs_enter by (fastforce simp: Let_def)
  ultimately show ?thesis using cs_enter by (auto simp: emit_Ok view_def shape_step_simps)
next
  case (cs_exit b n rs r)
  then have "b" using sound by (simp add: sound_def)
  with refused cs_exit show ?thesis using as_exit [of n rs r] by (simp add: view_def)
qed (use refused in \<open>auto simp: view_def intro: admitted_step.intros\<close>)

text \<open>Within a block the events only grow.\<close>

fun starts_block :: "hook \<Rightarrow> bool" where
  "starts_block (OnBlockStart h) = True"
| "starts_block h = False"

lemma hook_appends:
  assumes "run_hook env t h = Ok t'" and "\<not> starts_block h"
  shows "\<exists>es. tr_events t' = tr_events t @ es"
  using assms
  by (cases h) (auto simp: Let_def emit_Ok log_error_def split: if_splits option.splits list.splits)

lemma hooks_append:
  "run_hooks env t hs = Ok t' \<Longrightarrow> list_all (\<lambda>h. \<not> starts_block h) hs \<Longrightarrow> \<exists>es. tr_events t' = tr_events t @ es"
proof (induction hs arbitrary: t)
  case (Cons h hs)
  then obtain t1 where t1: "run_hook env t h = Ok t1" "run_hooks env t1 hs = Ok t'" by (auto simp: run_hooks_def)
  from hook_appends [OF t1(1)] Cons.IH [OF t1(2)] Cons.prems(2) show ?case by fastforce
qed (simp add: run_hooks_def)

lemma order_no_block: "runs callback_step c hs c' \<Longrightarrow> list_all (\<lambda>h. \<not> starts_block h) hs"
proof (induction hs arbitrary: c)
  case (Cons h hs)
  then obtain c1 where "callback_step c h c1" "runs callback_step c1 hs c'" by auto
  then show ?case using Cons.IH by (auto elim: callback_step.cases)
qed simp

section \<open>A block\<close>

lemma hooks_add:
  "runs admitted_step p hs p' \<Longrightarrow> tracer_inv t p k \<Longrightarrow> k + length hs \<le> 2 ^ 32 \<Longrightarrow> run_hooks env t hs = Ok t' \<Longrightarrow>
    tracer_inv t' p' (k + length hs) \<and> (\<exists>es. carries t p es t' p')"
proof (induction hs arbitrary: p t k)
  case Nil
  then show ?case by (auto simp: run_hooks_def carries_def intro!: exI [of _ "[]"])
next
  case (Cons h hs)
  then obtain p1 t1 where h: "admitted_step p h p1" "run_hook env t h = Ok t1"
    and hs: "runs admitted_step p1 hs p'" "run_hooks env t1 hs = Ok t'" by (auto simp: run_hooks_def)
  have "tracer_inv t1 p1 (Suc k) \<and> (\<exists>es. carries t p es t1 p1)"
    by (rule hook_adds [OF h(1) Cons.prems(2) _ h(2)]) (use Cons.prems(3) in simp)
  moreover from this have "tracer_inv t' p' (Suc k + length hs) \<and> (\<exists>es. carries t1 p1 es t' p')"
    by (intro Cons.IH [OF hs(1) _ _ hs(2)]) (use Cons.prems(3) in simp_all)
  ultimately show ?case using carries_trans by simp blast
qed

lemma refused_run:
  "runs callback_step c hs c' \<Longrightarrow> sound c \<Longrightarrow> calls_inv t (calls c) k \<Longrightarrow> k + length hs \<le> 2 ^ 32 \<Longrightarrow>
    run_hooks env t hs = Ok t' \<Longrightarrow> \<not> runs admitted_step (view c) hs (view c') \<Longrightarrow>
    \<exists>es. tr_events t' = tr_events t @ es \<and> (\<forall>st. \<not> runs shape_step (shape_of t (view c)) es st)"
proof (induction hs arbitrary: c t k)
  case (Cons h hs)
  then obtain c1 t1 where h: "callback_step c h c1" "run_hook env t h = Ok t1"
    and hs: "runs callback_step c1 hs c'" "run_hooks env t1 hs = Ok t'" by (auto simp: run_hooks_def)
  have k: "k < 2 ^ 32" using Cons.prems(4) by simp
  show ?case
  proof (cases "admitted_step (view c) h (view c1)")
    case True
    have sound: "sound c1" by (rule admitted_sound [OF h(1) Cons.prems(2) True])
    have "tracer_inv t (view c) k" using Cons.prems(3) view_calls [OF Cons.prems(2)] by simp
    from hook_adds [OF True this k h(2)] obtain es where
      inv: "tracer_inv t1 (view c1) (Suc k)" and es: "carries t (view c) es t1 (view c1)" by blast
    have inv1: "calls_inv t1 (calls c1) (Suc k)" using inv view_calls [OF sound] by simp
    have refused: "\<not> runs admitted_step (view c1) hs (view c')" using True Cons.prems(6) by auto
    have "Suc k + length hs \<le> 2 ^ 32" using Cons.prems(4) by simp
    from Cons.IH [OF hs(1) sound inv1 this hs(2) refused] obtain es' where
      es': "tr_events t' = tr_events t1 @ es'" "\<And>st. \<not> runs shape_step (shape_of t1 (view c1)) es' st" by blast
    have "\<not> runs shape_step (shape_of t (view c)) (es @ es') st" for st
      using es es'(2) shape_runs_det unfolding runs_append carries_def by metis
    moreover have "tr_events t' = tr_events t @ es @ es'" using es es'(1) by (simp add: carries_def)
    ultimately show ?thesis by blast
  next
    case False
    from refused_step [OF h(1) Cons.prems(2) False Cons.prems(3) h(2)] obtain e where
      e: "tr_events t1 = tr_events t @ [e]" "\<And>st. \<not> shape_step (shape_of t (view c)) e st" by blast
    moreover obtain es where "tr_events t' = tr_events t1 @ es"
      using hooks_append [OF hs(2) order_no_block [OF hs(1)]] by blast
    ultimately show ?thesis by (intro exI [of _ "e # es"]) simp
  qed
qed simp

lemma strictly_numbered:
  assumes "map sequence_num es = map of_nat [0..<length es]" and "length es \<le> 2 ^ 64"
  shows "sorted_wrt (<) (map sequence_num es)"
proof -
  have "(of_nat i :: u64) < of_nat j" if "i < j" "j < length es" for i j
    using that assms(2) by (simp add: word_less_nat_alt unat_of_nat take_bit_nat_eq_self)
  then show ?thesis unfolding assms(1) by (simp add: sorted_wrt_map sorted_wrt_iff_nth_less)
qed

text \<open>A tracer that has collected nothing yet, or whose counter was reset.\<close>

lemma traced_block:
  assumes fresh: "tr_global_sequence t0 = 0" "tr_frame_stack t0 = []"
    and ids: "unat (tr_next_frame_id t0) + length body \<le> 2 ^ 32"
    and order: "runs admitted_step None body None"
    and run: "run_hooks env t0 (OnBlockStart h # body @ [OnBlockEnd]) = Ok t"
  shows "verify_gate1_invariants (tr_events t) = Ok () \<and> placed True None (tr_events t) \<and> tr_error_log t = []"
proof -
  obtain b t1 where emit1: "emit (BlockStartEvent b) (t0\<lparr>tr_events := [], tr_error_log := [], tr_block_root := bh_root h\<rparr>) = Ok t1"
    and run1: "run_hooks env t1 (body @ [OnBlockEnd]) = Ok t"
    using run by (auto simp: run_hooks_def Let_def)
  then obtain t2 c where run2: "run_hooks env t1 body = Ok t2" and emit2: "emit (BlockCommitEvent c) t2 = Ok t"
    by (auto simp: run_hooks_def fold_res_append)
  let ?b = "set_event_sequence 0 (BlockStartEvent b)" and ?k = "unat (tr_next_frame_id t0)"
  have t1: "tr_events t1 = [?b]" and inv: "tracer_inv t1 None ?k"
    using emit1 fresh by (auto simp: emit_Ok tracer_inv_def numbered_def)
  have "tracer_inv t2 None (?k + length body) \<and> (\<exists>es. carries t1 None es t2 None)"
    by (rule hooks_add [OF order inv _ run2]) (rule ids)
  then obtain es where inv2: "numbered t2" "tr_error_log t2 = []" and es: "carries t1 None es t2 None" by (auto simp: tracer_inv_def)
  have "numbered t" using inv2(1) emit2 by (rule emit_numbered)
  then have "sorted_wrt (<) (map sequence_num (tr_events t))"
    using strictly_numbered [of "tr_events t"] by (simp add: numbered_def)
  moreover obtain c' where stream: "tr_events t = BlockStartEvent (b\<lparr>base_sequence := 0\<rparr>) # es @ [BlockCommitEvent c']"
    using es t1 emit2 by (auto simp: carries_def emit_Ok)
  moreover have "block_body es" using es by (simp add: carries_def block_body_iff)
  moreover have "placed True None (es @ [BlockCommitEvent c'])" using es by (simp add: carries_def)
  moreover have "tr_error_log t = []" using inv2(2) emit2 by (simp add: emit_Ok)
  ultimately show ?thesis using gate1_block [of "b\<lparr>base_sequence := 0\<rparr>" es c'] by simp
qed

lemma refused_block:
  assumes fresh: "tr_global_sequence t0 = 0" "tr_frame_stack t0 = []"
    and ids: "unat (tr_next_frame_id t0) + length body \<le> 2 ^ 32"
    and order: "runs callback_step idle body idle" and refused: "\<not> runs admitted_step None body None"
    and run: "run_hooks env t0 (OnBlockStart h # body @ [OnBlockEnd]) = Ok t"
  shows "verify_gate1_invariants (tr_events t) \<noteq> Ok ()"
proof
  assume ok: "verify_gate1_invariants (tr_events t) = Ok ()"
  obtain b t1 where emit1: "emit (BlockStartEvent b) (t0\<lparr>tr_events := [], tr_error_log := [], tr_block_root := bh_root h\<rparr>) = Ok t1"
    and run1: "run_hooks env t1 (body @ [OnBlockEnd]) = Ok t"
    using run by (auto simp: run_hooks_def Let_def)
  then obtain t2 c where run2: "run_hooks env t1 body = Ok t2" and emit2: "emit (BlockCommitEvent c) t2 = Ok t"
    by (auto simp: run_hooks_def fold_res_append)
  have t1: "tr_events t1 = [set_event_sequence 0 (BlockStartEvent b)]"
    and inv: "calls_inv t1 (calls idle) (unat (tr_next_frame_id t0))"
    using emit1 fresh by (auto simp: emit_Ok calls_inv_def numbered_def)
  have idle: "sound idle" "\<not> runs admitted_step (view idle) body (view idle)"
    using refused by (simp_all add: sound_def view_def)
  from refused_run [OF order idle(1) inv ids run2 idle(2)] obtain es where
    es: "tr_events t2 = tr_events t1 @ es" "\<not> runs shape_step None es None"
    by (auto simp: view_def)
  obtain b' c' where "tr_events t = BlockStartEvent b' # es @ [BlockCommitEvent c']"
    using es(1) t1 emit2 by (auto simp: emit_Ok)
  with ok have "block_body es" using gate1_block by simp
  with es(2) show False by (simp add: block_body_iff)
qed

text \<open>
  The hooks stop only where \<open>FillBytes\<close> does: on a value of more than 32 bytes.  (The counter
  cannot overflow within a block of fewer than \<open>2 ^ 32\<close> callbacks.)
\<close>

definition fits_hash :: "int option \<Rightarrow> bool" where
  "fits_hash v \<longleftrightarrow> (case v of None \<Rightarrow> True | Some n \<Rightarrow> \<bar>n\<bar> < 256 ^ 32)"

fun hook_fits :: "hook \<Rightarrow> bool" where
  "hook_fits (OnTxStart tx a) \<longleftrightarrow> fits_hash (td_value tx) \<and> fits_hash (td_gas_price tx)"
| "hook_fits (OnBalanceChange a b c sd) \<longleftrightarrow> fits_hash b \<and> fits_hash c"
| "hook_fits h \<longleftrightarrow> True"

lemma big_to_hash_total: "fits_hash v \<Longrightarrow> \<exists>h. big_to_hash v = Ok h"
  by (auto simp: fits_hash_def big_to_hash_def nat_less_iff split: option.splits)

lemma emit_total:
  assumes "numbered t" and "length (tr_events t) < 2 ^ 64 - 1"
    and "tr_global_sequence t0 = tr_global_sequence t"
  shows "\<exists>t'. emit e t0 = Ok t'"
proof -
  have "(of_nat (Suc (length (tr_events t))) :: u64) \<noteq> 0"
    using assms(2) by (auto simp: word_of_nat_eq_0_iff simp del: of_nat_Suc dest: dvd_imp_le)
  then show ?thesis using assms by (simp add: emit_Ok numbered_def add.commute)
qed

lemma hook_total:
  assumes inv: "calls_inv t (calls c) k" and k: "k < 2 ^ 32" and fits: "hook_fits h" and step: "callback_step c h c'"
  shows "\<exists>t'. run_hook env t h = Ok t'"
proof -
  have num: "numbered t" and len: "length (tr_events t) < 2 ^ 64 - 2"
    using inv k by (simp_all add: calls_inv_def)
  have one: "\<exists>t'. emit e t0 = Ok t'" if "tr_global_sequence t0 = tr_global_sequence t" for e t0
    using emit_total [OF num _ that] len by simp
  have two: "\<exists>t'. emit e t1 = Ok t'" if "emit e' t = Ok t1" for e e' t1
  proof -
    have "length (tr_events t1) < 2 ^ 64 - 1" using that len by (simp add: emit_Ok)
    from emit_total [OF emit_numbered [OF num that] this refl] show ?thesis .
  qed
  show ?thesis
  proof (cases h)
    case (OnTxStart tx a)
    with fits big_to_hash_total obtain x y where "big_to_hash (td_value tx) = Ok x" "big_to_hash (td_gas_price tx) = Ok y"
      by (auto simp: fits_hash_def) blast
    then show ?thesis unfolding OnTxStart by (simp add: one)
  next
    case (OnBalanceChange a b c sd)
    with fits obtain x y where xy: "big_to_hash b = Ok x" "big_to_hash c = Ok y"
      using big_to_hash_total hook_fits.simps(2) by metis
    obtain t1 where t1: "emit (BalanceMutationEvent \<lparr>base_sequence = 0, gbm_frame_id = current_frame_id t, gbm_address = a,
        gbm_before = x, gbm_after = y\<rparr>) t = Ok t1" using one by blast
    show ?thesis
    proof (cases "sd \<and> tr_pending_self_destruct t1 (current_frame_id t) \<noteq> None")
      case True
      then obtain destructed where "tr_pending_self_destruct t1 (current_frame_id t) = Some destructed" by blast
      moreover obtain t2 where "emit (SelfDestructEvent \<lparr>base_sequence = 0, gsd_frame_id = current_frame_id t,
          gsd_address = destructed, gsd_beneficiary = a\<rparr>) t1 = Ok t2" using two [OF t1] by blast
      ultimately show ?thesis using True by (simp add: OnBalanceChange xy t1 Let_def)
    qed (auto simp: OnBalanceChange xy t1 Let_def)
  next
    case (OnTxEnd receipt err)
    obtain t1 where "emit (TransactionEndEvent \<lparr>base_sequence = 0, gte_tx_index = 0, gte_reverted = err \<or> receipt = Some True\<rparr>) t = Ok t1"
      using one by blast
    then show ?thesis by (simp add: OnTxEnd Let_def)
  next
    case (OnCodeChange a b c sd)
    obtain t1 where "emit (CodeMutationEvent \<lparr>base_sequence = 0, gcm_frame_id = current_frame_id t, gcm_address = a,
        gcm_before = b, gcm_after = c\<rparr>) t = Ok t1"
      using one by blast
    then show ?thesis by (simp add: OnCodeChange Let_def)
  qed (use one step in \<open>auto simp: Let_def elim: callback_step.cases split: list.split\<close>)
qed

lemma hooks_total:
  "runs callback_step c hs c' \<Longrightarrow> calls_inv t (calls c) k \<Longrightarrow> k + length hs \<le> 2 ^ 32 \<Longrightarrow> list_all hook_fits hs \<Longrightarrow>
    \<exists>t'. run_hooks env t hs = Ok t' \<and> calls_inv t' (calls c') (k + length hs)"
proof (induction hs arbitrary: c t k)
  case (Cons h hs)
  then obtain c1 where c1: "callback_step c h c1" "runs callback_step c1 hs c'" by auto
  have k: "k < 2 ^ 32" using Cons.prems(3) by simp
  have "hook_fits h" using Cons.prems(4) by simp
  then obtain t1 where t1: "run_hook env t h = Ok t1" using hook_total [OF Cons.prems(2) k _ c1(1)] by blast
  have "calls_inv t1 (calls c1) (Suc k)" by (rule hook_inv [OF c1(1) Cons.prems(2) k t1])
  from Cons.IH [OF c1(2) this] Cons.prems(3,4) t1 show ?case by (simp add: run_hooks_def)
qed (simp add: run_hooks_def)

text \<open>The callbacks of a block, from a tracer that has collected nothing or whose counter was reset.\<close>

lemma traced_block_total:
  assumes fresh: "tr_global_sequence t0 = 0" "tr_frame_stack t0 = []"
    and ids: "unat (tr_next_frame_id t0) + length body \<le> 2 ^ 32"
    and order: "runs callback_step idle body idle" and fits: "list_all hook_fits body"
  shows "\<exists>t. run_hooks env t0 (OnBlockStart h # body @ [OnBlockEnd]) = Ok t \<and> tr_error_log t = []"
proof -
  let ?k = "unat (tr_next_frame_id t0)"
  obtain t1 where t1: "run_hook env t0 (OnBlockStart h) = Ok t1" using fresh by (simp add: emit_Ok)
  then have inv: "calls_inv t1 (calls idle) ?k" using fresh by (auto simp: emit_Ok calls_inv_def numbered_def)
  obtain t2 where t2: "run_hooks env t1 body = Ok t2" and inv2: "calls_inv t2 (calls idle) (?k + length body)"
    using hooks_total [OF order inv ids fits] by blast
  have "numbered t2" "length (tr_events t2) \<le> Suc (2 * (?k + length body))" using inv2 by (simp_all add: calls_inv_def)
  moreover from this(2) have "length (tr_events t2) < 2 ^ 64 - 1" using ids by simp
  ultimately obtain t where t: "emit (BlockCommitEvent \<lparr>base_sequence = 0, gbc_state_root = tr_block_root t2\<rparr>) t2 = Ok t"
    using emit_total [of t2 t2] by blast
  then have "tr_error_log t = []" using inv2 by (simp add: emit_Ok calls_inv_def)
  with t t1 t2 show ?thesis by (simp add: run_hooks_def fold_res_append)
qed

text \<open>The callbacks of a block, to a new tracer.\<close>

lemma traced_outcome:
  assumes "runs callback_step idle body idle" and "list_all hook_fits body" and "length body < 2 ^ 32"
  obtains t where "run_hooks env new_tracer (OnBlockStart h # body @ [OnBlockEnd]) = Ok t" "tr_error_log t = []"
    "verify_gate1_invariants (tr_events t) = Ok () \<longleftrightarrow> runs admitted_step None body None"
    "verify_gate1_invariants (tr_events t) = Ok () \<longrightarrow> placed True None (tr_events t)"
proof -
  have new: "tr_global_sequence new_tracer = 0" "tr_frame_stack new_tracer = []"
    "unat (tr_next_frame_id new_tracer) + length body \<le> 2 ^ 32"
    using assms(3) by (simp_all add: new_tracer_def)
  obtain t where t: "run_hooks env new_tracer (OnBlockStart h # body @ [OnBlockEnd]) = Ok t" "tr_error_log t = []"
    using traced_block_total [OF new assms(1,2), of env h] by blast
  have passes: "verify_gate1_invariants (tr_events t) = Ok () \<longleftrightarrow> runs admitted_step None body None"
    using traced_block [OF new _ t(1)] refused_block [OF new assms(1) _ t(1)] by blast
  moreover have "placed True None (tr_events t)" if "verify_gate1_invariants (tr_events t) = Ok ()"
    using traced_block [OF new _ t(1)] passes that by blast
  ultimately show ?thesis using t by (intro that [of t]) simp_all
qed

section \<open>The second block\<close>

lemma later_block_rejected:
  assumes later: "tr_global_sequence t0 \<noteq> 0"
    and body: "list_all (\<lambda>h. \<not> starts_block h) body"
    and run: "run_hooks env t0 (OnBlockStart h # body) = Ok t"
  shows "verify_gate1_invariants (tr_events t)
    = gate1_fail 0 ''block-encapsulation'' ''BlockStartEvent must have Sequence 0''"
proof -
  obtain t1 where t1: "run_hook env t0 (OnBlockStart h) = Ok t1" "run_hooks env t1 body = Ok t"
    using run by (auto simp: run_hooks_def)
  then obtain b where b: "tr_events t1 = [BlockStartEvent b]" "base_sequence b = tr_global_sequence t0"
    by (auto simp: Let_def emit_Ok)
  obtain es where "tr_events t = tr_events t1 @ es" using hooks_append [OF t1(2) body] by blast
  with b later show ?thesis by (simp add: verify_gate1_invariants_def)
qed

section \<open>Transaction indices\<close>

text \<open>
  No hook sets \<open>TxIndex\<close>, so every transaction of a block is number zero, to the bridge and
  in the provenance of the builder's mutations.
\<close>

fun index_zero :: "emes_event \<Rightarrow> bool" where
  "index_zero (TransactionStartEvent d) \<longleftrightarrow> gts_tx_index d = 0"
| "index_zero (TransactionEndEvent d) \<longleftrightarrow> gte_tx_index d = 0"
| "index_zero e \<longleftrightarrow> True"

lemma hook_index_zero:
  "run_hook env t h = Ok t' \<Longrightarrow> list_all index_zero (tr_events t) \<Longrightarrow> list_all index_zero (tr_events t')"
  by (cases h) (auto simp: Let_def emit_Ok log_error_def split: if_splits option.splits list.splits)

lemma tracer_indices_zero:
  "run_hooks env t hs = Ok t' \<Longrightarrow> list_all index_zero (tr_events t) \<Longrightarrow> list_all index_zero (tr_events t')"
proof (induction hs arbitrary: t)
  case (Cons h hs)
  then obtain t1 where t1: "run_hook env t h = Ok t1" "run_hooks env t1 hs = Ok t'" by (auto simp: run_hooks_def)
  show ?case by (rule Cons.IH [OF t1(2) hook_index_zero [OF t1(1) Cons.prems(2)]])
qed (simp add: run_hooks_def)

section \<open>Properties\<close>

text \<open>
  C7: from go-ethereum's callbacks to the bridge.  A new tracer sees a block's callbacks in
  go-ethereum's order: transactions do not nest, calls balance inside and outside
  transactions, and state changes come anywhere.  When they are fewer than \<open>2 ^ 32\<close>, with
  values of at most 32 bytes and depths below \<open>2 ^ 32\<close>, the hooks run to the end and log no anomaly.  The
  stream they collect passes Gate 1 exactly when no call is outside a transaction (a block
  with system calls fails), and every transaction has at most one outermost call, whose
  outcome is the transaction's.  When it passes, it is the flattening of call trees, which the bridge
  accepts with the output the trees keep.
\<close>

theorem traced_block_reaches_bridge:
  assumes "runs callback_step idle body idle" and "list_all hook_fits body" and "length body < 2 ^ 32"
  shows "\<exists>t. run_hooks env new_tracer (OnBlockStart h # body @ [OnBlockEnd]) = Ok t \<and> tr_error_log t = []
    \<and> (verify_gate1_invariants (tr_events t) = Ok () \<longleftrightarrow> runs admitted_step None body None)
    \<and> (verify_gate1_invariants (tr_events t) = Ok () \<longrightarrow>
        (\<exists>n items. map wire_event (tr_events t) = concat (map flatten_item (Header n # items @ [Footer]))
          \<and> translate (map wire_event (tr_events t)) cfg = Ok (assign_sequence (stream_output cfg n items))))"
proof -
  obtain t where t: "run_hooks env new_tracer (OnBlockStart h # body @ [OnBlockEnd]) = Ok t" "tr_error_log t = []"
    and passes: "verify_gate1_invariants (tr_events t) = Ok () \<longleftrightarrow> runs admitted_step None body None"
    and inside: "verify_gate1_invariants (tr_events t) = Ok () \<longrightarrow> placed True None (tr_events t)"
    using assms by (rule traced_outcome [where env = env and h = h])
  have "\<exists>n items. map wire_event (tr_events t) = concat (map flatten_item (Header n # items @ [Footer]))
      \<and> translate (map wire_event (tr_events t)) cfg = Ok (assign_sequence (stream_output cfg n items))"
    if ok: "verify_gate1_invariants (tr_events t) = Ok ()"
    using gate1_output [OF ok mp [OF inside ok], of cfg] by blast
  with t passes show ?thesis by blast
qed

text \<open>
  C8: a tracer that has emitted anything before a block starts, as the live tracer has after
  its first block, never yields a stream that passes Gate 1: \<open>OnBlockStart\<close> clears the
  events but keeps counting, while the profile has sequence numbers start at zero per block.
\<close>

theorem tracer_later_block_rejected:
  assumes "tr_global_sequence t0 \<noteq> 0" and "list_all (\<lambda>h. \<not> starts_block h) body"
    and "run_hooks env t0 (OnBlockStart h # body) = Ok t"
  shows "verify_gate1_invariants (tr_events t)
    = gate1_fail 0 ''block-encapsulation'' ''BlockStartEvent must have Sequence 0''"
  using assms by (rule later_block_rejected)

definition empty_block :: "hook list" where
  "empty_block = [OnBlockStart \<lparr>bh_number = 1, bh_time = 2, bh_root = arr_fill 3\<rparr>, OnBlockEnd]"

theorem tracer_later_block_rejected_witness:
  "\<exists>t1 t2. run_hooks None new_tracer empty_block = Ok t1 \<and> verify_gate1_invariants (tr_events t1) = Ok ()
    \<and> run_hooks None t1 empty_block = Ok t2 \<and> verify_gate1_invariants (tr_events t2)
      = gate1_fail 0 ''block-encapsulation'' ''BlockStartEvent must have Sequence 0''"
proof -
  obtain t1 where t1: "run_hooks None new_tracer empty_block = Ok t1"
    by (simp add: run_hooks_def empty_block_def emit_Ok new_tracer_def)
  have seq: "tr_global_sequence t1 = 2" and ok: "verify_gate1_invariants (tr_events t1) = Ok ()"
    using t1 by (auto simp: run_hooks_def empty_block_def emit_Ok new_tracer_def verify_gate1_invariants_def
      gate1_step_def initial_gate1_def Let_def)
  obtain t2 where t2: "run_hooks None t1 empty_block = Ok t2"
    using seq by (simp add: run_hooks_def empty_block_def emit_Ok)
  then show ?thesis
    using t1 ok seq tracer_later_block_rejected [of t1 "[OnBlockEnd]"]
    by (intro exI [of _ t1] exI [of _ t2]) (simp add: empty_block_def)
qed

text \<open>A block with one transaction: a call that changes a nonce, and reverts.\<close>

definition traced_body :: "hook list" where
  "traced_body =
    [OnTxStart \<lparr>td_to = None, td_hash = arr_fill 1, td_value = Some 5, td_gas = 21000, td_gas_price = None, td_nonce = 0\<rparr> (arr_fill 2),
     OnNonceChange (arr_fill 2) 0 1, OnEnter 0 0xf1 (arr_fill 2) (arr_fill 3),
     OnNonceChange (arr_fill 3) 1 2, OnExit True, OnTxEnd (Some True) False]"

definition system_call :: "hook list" where
  "system_call = [OnEnter 0 0xf1 (arr_fill 254) (arr_fill 4), OnStorageChange (arr_fill 4) (arr_fill 0) (arr_fill 0) (arr_fill 1), OnExit False]"

theorem traced_block_reaches_bridge_witness:
  "(\<exists>t. run_hooks None new_tracer (OnBlockStart \<lparr>bh_number = 1, bh_time = 2, bh_root = arr_fill 3\<rparr> # traced_body @ [OnBlockEnd]) = Ok t
      \<and> verify_gate1_invariants (tr_events t) = Ok ())
   \<and> (\<exists>t. run_hooks None new_tracer (OnBlockStart \<lparr>bh_number = 1, bh_time = 2, bh_root = arr_fill 3\<rparr> # (system_call @ traced_body) @ [OnBlockEnd]) = Ok t
      \<and> tr_error_log t = [] \<and> verify_gate1_invariants (tr_events t) \<noteq> Ok ())"
proof -
  have order: "runs callback_step idle traced_body idle" "runs callback_step idle (system_call @ traced_body) idle"
    by (simp_all add: traced_body_def system_call_def callback_step_simps ex_bool_eq)
  have fits: "list_all hook_fits traced_body" "list_all hook_fits (system_call @ traced_body)"
    by (simp_all add: traced_body_def system_call_def fits_hash_def)
  have short: "length traced_body < 2 ^ 32" "length (system_call @ traced_body) < 2 ^ 32"
    by (simp_all add: traced_body_def system_call_def)
  have admitted: "runs admitted_step None traced_body None" "\<not> runs admitted_step None (system_call @ traced_body) None"
    by (simp_all add: traced_body_def system_call_def admitted_step_simps)
  show ?thesis
    using traced_block_reaches_bridge [OF order(1) fits(1) short(1)] traced_block_reaches_bridge [OF order(2) fits(2) short(2)]
      admitted by blast
qed

end
