(* ===== verification/Emes_Hex.thy ===== *)
theory Emes_Hex
  imports Emes
begin

text \<open>
  \<open>emes/types.go\<close>: the JSON form of addresses and hashes on the Go side, and its agreement
  with the decoder of \<open>runtime/bridge/src/wire.rs\<close>.
\<close>

section \<open>Encoder and decoder\<close>

text \<open>\<open>"0x" + hex.EncodeToString(a[:])\<close>, the string \<open>MarshalJSON\<close> writes.\<close>

definition marshal_hex :: "'n::len arr \<Rightarrow> str" where
  "marshal_hex a = byte_string (''0x'' @ concat (map hex_byte (as_slice a)))"

datatype go_hex_error = Missing_Prefix | Invalid_Byte u8 | Go_Odd_Length | Wrong_Byte_Length

text \<open>
  \<open>hex.DecodeString\<close> of Go's standard library: pair by pair; a last single byte is an
  invalid byte if it is no digit, otherwise the length is odd.
\<close>

fun go_decode_string :: "str \<Rightarrow> (u8 list, go_hex_error) result" where
  "go_decode_string [] = Ok []"
| "go_decode_string [c] = (case hex_value c of None \<Rightarrow> Err (Invalid_Byte c) | Some a \<Rightarrow> Err Go_Odd_Length)"
| "go_decode_string (c # d # cs) =
     (case hex_value c of
        None \<Rightarrow> Err (Invalid_Byte c)
      | Some a \<Rightarrow>
          (case hex_value d of
             None \<Rightarrow> Err (Invalid_Byte d)
           | Some b \<Rightarrow> bind_res (go_decode_string cs) (\<lambda>bs. Ok (of_nat (16 * a + b) # bs))))"

definition go_decode_fixed_hex :: "str \<Rightarrow> ('n::len arr, go_hex_error) result" where
  "go_decode_fixed_hex s =
     (if length s < 2 \<or> take 2 s \<noteq> byte_string ''0x'' then Err Missing_Prefix
      else bind_res (go_decode_string (drop 2 s)) (\<lambda>decoded.
        if length decoded \<noteq> LENGTH('n) then Err Wrong_Byte_Length else Ok (arr_of decoded)))"

section \<open>Agreement with the Rust decoder\<close>

lemma hex_value_facts:
  assumes "hex_value c = Some a"
  shows "a < 16" "c < 128" "c \<noteq> 43" "c \<noteq> 45"
  using assms by (auto simp: hex_value_def word_le_nat_alt word_less_nat_alt split: if_splits)

lemma radix_pair:
  "u8_from_str_radix_16 [c, d] = Ok b \<and> c \<noteq> 43 \<longleftrightarrow>
    (\<exists>x y. hex_value c = Some x \<and> hex_value d = Some y \<and> b = of_nat (16 * x + y))"
proof -
  have "16 * x + y < 256" if "hex_value c = Some x" "hex_value d = Some y" for x y
    using hex_value_facts(1) [OF that(1)] hex_value_facts(1) [OF that(2)] by simp
  moreover have "x < 256" if "hex_value c = Some x" for x using hex_value_facts(1) [OF that] by simp
  ultimately show ?thesis
    using hex_value_facts(3) [of c] by (auto simp: u8_from_str_radix_16_def split: option.splits if_splits)
qed

lemma go_decode_iff:
  "go_decode_string s = Ok bs \<longleftrightarrow> even (length s) \<and> ascii s \<and> 43 \<notin> set s \<and> decode_pairs s = Ok bs"
proof (induction s arbitrary: bs rule: go_decode_string.induct)
  case (3 c d cs)
  show ?case
  proof (cases "\<exists>x y. hex_value c = Some x \<and> hex_value d = Some y")
    case True
    then obtain x y where xy: "hex_value c = Some x" "hex_value d = Some y" by blast
    have "u8_from_str_radix_16 [c, d] = Ok (of_nat (16 * x + y))" using xy radix_pair by blast
    moreover have "ascii (c # d # cs) \<longleftrightarrow> ascii cs" "43 \<in> set (c # d # cs) \<longleftrightarrow> 43 \<in> set cs"
      using hex_value_facts [OF xy(1)] hex_value_facts [OF xy(2)] by (auto simp: ascii_def)
    ultimately show ?thesis using 3 [OF xy] xy by auto
  next
    case False
    then have "go_decode_string (c # d # cs) \<noteq> Ok bs" by (auto split: option.splits)
    moreover have "c = 43 \<or> u8_from_str_radix_16 [c, d] \<noteq> Ok b" for b using False radix_pair by blast
    ultimately show ?thesis by auto
  qed
qed (auto simp: ascii_def split: option.splits)

lemma go_hex_iff:
  "go_decode_fixed_hex s = Ok a \<longleftrightarrow> ascii s \<and> 43 \<notin> set s \<and> decode_fixed_hex s = Ok (a :: 'n::len arr)"
proof (cases "take 2 s = byte_string ''0x''")
  case True
  then obtain r where s: "s = byte_string ''0x'' @ r" by (metis append_take_drop_id)
  have prefix: "length (byte_string ''0x'') = 2" "43 \<notin> set (byte_string ''0x'')" "ascii (byte_string ''0x'')"
    by code_simp+
  have go: "go_decode_fixed_hex s = Ok a \<longleftrightarrow>
      (\<exists>bs. go_decode_string r = Ok bs \<and> length bs = LENGTH('n) \<and> a = arr_of bs)"
    by (auto simp: go_decode_fixed_hex_def s prefix(1))
  have rust: "decode_fixed_hex s = Ok a \<longleftrightarrow> (\<exists>bs. hex_decode r = Ok bs \<and> length bs = LENGTH('n) \<and> a = arr_of bs)"
    by (auto simp: decode_fixed_hex_def strip_prefix_def s prefix(1))
  have "go_decode_string r = Ok bs \<longleftrightarrow> ascii r \<and> 43 \<notin> set r \<and> hex_decode r = Ok bs" for bs
    using go_decode_iff hex_decode_pairs by (cases "even (length r)") (auto simp: hex_decode_def even_iff_mod_2_eq_zero)
  moreover have "ascii s \<longleftrightarrow> ascii r" "43 \<in> set s \<longleftrightarrow> 43 \<in> set r" using prefix by (simp_all add: s ascii_def)
  ultimately show ?thesis unfolding go rust by blast
next
  case False
  then have "strip_prefix (byte_string ''0x'') s = None" by (simp add: strip_prefix_def byte_string_def numeral_2_eq_2)
  with False show ?thesis by (simp add: go_decode_fixed_hex_def decode_fixed_hex_def)
qed

lemma marshalled_hex: "ascii (marshal_hex a)" "43 \<notin> set (marshal_hex a)"
proof -
  have ascii: "ascii (byte_string ''0x'')" and plus: "43 \<notin> set (byte_string ''0x'')" by code_simp+
  show "ascii (marshal_hex a)"
    using ascii ascii_hex [of "as_slice a"] by (simp add: marshal_hex_def byte_string_def ascii_def)
  have "digit_byte n \<noteq> 43" if "n < 16" for n
    using digit_byte_value [OF that] hex_value_facts(3) by blast
  moreover have "unat b div 16 < 16" for b :: u8
    using unsigned_less [of b, where 'a = nat] by (simp add: less_mult_imp_div_less)
  ultimately have "43 \<notin> set (byte_string (hex_byte b))" for b
    by (auto simp: hex_byte_def byte_string_def dest: sym)
  then have "43 \<notin> set (byte_string (concat (map hex_byte bs)))" for bs
    by (induction bs) (auto simp: byte_string_def)
  then show "43 \<notin> set (marshal_hex a)" using plus by (simp add: marshal_hex_def byte_string_def)
qed

section \<open>Properties\<close>

text \<open>
  C39: the Go decoder of addresses and hashes accepts exactly the strings that are ASCII, have
  no plus sign and are accepted by the Rust decoder, with the same bytes; both read back what
  \<open>MarshalJSON\<close> writes.  (On other strings the Go decoder returns an error, while the Rust
  decoder accepts some with a plus sign and panics on some that are not ASCII.)
\<close>

theorem hex_codecs_agree:
  "(go_decode_fixed_hex s = Ok a \<longleftrightarrow> ascii s \<and> 43 \<notin> set s \<and> decode_fixed_hex s = Ok (a :: 'n::len arr))
   \<and> decode_fixed_hex (marshal_hex a) = Ok a \<and> go_decode_fixed_hex (marshal_hex a) = Ok a"
proof -
  have rust: "decode_fixed_hex (marshal_hex a) = Ok a" by (simp only: marshal_hex_def decode_printed_hex)
  then have "go_decode_fixed_hex (marshal_hex a) = Ok a" using go_hex_iff marshalled_hex by blast
  with rust show ?thesis using go_hex_iff by blast
qed

end
