(* ===== verification/Wire_Json.thy ===== *)
theory Wire_Json
  imports Tracer Emes_Hex
begin

text \<open>
  The JSON values the Go side writes (\<open>emes/types.go\<close>: the structs with the names
  \<open>encoding/json\<close> gives their fields, \<open>FixtureEnvelope.MarshalJSON\<close>) and the fields the
  Rust side reads (\<open>runtime/bridge/src/wire.rs\<close>: the names of \<open>#[serde(rename = ..)]\<close>, the
  types of the structs).  The text of a document stays a parameter: the two JSON libraries
  are third-party code.  Shown here: every event is read as \<open>wire_event\<close> says.
\<close>

section \<open>JSON values\<close>

datatype json_value =
    JNull
  | JBool bool
  | JNumber int
  | JString str
  | JArray "json_value list"
  | JObject "(string \<times> json_value) list"

section \<open>The writer\<close>

definition json_u64 :: "u64 \<Rightarrow> json_value" where
  "json_u64 w = JNumber (uint w)"

definition json_hex :: "'n::len arr \<Rightarrow> json_value" where
  "json_hex a = JString (marshal_hex a)"

definition json_string :: "string \<Rightarrow> json_value" where
  "json_string s = JString (byte_string s)"

text \<open>The constants of \<open>FrameType\<close> and \<open>InternalErrorCode\<close> count from zero.\<close>

fun frame_type_number :: "frame_type \<Rightarrow> int" where
  "frame_type_number FrameCall = 0"
| "frame_type_number FrameCallCode = 1"
| "frame_type_number FrameDelegateCall = 2"
| "frame_type_number FrameStaticCall = 3"
| "frame_type_number FrameCreate = 4"
| "frame_type_number FrameCreate2 = 5"
| "frame_type_number FramePrecompile = 6"

fun error_code_number :: "internal_error_code \<Rightarrow> int" where
  "error_code_number ErrEmptyFrameStack = 0"
| "error_code_number ErrDuplicateExit = 1"
| "error_code_number ErrUnexpectedExit = 2"
| "error_code_number ErrSequenceOverflow = 3"

text \<open>
  The fields of a struct in order; the embedded \<open>base\<close> comes first under its tag, and a nil
  pointer is null.
\<close>

fun event_fields :: "emes_event \<Rightarrow> (string \<times> json_value) list" where
  "event_fields (BlockStartEvent d) =
     [(''EMESVersion'', json_string (gbs_emes_version d)), (''Number'', json_u64 (gbs_number d)),
      (''Timestamp'', json_u64 (gbs_timestamp d))]"
| "event_fields (TransactionStartEvent d) =
     [(''TxIndex'', json_u64 (gts_tx_index d)), (''Hash'', json_hex (gts_hash d)), (''From'', json_hex (gts_from d)),
      (''To'', case gts_to d of None \<Rightarrow> JNull | Some a \<Rightarrow> json_hex a), (''Value'', json_hex (gts_value d)),
      (''GasLimit'', json_u64 (gts_gas_limit d)), (''GasPrice'', json_hex (gts_gas_price d)),
      (''Nonce'', json_u64 (gts_nonce d))]"
| "event_fields (FrameEnterEvent d) =
     [(''FrameID'', json_u64 (gfe_frame_id d)), (''ParentFrameID'', json_u64 (gfe_parent_frame_id d)),
      (''Depth'', json_u64 (gfe_depth d)), (''Type'', JNumber (frame_type_number (gfe_type d))),
      (''From'', json_hex (gfe_from d)), (''To'', json_hex (gfe_to d))]"
| "event_fields (FrameExitEvent d) =
     [(''FrameID'', json_u64 (gfx_frame_id d)), (''Reverted'', JBool (gfx_reverted d))]"
| "event_fields (TransactionEndEvent d) =
     [(''TxIndex'', json_u64 (gte_tx_index d)), (''Reverted'', JBool (gte_reverted d))]"
| "event_fields (BlockCommitEvent d) = [(''StateRoot'', json_hex (gbc_state_root d))]"
| "event_fields (BalanceMutationEvent d) =
     [(''FrameID'', json_u64 (gbm_frame_id d)), (''Address'', json_hex (gbm_address d)),
      (''Before'', json_hex (gbm_before d)), (''After'', json_hex (gbm_after d))]"
| "event_fields (NonceMutationEvent d) =
     [(''FrameID'', json_u64 (gnm_frame_id d)), (''Address'', json_hex (gnm_address d)),
      (''Before'', json_u64 (gnm_before d)), (''After'', json_u64 (gnm_after d))]"
| "event_fields (CodeMutationEvent d) =
     [(''FrameID'', json_u64 (gcm_frame_id d)), (''Address'', json_hex (gcm_address d)),
      (''Before'', json_hex (gcm_before d)), (''After'', json_hex (gcm_after d))]"
| "event_fields (StorageMutationEvent d) =
     [(''FrameID'', json_u64 (gsm_frame_id d)), (''Address'', json_hex (gsm_address d)),
      (''Slot'', json_hex (gsm_slot d)), (''Before'', json_hex (gsm_before d)), (''After'', json_hex (gsm_after d))]"
| "event_fields (AccountCreatedEvent d) =
     [(''FrameID'', json_u64 (gac_frame_id d)), (''Address'', json_hex (gac_address d)),
      (''Creator'', json_hex (gac_creator d))]"
| "event_fields (SelfDestructEvent d) =
     [(''FrameID'', json_u64 (gsd_frame_id d)), (''Address'', json_hex (gsd_address d)),
      (''Beneficiary'', json_hex (gsd_beneficiary d))]"

definition event_json :: "emes_event \<Rightarrow> json_value" where
  "event_json e = JObject ((''sequence'', json_u64 (sequence_num e)) # event_fields e)"

text \<open>\<open>json.Marshal(e)\<close>, which cannot fail on these structs.\<close>

definition marshal_event :: "emes_event \<Rightarrow> (json_value, unit) result" where
  "marshal_event e = Ok (event_json e)"

record fixture_metadata =
  fm_profile :: string
  fm_chain_id :: "64 word" \<comment> \<open>signed\<close>
  fm_network :: string
  fm_fork :: string
  fm_client :: string
  fm_client_version :: string
  fm_block_number :: u64
  fm_transaction_hash :: b32
  fm_generator_version :: string

definition metadata_json :: "fixture_metadata \<Rightarrow> json_value" where
  "metadata_json m = JObject
     [(''profile'', json_string (fm_profile m)), (''chain_id'', JNumber (sint (fm_chain_id m))),
      (''network'', json_string (fm_network m)), (''fork'', json_string (fm_fork m)),
      (''client'', json_string (fm_client m)), (''client_version'', json_string (fm_client_version m)),
      (''block_number'', json_u64 (fm_block_number m)), (''transaction_hash'', json_hex (fm_transaction_hash m)),
      (''generator_version'', json_string (fm_generator_version m))]"

definition error_json :: "internal_tracer_error \<Rightarrow> json_value" where
  "error_json e = JObject
     [(''code'', JNumber (error_code_number (ite_code e))), (''frame_id'', json_u64 (ite_frame_id e)),
      (''sequence'', json_u64 (ite_sequence e)), (''message'', json_string (ite_message e))]"

text \<open>\<open>FixtureEnvelope.MarshalJSON\<close>; an empty list of errors is omitted.\<close>

definition tagged_json :: "emes_event \<Rightarrow> json_value" where
  "tagged_json e = JObject [(''type'', json_string (kind e)), (''data'', event_json e)]"

definition fixture_json :: "fixture_metadata \<Rightarrow> emes_event list \<Rightarrow> internal_tracer_error list \<Rightarrow> json_value" where
  "fixture_json m events errors = JObject
     ([(''metadata'', metadata_json m), (''events'', JArray (map tagged_json events))]
      @ (if errors = [] then [] else [(''errors'', JArray (map error_json errors))]))"

section \<open>The reader\<close>

datatype json_error =
    Syntax
  | Invalid_Type
  | Missing_Field string
  | Custom hex_error

text \<open>
  The derived deserializers take their fields from an object by name and ignore the others.
  (A derived deserializer also takes an array of its fields in order; no writer here makes
  one.)
\<close>

definition field :: "string \<Rightarrow> (json_value \<Rightarrow> ('a, json_error) result) \<Rightarrow> json_value \<Rightarrow> ('a, json_error) result" where
  "field name read v =
     (case v of
        JObject members \<Rightarrow> (case map_of members name of Some w \<Rightarrow> read w | None \<Rightarrow> Err (Missing_Field name))
      | _ \<Rightarrow> Err Invalid_Type)"

definition read_u64 :: "json_value \<Rightarrow> (u64, json_error) result" where
  "read_u64 v = (case v of JNumber n \<Rightarrow> if 0 \<le> n \<and> n < 2 ^ 64 then Ok (of_int n) else Err Invalid_Type | _ \<Rightarrow> Err Invalid_Type)"

definition read_bool :: "json_value \<Rightarrow> (bool, json_error) result" where
  "read_bool v = (case v of JBool b \<Rightarrow> Ok b | _ \<Rightarrow> Err Invalid_Type)"

definition read_str :: "json_value \<Rightarrow> (str, json_error) result" where
  "read_str v = (case v of JString s \<Rightarrow> Ok s | _ \<Rightarrow> Err Invalid_Type)"

definition read_hash :: "json_value \<Rightarrow> (hex_hash, json_error) result" where
  "read_hash v = bind_res (read_str v) (\<lambda>s. map_err Custom (deserialize_hash s))"

definition read_address :: "json_value \<Rightarrow> (hex_address, json_error) result" where
  "read_address v = bind_res (read_str v) (\<lambda>s. map_err Custom (deserialize_address s))"

definition read_block_start :: "json_value \<Rightarrow> (block_start_data, json_error) result" where
  "read_block_start v = bind_res (field ''Number'' read_u64 v) (\<lambda>n. Ok \<lparr>bs_number = n\<rparr>)"

definition read_transaction_start :: "json_value \<Rightarrow> (transaction_start_data, json_error) result" where
  "read_transaction_start v =
     bind_res (field ''TxIndex'' read_u64 v) (\<lambda>i.
     bind_res (field ''Hash'' read_hash v) (\<lambda>h. Ok \<lparr>st_tx_index = i, st_hash = h\<rparr>))"

definition read_transaction_end :: "json_value \<Rightarrow> (transaction_end_data, json_error) result" where
  "read_transaction_end v =
     bind_res (field ''TxIndex'' read_u64 v) (\<lambda>i.
     bind_res (field ''Reverted'' read_bool v) (\<lambda>r. Ok \<lparr>te_tx_index = i, te_reverted = r\<rparr>))"

definition read_frame_enter :: "json_value \<Rightarrow> (frame_enter_data, json_error) result" where
  "read_frame_enter v =
     bind_res (field ''FrameID'' read_u64 v) (\<lambda>f.
     bind_res (field ''ParentFrameID'' read_u64 v) (\<lambda>p.
     bind_res (field ''Depth'' read_u64 v) (\<lambda>d. Ok \<lparr>fe_frame_id = f, fe_parent_frame_id = p, fe_depth = d\<rparr>)))"

definition read_frame_exit :: "json_value \<Rightarrow> (frame_exit_data, json_error) result" where
  "read_frame_exit v =
     bind_res (field ''FrameID'' read_u64 v) (\<lambda>f.
     bind_res (field ''Reverted'' read_bool v) (\<lambda>r. Ok \<lparr>fx_frame_id = f, fx_reverted = r\<rparr>))"

definition read_balance_mutation :: "json_value \<Rightarrow> (balance_mutation_data, json_error) result" where
  "read_balance_mutation v =
     bind_res (field ''FrameID'' read_u64 v) (\<lambda>f.
     bind_res (field ''Address'' read_address v) (\<lambda>a.
     bind_res (field ''Before'' read_hash v) (\<lambda>b.
     bind_res (field ''After'' read_hash v) (\<lambda>c.
       Ok \<lparr>bm_frame_id = f, bm_address = a, bm_before = b, bm_after = c\<rparr>))))"

definition read_nonce_mutation :: "json_value \<Rightarrow> (nonce_mutation_data, json_error) result" where
  "read_nonce_mutation v =
     bind_res (field ''FrameID'' read_u64 v) (\<lambda>f.
     bind_res (field ''Address'' read_address v) (\<lambda>a.
     bind_res (field ''Before'' read_u64 v) (\<lambda>b.
     bind_res (field ''After'' read_u64 v) (\<lambda>c.
       Ok \<lparr>nm_frame_id = f, nm_address = a, nm_before = b, nm_after = c\<rparr>))))"

definition read_code_mutation :: "json_value \<Rightarrow> (code_mutation_data, json_error) result" where
  "read_code_mutation v =
     bind_res (field ''FrameID'' read_u64 v) (\<lambda>f.
     bind_res (field ''Address'' read_address v) (\<lambda>a.
     bind_res (field ''Before'' read_hash v) (\<lambda>b.
     bind_res (field ''After'' read_hash v) (\<lambda>c.
       Ok \<lparr>cm_frame_id = f, cm_address = a, cm_before = b, cm_after = c\<rparr>))))"

definition read_storage_mutation :: "json_value \<Rightarrow> (storage_mutation_data, json_error) result" where
  "read_storage_mutation v =
     bind_res (field ''FrameID'' read_u64 v) (\<lambda>f.
     bind_res (field ''Address'' read_address v) (\<lambda>a.
     bind_res (field ''Slot'' read_hash v) (\<lambda>s.
     bind_res (field ''Before'' read_hash v) (\<lambda>b.
     bind_res (field ''After'' read_hash v) (\<lambda>c.
       Ok \<lparr>sm_frame_id = f, sm_address = a, sm_slot = s, sm_before = b, sm_after = c\<rparr>)))))"

definition read_account_created :: "json_value \<Rightarrow> (account_created_data, json_error) result" where
  "read_account_created v =
     bind_res (field ''FrameID'' read_u64 v) (\<lambda>f.
     bind_res (field ''Address'' read_address v) (\<lambda>a.
     bind_res (field ''Creator'' read_address v) (\<lambda>c. Ok \<lparr>ac_frame_id = f, ac_address = a, ac_creator = c\<rparr>)))"

definition read_self_destruct :: "json_value \<Rightarrow> (self_destruct_data, json_error) result" where
  "read_self_destruct v =
     bind_res (field ''FrameID'' read_u64 v) (\<lambda>f.
     bind_res (field ''Address'' read_address v) (\<lambda>a.
     bind_res (field ''Beneficiary'' read_address v) (\<lambda>b.
       Ok \<lparr>sd_frame_id = f, sd_address = a, sd_beneficiary = b\<rparr>)))"

text \<open>\<open>TaggedEvent\<close> and \<open>Envelope\<close>.\<close>

definition read_tagged_event :: "json_value \<Rightarrow> (json_value tagged_event, json_error) result" where
  "read_tagged_event v =
     bind_res (field ''type'' read_str v) (\<lambda>k.
     bind_res (field ''data'' Ok v) (\<lambda>d. Ok \<lparr>te_kind = map (\<lambda>b. char_of (unat b)) k, te_data = d\<rparr>))"

definition read_array :: "(json_value \<Rightarrow> ('a, json_error) result) \<Rightarrow> json_value \<Rightarrow> ('a list, json_error) result" where
  "read_array read v = (case v of JArray vs \<Rightarrow> collect_res read vs | _ \<Rightarrow> Err Invalid_Type)"

definition read_envelope :: "json_value \<Rightarrow> (json_value tagged_event list, json_error) result" where
  "read_envelope v = field ''events'' (read_array read_tagged_event) v"

text \<open>The deserializers of the code, for a parser of the text.\<close>

definition json_serde :: "(str \<Rightarrow> json_value option) \<Rightarrow> (json_value, json_error) serde" where
  "json_serde parse =
     \<lparr>from_str = (\<lambda>s. bind_res (ok_or (parse s) Syntax) read_envelope),
      parse_block_start = read_block_start, parse_transaction_start = read_transaction_start,
      parse_frame_enter = read_frame_enter, parse_frame_exit = read_frame_exit,
      parse_transaction_end = read_transaction_end, parse_balance_mutation = read_balance_mutation,
      parse_nonce_mutation = read_nonce_mutation, parse_code_mutation = read_code_mutation,
      parse_storage_mutation = read_storage_mutation, parse_account_created = read_account_created,
      parse_self_destruct = read_self_destruct\<rparr>"

section \<open>Reading back\<close>

named_theorems json_simps

lemma read_written [json_simps]:
  "read_u64 (json_u64 w) = Ok w" "read_bool (JBool b) = Ok b" "read_str (json_string s) = Ok (byte_string s)"
  "read_hash (json_hex h) = Ok (HexHash h)" "read_address (json_hex a) = Ok (HexAddress a)"
proof -
  have "uint w < 2 ^ 64" using uint_lt2p [of w] by simp
  then show "read_u64 (json_u64 w) = Ok w" by (simp add: read_u64_def json_u64_def)
  have hex: "decode_fixed_hex (marshal_hex x) = Ok x" for x :: "'n::len arr"
    by (simp only: marshal_hex_def decode_printed_hex)
  show "read_hash (json_hex h) = Ok (HexHash h)" "read_address (json_hex a) = Ok (HexAddress a)"
    by (simp_all add: read_hash_def read_address_def json_hex_def read_str_def deserialize_hash_def deserialize_address_def hex)
qed (simp_all add: read_bool_def read_str_def json_string_def)

lemma field_object [json_simps]:
  "field name read (JObject fs) = (case map_of fs name of Some w \<Rightarrow> read w | None \<Rightarrow> Err (Missing_Field name))"
  by (simp add: field_def)

lemmas reader_defs = read_block_start_def read_transaction_start_def read_transaction_end_def read_frame_enter_def
  read_frame_exit_def read_balance_mutation_def read_nonce_mutation_def read_code_mutation_def
  read_storage_mutation_def read_account_created_def read_self_destruct_def

lemma char_of_byte_string: "map (\<lambda>b. char_of (unat b)) (byte_string s) = s"
proof -
  have "char_of (unat (of_char c :: u8)) = c" for c
  proof -
    have "of_char c = (of_nat (of_char c) :: u8)" by (cases c) simp
    then have "unat (of_char c :: u8) = of_char c mod 256" by (simp only:) (simp add: unat_of_nat)
    then show ?thesis by simp
  qed
  then show ?thesis by (simp add: byte_string_def comp_def)
qed

lemma read_tagged: "read_tagged_event (tagged_json e) = Ok \<lparr>te_kind = kind e, te_data = event_json e\<rparr>"
  by (simp add: read_tagged_event_def tagged_json_def json_simps char_of_byte_string)

lemma read_fixture:
  "read_envelope (fixture_json m es errs) = Ok (map (\<lambda>e. \<lparr>te_kind = kind e, te_data = event_json e\<rparr>) es)"
proof -
  have "collect_res read_tagged_event (map tagged_json es) = Ok (map (\<lambda>e. \<lparr>te_kind = kind e, te_data = event_json e\<rparr>) es)"
    by (induction es) (simp_all add: read_tagged)
  then show ?thesis by (simp add: read_envelope_def fixture_json_def json_simps read_array_def)
qed

lemma parse_tagged_json: "parse_tagged (json_serde parse) \<lparr>te_kind = kind e, te_data = event_json e\<rparr> = Ok (wire_event e)"
  by (cases e) (simp_all add: parse_tagged_def json_serde_def event_json_def reader_defs json_simps)

lemma parse_fixture:
  "parse json = Some (fixture_json m es errs) \<Longrightarrow> parse_event_stream (json_serde parse) json = Ok (map wire_event es)"
proof -
  have "collect_res (parse_tagged (json_serde parse)) (map (\<lambda>e. \<lparr>te_kind = kind e, te_data = event_json e\<rparr>) es)
      = Ok (map wire_event es)"
    by (induction es) (simp_all add: parse_tagged_json)
  moreover assume "parse json = Some (fixture_json m es errs)"
  ultimately show ?thesis by (simp add: parse_event_stream_def json_serde_def read_fixture)
qed

section \<open>Properties\<close>

text \<open>
  C31: what the Go side writes the Rust side reads.  When the parser of JSON texts yields for
  a document the value that \<open>FixtureEnvelope.MarshalJSON\<close> wrote of some events,
  \<open>parse_event_stream\<close> returns exactly those events, in order, each with the fields the
  bridge uses, whatever the metadata and the recorded tracer errors.
\<close>

theorem documents_read_back:
  assumes "parse json = Some (fixture_json m events errors)"
  shows "parse_event_stream (json_serde parse) json = Ok (map wire_event events)"
  using assms by (rule parse_fixture)

definition sample_metadata :: fixture_metadata where
  "sample_metadata = \<lparr>fm_profile = ''EMES-V1'', fm_chain_id = 1, fm_network = ''mainnet'', fm_fork = ''prague'',
     fm_client = ''geth'', fm_client_version = ''1'', fm_block_number = 5, fm_transaction_hash = arr_fill 8,
     fm_generator_version = ''1''\<rparr>"

theorem documents_read_back_witness:
  "parse_event_stream (json_serde (\<lambda>_. Some (fixture_json sample_metadata
      [FrameEnterEvent \<lparr>base_sequence = 4, gfe_frame_id = 0, gfe_parent_frame_id = NO_FRAME, gfe_depth = 1,
         gfe_type = FrameCall, gfe_from = arr_fill 1, gfe_to = arr_fill 2\<rparr>,
       NonceMutationEvent \<lparr>base_sequence = 5, gnm_frame_id = 0, gnm_address = arr_fill 1, gnm_before = 6, gnm_after = 7\<rparr>]
      [\<lparr>ite_code = ErrDuplicateExit, ite_frame_id = 0, ite_sequence = 5, ite_message = ''exit''\<rparr>]))) []
   = Ok [FrameEnter \<lparr>fe_frame_id = 0, fe_parent_frame_id = NO_FRAME, fe_depth = 1\<rparr>,
         NonceMutation \<lparr>nm_frame_id = 0, nm_address = HexAddress (arr_fill 1), nm_before = 6, nm_after = 7\<rparr>]"
  by (subst documents_read_back [OF refl]) simp

end
