(* ===== verification/BTreeMap.thy ===== *)
theory BTreeMap
  imports Prelude "HOL-Library.Product_Lexorder"
begin

text \<open>
  \<open>std::collections::BTreeMap\<close>: an ordered map, modelled by its list of entries in
  strictly increasing key order.  Two maps with the same bindings are equal, and
  iteration order is a function of the bindings alone; the code relies on both for
  its determinism.  The locale \<open>ordered_map\<close> is the interface the components use,
  with the laws of lookup after insertion and of iteration; the facts about the
  code's loops that fill a map entry by entry are proved in it.
\<close>

section \<open>The interface\<close>

locale ordered_map =
  fixes new :: "'m"
    and insert_kv :: "'k::linorder \<Rightarrow> 'v \<Rightarrow> 'm \<Rightarrow> 'm"
    and get :: "'m \<Rightarrow> 'k \<Rightarrow> 'v option"
    and iter :: "'m \<Rightarrow> ('k \<times> 'v) list"
  assumes get_new: "get new k = None"
    and get_insert: "get (insert_kv k v m) j = (if j = k then Some v else get m j)"
    and iter_sorted: "sorted_wrt (<) (map fst (iter m))"
    and get_iter: "get m k = map_of (iter m) k"
    and iter_inject: "iter m = iter m' \<Longrightarrow> m = m'"
begin

lemma iter_distinct: "distinct (map fst (iter m))"
  using iter_sorted by (simp add: strict_sorted_iff)

lemma in_iter_iff: "(k, v) \<in> set (iter m) \<longleftrightarrow> get m k = Some v"
  by (simp add: get_iter iter_distinct)

lemma in_keys_iff: "k \<in> fst ` set (iter m) \<longleftrightarrow> get m k \<noteq> None"
  using map_of_eq_None_iff [of "iter m" k] by (auto simp: get_iter)

text \<open>A map is determined by its bindings: the iteration order carries no information.\<close>

lemma map_ext:
  assumes "\<And>k. get m k = get m' k"
  shows "m = m'"
proof (rule iter_inject)
  have keys: "set (map fst (iter m)) = set (map fst (iter m'))"
    unfolding list.set_map by (rule set_eqI) (simp only: in_keys_iff assms)
  have fst_eq: "map fst (iter m) = map fst (iter m')"
    using strict_sorted_equal [OF iter_sorted iter_sorted keys] by simp
  show "iter m = iter m'"
  proof (rule nth_equalityI)
    show len: "length (iter m) = length (iter m')"
      using fst_eq by (metis length_map)
    fix i assume i: "i < length (iter m)"
    obtain k v where kv: "iter m ! i = (k, v)" by force
    obtain k' v' where kv': "iter m' ! i = (k', v')" by force
    have "k = k'" using fst_eq i len kv kv' by (metis fst_conv nth_map)
    moreover have "get m k = Some v" "get m' k' = Some v'"
      using i len kv kv' by (metis in_iter_iff nth_mem)+
    ultimately show "iter m ! i = iter m' ! i" using assms kv kv' by simp
  qed
qed

text \<open>
  The loop \<open>for x in xs { let e = m.entry(key(x)).or_insert_with(..); .. }\<close>: the
  value a key ends with is the fold of the elements with that key, in their order.
\<close>

lemma get_foldl_upsert:
  "get (foldl (\<lambda>m x. insert_kv (key x) (up x (get m (key x))) m) m xs) k =
     foldl (\<lambda>v x. Some (up x v)) (get m k) (filter (\<lambda>x. key x = k) xs)"
  by (induction xs arbitrary: m) (auto simp: get_insert)

text \<open>\<open>collect()\<close> into a map: later bindings of a key win.\<close>

lemma get_foldl_insert:
  "get (foldl (\<lambda>m (k, v). insert_kv k v m) m kvs) k =
     (case map_of (rev kvs) k of None \<Rightarrow> get m k | Some v \<Rightarrow> Some v)"
proof (induction kvs arbitrary: m)
  case (Cons kv kvs)
  then show ?case
    by (cases kv) (auto simp: get_insert map_add_def split: option.splits)
qed simp

end

section \<open>The map as its sorted entries\<close>

typedef (overloaded) ('k, 'v) btree_map =
    "{es :: ('k::linorder \<times> 'v) list. sorted_wrt (<) (map fst es)}"
  morphisms entries Abs_btree_map
proof
  show "[] \<in> {es :: ('k \<times> 'v) list. sorted_wrt (<) (map fst es)}" by simp
qed

lemma Abs_btree_map_entries [code abstype]: "Abs_btree_map (entries m) = m"
  by (rule entries_inverse)

lemma sorted_entries [simp]: "sorted_wrt (<) (map fst (entries m))"
  using entries [of m] by simp

text \<open>
  Equality of maps, comparing keys by their order (\<open>derive(PartialEq)\<close> compares the
  entries in order).
\<close>

definition same_binding :: "'k::linorder \<times> 'v::equal \<Rightarrow> 'k \<times> 'v \<Rightarrow> bool" where
  "same_binding e e' \<longleftrightarrow> \<not> fst e < fst e' \<and> \<not> fst e' < fst e \<and> HOL.equal (snd e) (snd e')"

lemma same_binding_iff: "same_binding e e' \<longleftrightarrow> e = e'"
  by (cases e; cases e') (auto simp: same_binding_def equal_eq)

instantiation btree_map :: (linorder, equal) equal
begin
definition equal_btree_map :: "('a, 'b) btree_map \<Rightarrow> ('a, 'b) btree_map \<Rightarrow> bool" where
  "equal_btree_map m m' \<longleftrightarrow> list_all2 same_binding (entries m) (entries m')"
instance
  by standard (simp add: equal_btree_map_def same_binding_iff [abs_def] list.rel_eq entries_inject)
end

definition bt_new :: "('k::linorder, 'v) btree_map" where
  "bt_new = Abs_btree_map []"

lemma entries_new [simp, code abstract]: "entries bt_new = []"
  by (simp add: bt_new_def Abs_btree_map_inverse)

fun insert_sorted :: "'k::linorder \<Rightarrow> 'v \<Rightarrow> ('k \<times> 'v) list \<Rightarrow> ('k \<times> 'v) list" where
  "insert_sorted k v [] = [(k, v)]"
| "insert_sorted k v ((j, w) # es) =
     (if k < j then (k, v) # (j, w) # es
      else if k = j then (k, v) # es
      else (j, w) # insert_sorted k v es)"

lemma fst_insert_sorted: "fst ` set (insert_sorted k v es) = insert k (fst ` set es)"
  by (induction es rule: insert_sorted.induct) auto

lemma sorted_insert_sorted:
  "sorted_wrt (<) (map fst es) \<Longrightarrow> sorted_wrt (<) (map fst (insert_sorted k v es))"
proof (induction k v es rule: insert_sorted.induct)
  case (2 k v j w es)
  have "\<forall>x \<in> fst ` set (insert_sorted k v es). j < x" if "\<not> k < j" "k \<noteq> j"
    using 2 that by (auto simp: fst_insert_sorted)
  with 2 show ?case by (auto intro: less_trans)
qed simp

lemma map_of_insert_sorted:
  "sorted_wrt (<) (map fst es) \<Longrightarrow> map_of (insert_sorted k v es) = (map_of es)(k \<mapsto> v)"
  by (induction k v es rule: insert_sorted.induct) (auto simp: fun_eq_iff)

definition bt_insert :: "'k::linorder \<Rightarrow> 'v \<Rightarrow> ('k, 'v) btree_map \<Rightarrow> ('k, 'v) btree_map" where
  "bt_insert k v m = Abs_btree_map (insert_sorted k v (entries m))"

lemma entries_insert [simp, code abstract]:
  "entries (bt_insert k v m) = insert_sorted k v (entries m)"
  by (simp add: bt_insert_def Abs_btree_map_inverse sorted_insert_sorted)

definition bt_get :: "('k::linorder, 'v) btree_map \<Rightarrow> 'k \<Rightarrow> 'v option" where
  "bt_get m k = map_of (entries m) k"

interpretation bt: ordered_map bt_new bt_insert bt_get entries
  by unfold_locales
    (auto simp: bt_get_def map_of_insert_sorted entries_inject)

lemma bt_get_new [simp]: "bt_get bt_new k = None"
  by (rule bt.get_new)

lemma bt_get_insert [simp]: "bt_get (bt_insert k v m) j = (if j = k then Some v else bt_get m j)"
  by (rule bt.get_insert)

text \<open>\<open>contains_key\<close>, \<open>keys\<close>, \<open>values\<close>, and \<open>collect\<close>.\<close>

definition bt_contains_key :: "('k::linorder, 'v) btree_map \<Rightarrow> 'k \<Rightarrow> bool" where
  "bt_contains_key m k \<longleftrightarrow> bt_get m k \<noteq> None"

definition bt_values :: "('k::linorder, 'v) btree_map \<Rightarrow> 'v list" where
  "bt_values m = map snd (entries m)"

definition bt_keys :: "('k::linorder, 'v) btree_map \<Rightarrow> 'k list" where
  "bt_keys m = map fst (entries m)"

definition bt_of_list :: "('k::linorder \<times> 'v) list \<Rightarrow> ('k, 'v) btree_map" where
  "bt_of_list kvs = foldl (\<lambda>m (k, v). bt_insert k v m) bt_new kvs"

lemma bt_get_of_list:
  "distinct (map fst kvs) \<Longrightarrow> bt_get (bt_of_list kvs) k = map_of kvs k"
  unfolding bt_of_list_def
  by (subst bt.get_foldl_insert) (simp add: map_of_rev split: option.split)

lemma bt_of_list_entries [simp]: "bt_of_list (entries m) = m"
  by (rule bt.map_ext, subst bt_get_of_list) (simp_all add: bt.iter_distinct bt.get_iter)

lemma bt_keys_sorted: "sorted_wrt (<) (bt_keys m)"
  by (simp add: bt_keys_def)

lemma set_bt_keys: "set (bt_keys m) = {k. bt_get m k \<noteq> None}"
  using bt.in_keys_iff by (auto simp: bt_keys_def)

section \<open>Entry and traversal\<close>

text \<open>
  \<open>m.entry(k).or_insert_with(|| d)\<close> followed by a change of the value it refers to.
\<close>

definition bt_entry ::
    "'k::linorder \<Rightarrow> 'v \<Rightarrow> ('v \<Rightarrow> 'v) \<Rightarrow> ('k, 'v) btree_map \<Rightarrow> ('k, 'v) btree_map" where
  "bt_entry k d f m = bt_insert k (f (case bt_get m k of Some v \<Rightarrow> v | None \<Rightarrow> d)) m"

lemma bt_get_entry [simp]:
  "bt_get (bt_entry k d f m) j =
     (if j = k then Some (f (case bt_get m k of Some v \<Rightarrow> v | None \<Rightarrow> d)) else bt_get m j)"
  by (simp add: bt_entry_def)

text \<open>
  \<open>for (k, v) in m { out.insert(k, f(k, v)?); }\<close>, and the same loop written as
  \<open>m.into_iter().map(..).collect::<Result<BTreeMap<_, _>, _>>()\<close>: in key order,
  stopping at the first error.
\<close>

definition bt_traverse ::
    "('k::linorder \<Rightarrow> 'v \<Rightarrow> ('w, 'e) result) \<Rightarrow> ('k, 'v) btree_map \<Rightarrow> (('k, 'w) btree_map, 'e) result" where
  "bt_traverse f m =
     fold_res (\<lambda>out (k, v). bind_res (f k v) (\<lambda>w. Ok (bt_insert k w out))) bt_new (entries m)"

lemma fold_traverse_collect:
  "fold_res (\<lambda>out (k, v). bind_res (f k v) (\<lambda>w. Ok (bt_insert k w out))) out es =
     bind_res (collect_res (\<lambda>(k, v). bind_res (f k v) (\<lambda>w. Ok (k, w))) es)
       (\<lambda>ws. Ok (foldl (\<lambda>out (k, w). bt_insert k w out) out ws))"
  by (induction es arbitrary: out) (auto simp: bind_res_assoc split_def)

lemma bt_traverse_collect:
  "bt_traverse f m =
     bind_res (collect_res (\<lambda>(k, v). bind_res (f k v) (\<lambda>w. Ok (k, w))) (entries m))
       (\<lambda>ws. Ok (bt_of_list ws))"
  by (simp add: bt_traverse_def fold_traverse_collect bt_of_list_def)

lemma list_all2_map_of:
  "list_all2 (\<lambda>(k, v) (j, w). j = k \<and> R k v w) es ws \<Longrightarrow>
    map fst ws = map fst es \<and> rel_option (R k) (map_of es k) (map_of ws k)"
  by (induction rule: list_all2_induct) auto

lemma bt_traverse_get:
  assumes "bt_traverse f m = Ok m'"
  shows "rel_option (\<lambda>v w. f k v = Ok w) (bt_get m k) (bt_get m' k)"
proof -
  obtain ws where ws: "collect_res (\<lambda>(k, v). bind_res (f k v) (\<lambda>w. Ok (k, w))) (entries m) = Ok ws"
    and m': "m' = bt_of_list ws"
    using assms by (auto simp: bt_traverse_collect)
  have all2: "list_all2 (\<lambda>(k, v) (j, w). j = k \<and> f k v = Ok w) (entries m) ws"
    using ws unfolding collect_res_eq_Ok by (rule list.rel_mono_strong) auto
  note * = list_all2_map_of [OF all2]
  have "distinct (map fst ws)" using * bt.iter_distinct [of m] by simp
  then have "bt_get m' k = map_of ws k" by (simp add: m' bt_get_of_list)
  with * show ?thesis by (simp add: bt_get_def)
qed

lemma bt_traverse_Ok_iff:
  "bt_traverse f m = Ok m' \<longleftrightarrow> (\<forall>k. rel_option (\<lambda>v w. f k v = Ok w) (bt_get m k) (bt_get m' k))"
proof
  assume r: "\<forall>k. rel_option (\<lambda>v w. f k v = Ok w) (bt_get m k) (bt_get m' k)"
  have "collect_res (\<lambda>(k, v). bind_res (f k v) (\<lambda>w. Ok (k, w))) (entries m)
      = Ok (map (\<lambda>(k, v). (k, the (bt_get m' k))) (entries m))"
  proof (rule collect_res_all_Ok)
    fix kv assume "kv \<in> set (entries m)"
    moreover obtain k v where kv: "kv = (k, v)" by force
    ultimately have "bt_get m k = Some v" using bt.in_iter_iff by metis
    then obtain w where "f k v = Ok w" "bt_get m' k = Some w"
      using r [rule_format, of k] by (auto simp: option_rel_Some1)
    then show "(case kv of (k, v) \<Rightarrow> bind_res (f k v) (\<lambda>w. Ok (k, w)))
      = Ok (case kv of (k, v) \<Rightarrow> (k, the (bt_get m' k)))"
      by (simp add: kv)
  qed
  then obtain m'' where m'': "bt_traverse f m = Ok m''" by (simp add: bt_traverse_collect)
  have "bt_get m'' k = bt_get m' k" for k
    using r [rule_format, of k] bt_traverse_get [OF m'', of k]
    by (cases "bt_get m k") (auto simp: option_rel_Some1)
  then have "m'' = m'" by (rule bt.map_ext)
  with m'' show "bt_traverse f m = Ok m'" by simp
qed (blast intro: bt_traverse_get)

lemma collect_res_eq_Err:
  "collect_res f xs = Err e \<longleftrightarrow>
     (\<exists>ys x zs. xs = ys @ x # zs \<and> (\<forall>y \<in> set ys. is_ok (f y)) \<and> f x = Err e)"
proof (induction xs)
  case (Cons a xs)
  show ?case
  proof (cases "f a")
    case (Ok b)
    then show ?thesis
      by (auto simp: Cons.IH Cons_eq_append_conv) (metis append_Cons is_ok.simps(1) set_ConsD)+
  next
    case (Err e')
    then show ?thesis by (auto simp: Cons_eq_append_conv intro: exI [of _ "[]"])
  next
    case Panic
    then show ?thesis by (auto simp: Cons_eq_append_conv)
  qed
qed simp

text \<open>The error of a traversal is the error at the least key that has one.\<close>

lemma bt_traverse_Err_iff:
  "bt_traverse f m = Err e \<longleftrightarrow>
     (\<exists>es k v es'. entries m = es @ (k, v) # es' \<and> (\<forall>(j, w) \<in> set es. is_ok (f j w))
       \<and> f k v = Err e)"
  unfolding bt_traverse_collect
  by (auto simp: collect_res_eq_Err is_ok_iff split_def)

lemma bt_traverse_no_Panic: "(\<And>k v. f k v \<noteq> Panic) \<Longrightarrow> bt_traverse f m \<noteq> Panic"
  using collect_res_no_Panic [of "entries m" "\<lambda>(k, v). bind_res (f k v) (\<lambda>w. Ok (k, w))"]
  by (auto simp: bt_traverse_collect)

section \<open>Mapping\<close>

definition bt_map :: "('k::linorder \<Rightarrow> 'v \<Rightarrow> 'w) \<Rightarrow> ('k, 'v) btree_map \<Rightarrow> ('k, 'w) btree_map" where
  "bt_map h m = bt_of_list (map (\<lambda>(k, v). (k, h k v)) (entries m))"

lemma map_fst_map: "map fst (map (\<lambda>(k, v). (k, h k v)) es) = map fst es"
  by (simp add: split_def comp_def)

lemma map_of_map_key: "map_of (map (\<lambda>(k, v). (k, h k v)) es) k = map_option (h k) (map_of es k)"
  by (induction es) auto

lemma bt_get_map [simp]: "bt_get (bt_map h m) k = map_option (h k) (bt_get m k)"
  unfolding bt_map_def
  by (subst bt_get_of_list) (simp_all only: map_fst_map bt.iter_distinct map_of_map_key bt.get_iter)

lemma entries_map_option:
  assumes "\<And>k. bt_get m' k = map_option f (bt_get m k)"
  shows "entries m' = map (\<lambda>(k, v). (k, f v)) (entries m)"
proof -
  let ?es = "map (\<lambda>(k, v). (k, f v)) (entries m)"
  have inv: "entries (Abs_btree_map ?es) = ?es"
    using sorted_entries [of m] by (intro Abs_btree_map_inverse) (simp only: mem_Collect_eq map_fst_map)
  have "bt_get m' k = bt_get (Abs_btree_map ?es) k" for k
    unfolding bt.get_iter [of "Abs_btree_map ?es"] inv map_of_map_key assms bt.get_iter [of m] by simp
  then have "m' = Abs_btree_map ?es" by (rule bt.map_ext)
  with inv show ?thesis by simp
qed

text \<open>A traversal of a map that is the image of another, followed by a pure map.\<close>

lemma collect_res_fusion:
  "(\<And>x. x \<in> set xs \<Longrightarrow> g x = map_res h (f (p x))) \<Longrightarrow>
    collect_res g xs = map_res (map h) (collect_res f (map p xs))"
proof (induction xs)
  case (Cons x xs)
  then have "g x = map_res h (f (p x))" "collect_res g xs = map_res (map h) (collect_res f (map p xs))"
    by auto
  then show ?case by (cases "f (p x)"; cases "collect_res f (map p xs)") auto
qed simp

lemma bt_of_list_map:
  assumes "distinct (map fst ws)"
  shows "bt_of_list (map (\<lambda>(k, w). (k, h k w)) ws) = bt_map h (bt_of_list ws)"
  by (rule bt.map_ext) (simp only: bt_get_of_list assms map_fst_map map_of_map_key bt_get_map)

lemma bt_traverse_fusion:
  assumes image: "\<And>k. bt_get m' k = map_option p (bt_get m k)"
    and fuse: "\<And>k v. bt_get m k = Some v \<Longrightarrow> g k v = map_res (h k) (f k (p v))"
  shows "bt_traverse g m = map_res (bt_map h) (bt_traverse f m')"
proof -
  let ?f = "\<lambda>(k, v). bind_res (f k v) (\<lambda>w. Ok (k, w))"
  have m': "entries m' = map (\<lambda>(k, v). (k, p v)) (entries m)"
    by (rule entries_map_option [OF image])
  have "(case kv of (k, v) \<Rightarrow> bind_res (g k v) (\<lambda>w. Ok (k, w))) =
      map_res (\<lambda>(k, w). (k, h k w)) (?f (case kv of (k, v) \<Rightarrow> (k, p v)))"
    if "kv \<in> set (entries m)" for kv
  proof -
    obtain k v where kv: "kv = (k, v)" by force
    with that fuse have "g k v = map_res (h k) (f k (p v))" by (simp add: bt.in_iter_iff)
    then show ?thesis by (cases "f k (p v)") (simp_all add: kv)
  qed
  then have "collect_res (\<lambda>(k, v). bind_res (g k v) (\<lambda>w. Ok (k, w))) (entries m) =
      map_res (map (\<lambda>(k, w). (k, h k w))) (collect_res ?f (entries m'))"
    unfolding m' by (rule collect_res_fusion)
  moreover have "distinct (map fst ws)" if "collect_res ?f (entries m') = Ok ws" for ws
  proof -
    have "list_all2 (\<lambda>(k, v) (j, w). j = k \<and> f k v = Ok w) (entries m') ws"
      using that unfolding collect_res_eq_Ok by (rule list.rel_mono_strong) auto
    then have "map fst ws = map fst (entries m')"
      by (induction rule: list_all2_induct) auto
    then show ?thesis by (simp add: bt.iter_distinct)
  qed
  ultimately show ?thesis
    unfolding bt_traverse_collect
    by (cases "collect_res ?f (entries m')") (simp_all add: bt_of_list_map)
qed

lemma bt_traverse_map_Ok:
  "(\<And>k v. bt_get m k = Some v \<Longrightarrow> f k v = Ok (h k v)) \<Longrightarrow> bt_traverse f m = Ok (bt_map h m)"
  unfolding bt_traverse_Ok_iff
proof
  fix k assume "\<And>k v. bt_get m k = Some v \<Longrightarrow> f k v = Ok (h k v)"
  then show "rel_option (\<lambda>v w. f k v = Ok w) (bt_get m k) (bt_get (bt_map h m) k)"
    by (cases "bt_get m k") auto
qed

end
