(* ===== verification/Timeline.thy ===== *)
theory Timeline
  imports Cse BTreeMap
begin

text \<open>
  The intermediate representation of \<open>runtime/builder\<close>: event identifiers and
  provenance, canonical keys, timelines and their reduction (\<open>ir/timeline.rs\<close>,
  \<open>traits.rs\<close>, \<open>errors.rs\<close>), the raw buckets the partition stage fills and the
  reduced ones (\<open>ir/reduced.rs\<close>).
\<close>

section \<open>Identifiers and provenance (ir/timeline.rs)\<close>

datatype event_id = EventId (event_ordinal: u64)

text \<open>
  The execution coordinate of a lifecycle event; \<open>usize\<close> is 64 bits.  Its \<open>Eq\<close> and
  \<open>Ord\<close> are written by hand and look at the trace ordinal only: \<open>tp_eq\<close> and
  \<open>tp_cmp\<close>, while HOL's equality compares all fields.
\<close>

record trace_provenance =
  trace_ordinal :: u64
  tx_index :: u64
  frame_id :: u64
  tp_call_depth :: u64
  frame_ordinal :: u32

definition default_provenance :: trace_provenance where
  "default_provenance =
     \<lparr>trace_ordinal = 0, tx_index = 0, frame_id = 0, tp_call_depth = 0, frame_ordinal = 0\<rparr>"

definition tp_eq :: "trace_provenance \<Rightarrow> trace_provenance \<Rightarrow> bool" where
  "tp_eq a b \<longleftrightarrow> trace_ordinal a = trace_ordinal b"

datatype ordering = Less | Equal | Greater

definition cmp :: "'a::linorder \<Rightarrow> 'a \<Rightarrow> ordering" where
  "cmp a b = (if a < b then Less else if a = b then Equal else Greater)"

definition tp_cmp :: "trace_provenance \<Rightarrow> trace_provenance \<Rightarrow> ordering" where
  "tp_cmp a b = cmp (trace_ordinal a) (trace_ordinal b)"

text \<open>\<open>Ordering::then\<close>: the first comparison that is not a tie decides.\<close>

fun then_cmp :: "ordering \<Rightarrow> ordering \<Rightarrow> ordering" where
  "then_cmp Equal o2 = o2"
| "then_cmp o1 o2 = o1"

text \<open>\<open>Provenance\<close>: the set of events a reduced value comes from.\<close>

datatype provenance = Provenance (provenance_ids: "event_id set")

definition new_provenance :: provenance where
  "new_provenance = Provenance {}"

fun record_event :: "provenance \<Rightarrow> event_id \<Rightarrow> provenance" where
  "record_event (Provenance ids) i = Provenance (insert i ids)"

section \<open>Canonical keys\<close>

datatype canonical_key =
    BalanceKey address
  | NonceKey address
  | CodeKey address
  | StorageKey address b32
  | TransientKey address b32

fun key_address :: "canonical_key \<Rightarrow> address" where
  "key_address (BalanceKey a) = a"
| "key_address (NonceKey a) = a"
| "key_address (CodeKey a) = a"
| "key_address (StorageKey a s) = a"
| "key_address (TransientKey a s) = a"

text \<open>\<open>derive(Ord)\<close>: by variant in declaration order, then by the fields.\<close>

fun key_variant :: "canonical_key \<Rightarrow> nat" where
  "key_variant (BalanceKey a) = 0"
| "key_variant (NonceKey a) = 1"
| "key_variant (CodeKey a) = 2"
| "key_variant (StorageKey a s) = 3"
| "key_variant (TransientKey a s) = 4"

fun key_slot :: "canonical_key \<Rightarrow> b32 option" where
  "key_slot (StorageKey a s) = Some s"
| "key_slot (TransientKey a s) = Some s"
| "key_slot k = None"

definition key_rank :: "canonical_key \<Rightarrow> nat \<times> address \<times> b32" where
  "key_rank k = (key_variant k, key_address k,
     (case key_slot k of Some s \<Rightarrow> s | None \<Rightarrow> arr_fill 0))"

lemma key_rank_inject: "key_rank k = key_rank l \<longleftrightarrow> k = l"
  by (cases k; cases l) (auto simp: key_rank_def)

instantiation canonical_key :: linorder
begin
definition less_eq_canonical_key :: "canonical_key \<Rightarrow> canonical_key \<Rightarrow> bool" where
  "k \<le> l \<longleftrightarrow> key_rank k \<le> key_rank l"
definition less_canonical_key :: "canonical_key \<Rightarrow> canonical_key \<Rightarrow> bool" where
  "k < l \<longleftrightarrow> key_rank k < key_rank l"
instance
  by standard (auto simp: less_eq_canonical_key_def less_canonical_key_def key_rank_inject
      less_le_not_le)
end

section \<open>Timelines and their reduction\<close>

record 'v observed_transition =
  before :: 'v
  after :: 'v
  ot_event_id :: event_id

record 'v timeline =
  history :: "'v observed_transition list"

definition new_timeline :: "'v timeline" where
  "new_timeline = \<lparr>history = []\<rparr>"

definition push :: "'v timeline \<Rightarrow> 'v \<Rightarrow> 'v \<Rightarrow> event_id \<Rightarrow> 'v timeline" where
  "push t b a i = t\<lparr>history := history t @ [\<lparr>before = b, after = a, ot_event_id = i\<rparr>]\<rparr>"

text \<open>\<open>errors.rs\<close> and \<open>traits.rs\<close>.\<close>

datatype timeline_error =
    EmptyTimeline
  | DiscontinuousLineage event_id event_id \<comment> \<open>previous, current\<close>

datatype lifecycle_state = Existed | Created_State | Destroyed_State

datatype lifecycle_event = CreateAction | DestroyAction

datatype builder_error =
    EventOutsideTransaction
  | UnexpectedTransactionBoundary
  | DuplicateTransactionBoundary
  | TimelineFailure timeline_error
  | InvalidLifecycle address lifecycle_state lifecycle_event

record 'v reduced_transition =
  initial :: 'v
  terminal :: 'v
  rt_provenance :: provenance

text \<open>
  The loop of \<open>Timeline::reduce\<close> over the observations after the first, with the
  loop's variables: the value reached, the last event and the provenance.
\<close>

fun reduce_loop :: "'v \<Rightarrow> event_id \<Rightarrow> provenance \<Rightarrow> 'v observed_transition list
    \<Rightarrow> ('v \<times> provenance, timeline_error) result" where
  "reduce_loop current_after last_id prov [] = Ok (current_after, prov)"
| "reduce_loop current_after last_id prov (ob # obs) =
     (if before ob \<noteq> current_after
      then Err (DiscontinuousLineage last_id (ot_event_id ob))
      else reduce_loop (after ob) (ot_event_id ob) (record_event prov (ot_event_id ob)) obs)"

definition reduce :: "'v timeline \<Rightarrow> ('v reduced_transition, timeline_error) result" where
  "reduce t =
     (case history t of
        [] \<Rightarrow> Err EmptyTimeline
      | first # rest \<Rightarrow>
          bind_res
            (reduce_loop (after first) (ot_event_id first)
               (record_event new_provenance (ot_event_id first)) rest)
            (\<lambda>(current_after, prov).
               Ok \<lparr>initial = before first, terminal = current_after, rt_provenance = prov\<rparr>))"

section \<open>The buckets (ir/timeline.rs, ir/reduced.rs)\<close>

record transaction_metadata =
  tm_chain_id :: u64
  tm_block_number :: u64
  tm_block_hash :: b32
  tm_transaction_hash :: b32
  tm_transaction_index :: u32

datatype timeline_variant =
    BalanceTl "b32 timeline"
  | NonceTl "u64 timeline"
  | CodeTl "b32 timeline"
  | StorageTl "b32 timeline"
  | TransientTl "b32 timeline"

datatype lifecycle_payload = Created contract_created | Destroyed contract_destroyed

record observed_lifecycle =
  lifecycle_payload :: lifecycle_payload
  ol_event_id :: event_id
  ol_provenance :: trace_provenance

record observed_log =
  log_payload :: log_emitted
  log_event_id :: event_id

record transaction_bucket =
  metadata :: transaction_metadata
  state_tables :: "(canonical_key, timeline_variant) btree_map"
  lifecycle_table :: "(address, observed_lifecycle list) btree_map"
  log_table :: "(address, observed_log list) btree_map"
  gas_refund_timeline :: "u64 timeline option"

datatype raw_ir = RawIr (raw_buckets: "transaction_bucket list")

datatype reduced_variant =
    BalanceRt "b32 reduced_transition"
  | NonceRt "u64 reduced_transition"
  | CodeRt "b32 reduced_transition"
  | StorageRt "b32 reduced_transition"
  | TransientRt "b32 reduced_transition"

record reduced_bucket =
  rb_metadata :: transaction_metadata
  state_table :: "(canonical_key, reduced_variant) btree_map"
  rb_lifecycle_table :: "(address, observed_lifecycle list) btree_map"
  rb_log_table :: "(address, observed_log list) btree_map"
  gas_refund :: "u64 reduced_transition option"

datatype reduced_ir = ReducedIr (reduced_buckets: "reduced_bucket list")

section \<open>What the reduction computes\<close>

text \<open>
  The specification: the observations form one chain of values, and the reduction is
  its first and last value with the set of its events.
\<close>

definition chained :: "'v observed_transition list \<Rightarrow> bool" where
  "chained obs \<longleftrightarrow> successively (\<lambda>a b. before b = after a) obs"

definition event_ids :: "'v observed_transition list \<Rightarrow> event_id set" where
  "event_ids obs = ot_event_id ` set obs"

lemma chained_simps [simp]:
  "chained []" "chained [ob]"
  "chained (a # b # obs) \<longleftrightarrow> before b = after a \<and> chained (b # obs)"
  by (simp_all add: chained_def)

lemma history_push [simp]:
  "history (push t b a i) = history t @ [\<lparr>before = b, after = a, ot_event_id = i\<rparr>]"
  by (simp add: push_def)

lemma history_new [simp]: "history new_timeline = []"
  by (simp add: new_timeline_def)

lemma record_event_ids [simp]: "provenance_ids (record_event p i) = insert i (provenance_ids p)"
  by (cases p) simp

lemma reduce_loop_Ok:
  "reduce_loop (after ob) i p obs = Ok (v, q) \<longleftrightarrow>
     chained (ob # obs) \<and> v = after (last (ob # obs))
       \<and> provenance_ids q = provenance_ids p \<union> event_ids obs"
proof (induction obs arbitrary: ob i p)
  case Nil
  show ?case by (auto simp: event_ids_def intro: provenance.expand)
next
  case (Cons b obs)
  then show ?case by (auto simp: event_ids_def)
qed

lemma reduce_Ok:
  "reduce t = Ok r \<longleftrightarrow>
     history t \<noteq> [] \<and> chained (history t)
       \<and> initial r = before (hd (history t)) \<and> terminal r = after (last (history t))
       \<and> provenance_ids (rt_provenance r) = event_ids (history t)"
proof (cases "history t")
  case Nil
  then show ?thesis by (simp add: reduce_def)
next
  case (Cons ob obs)
  have "reduce t = Ok r \<longleftrightarrow>
      reduce_loop (after ob) (ot_event_id ob) (record_event new_provenance (ot_event_id ob)) obs
        = Ok (terminal r, rt_provenance r) \<and> initial r = before ob"
    using Cons by (cases r) (auto simp: reduce_def)
  then show ?thesis
    using Cons by (auto simp: reduce_loop_Ok new_provenance_def event_ids_def)
qed

lemma reduce_ok_iff: "(\<exists>r. reduce t = Ok r) \<longleftrightarrow> history t \<noteq> [] \<and> chained (history t)"
  by (auto simp: reduce_Ok intro!: exI [of _ "\<lparr>initial = before (hd (history t)),
    terminal = after (last (history t)), rt_provenance = Provenance (event_ids (history t))\<rparr>"])

text \<open>The error of the reduction names the first break of the chain.\<close>

lemma chain_break_Cons:
  "(\<exists>xs a b ys. ob # c # obs = xs @ a # b # ys \<and> chained (xs @ [a]) \<and> before b \<noteq> after a \<and> P a b)
    \<longleftrightarrow> before c \<noteq> after ob \<and> P ob c
      \<or> before c = after ob
        \<and> (\<exists>xs a b ys. c # obs = xs @ a # b # ys \<and> chained (xs @ [a]) \<and> before b \<noteq> after a \<and> P a b)"
  (is "?l \<longleftrightarrow> ?r")
proof
  assume ?l
  then obtain xs a b ys where *: "ob # c # obs = xs @ a # b # ys" "chained (xs @ [a])"
    "before b \<noteq> after a" "P a b" by blast
  show ?r
  proof (cases xs)
    case Nil
    with * show ?thesis by simp
  next
    case (Cons x xs')
    with * have "chained (ob # xs' @ [a])" "c # obs = xs' @ a # b # ys" by auto
    then have "before c = after ob" "chained (xs' @ [a])"
      by (cases xs'; auto simp: chained_def successively_Cons)+
    with * Cons show ?thesis by auto
  qed
next
  assume ?r
  then consider "before c \<noteq> after ob" "P ob c"
    | xs a b ys where "before c = after ob" "c # obs = xs @ a # b # ys" "chained (xs @ [a])"
        "before b \<noteq> after a" "P a b" by blast
  then show ?l
  proof cases
    case 1
    then show ?thesis by (intro exI [of _ "[]"]) auto
  next
    case 2
    then have "chained (ob # xs @ [a])" by (cases xs) (auto simp: chained_def successively_Cons)
    with 2 show ?thesis
      by (intro exI [of _ "ob # xs"] exI [of _ a] exI [of _ b] exI [of _ ys]) simp
  qed
qed

lemma reduce_loop_Err:
  "reduce_loop (after ob) (ot_event_id ob) p obs = Err e \<longleftrightarrow>
     (\<exists>xs a b ys. ob # obs = xs @ a # b # ys \<and> chained (xs @ [a]) \<and> before b \<noteq> after a
       \<and> e = DiscontinuousLineage (ot_event_id a) (ot_event_id b))"
proof (induction obs arbitrary: ob p)
  case (Cons c obs)
  then show ?case by (subst chain_break_Cons) auto
qed simp

lemma reduce_no_Panic: "reduce t \<noteq> Panic"
proof -
  have "reduce_loop v i p obs \<noteq> Panic" for v i p and obs :: "'a observed_transition list"
    by (induction obs arbitrary: v i p) auto
  then show ?thesis by (auto simp: reduce_def split: list.split)
qed

end
