(* ===== verification/Partition.thy ===== *)
theory Partition
  imports Timeline Envelope
begin

text \<open>
  \<open>runtime/builder/src/partition.rs\<close>: the first stage of the builder.  It cuts the
  event stream at the transaction boundaries and files every event of a transaction
  under its canonical key.  The specification is stated per key: the timeline of a key
  is the sequence of observations the events make of it, in stream order, and nothing
  else; so no observation is lost, duplicated or attributed to another key.
\<close>

section \<open>The stage as written\<close>

definition trace_provenance_from :: "execution_context \<Rightarrow> trace_provenance" where
  "trace_provenance_from ctx =
     \<lparr>trace_ordinal = sequence_number (normative ctx),
      tx_index = ucast (transaction_index (provisional ctx)),
      frame_id = ucast (call_frame_id (trace ctx)),
      tp_call_depth = ucast (call_depth (trace ctx)),
      frame_ordinal = 0\<rparr>"

definition new_bucket :: "execution_context \<Rightarrow> transaction_bucket" where
  "new_bucket ctx =
     \<lparr>metadata =
        \<lparr>tm_chain_id = chain_id (provisional ctx),
         tm_block_number = block_number (provisional ctx),
         tm_block_hash = block_hash (provisional ctx),
         tm_transaction_hash = transaction_hash (provisional ctx),
         tm_transaction_index = transaction_index (provisional ctx)\<rparr>,
      state_tables = bt_new, lifecycle_table = bt_new, log_table = bt_new,
      gas_refund_timeline = None\<rparr>"

text \<open>
  \<open>if let TimelineVariant::X(tl) = entry { tl.push(..) }\<close>: an entry of another variant
  is left as it is.
\<close>

fun push_balance :: "b32 \<Rightarrow> b32 \<Rightarrow> event_id \<Rightarrow> timeline_variant \<Rightarrow> timeline_variant" where
  "push_balance b a i (BalanceTl t) = BalanceTl (push t b a i)"
| "push_balance b a i e = e"

fun push_nonce :: "u64 \<Rightarrow> u64 \<Rightarrow> event_id \<Rightarrow> timeline_variant \<Rightarrow> timeline_variant" where
  "push_nonce b a i (NonceTl t) = NonceTl (push t b a i)"
| "push_nonce b a i e = e"

fun push_code :: "b32 \<Rightarrow> b32 \<Rightarrow> event_id \<Rightarrow> timeline_variant \<Rightarrow> timeline_variant" where
  "push_code b a i (CodeTl t) = CodeTl (push t b a i)"
| "push_code b a i e = e"

fun push_storage :: "b32 \<Rightarrow> b32 \<Rightarrow> event_id \<Rightarrow> timeline_variant \<Rightarrow> timeline_variant" where
  "push_storage b a i (StorageTl t) = StorageTl (push t b a i)"
| "push_storage b a i e = e"

fun push_transient :: "b32 \<Rightarrow> b32 \<Rightarrow> event_id \<Rightarrow> timeline_variant \<Rightarrow> timeline_variant" where
  "push_transient b a i (TransientTl t) = TransientTl (push t b a i)"
| "push_transient b a i e = e"

text \<open>The inner match; its last arm is \<open>unreachable!()\<close>.\<close>

fun record_payload :: "execution_context \<Rightarrow> event_id \<Rightarrow> cse_payload \<Rightarrow> transaction_bucket
    \<Rightarrow> (transaction_bucket, builder_error) result" where
  "record_payload ctx i (BalanceChanged p) b =
     Ok (b\<lparr>state_tables := bt_entry (BalanceKey (bc_address p)) (BalanceTl new_timeline)
       (push_balance (bc_previous_balance p) (bc_current_balance p) i) (state_tables b)\<rparr>)"
| "record_payload ctx i (NonceUpdated p) b =
     Ok (b\<lparr>state_tables := bt_entry (NonceKey (nu_address p)) (NonceTl new_timeline)
       (push_nonce (nu_previous_nonce p) (nu_current_nonce p) i) (state_tables b)\<rparr>)"
| "record_payload ctx i (CodeUpdated p) b =
     Ok (b\<lparr>state_tables := bt_entry (CodeKey (cu_address p)) (CodeTl new_timeline)
       (push_code (cu_previous_code_hash p) (cu_current_code_hash p) i) (state_tables b)\<rparr>)"
| "record_payload ctx i (StorageSlotUpdated p) b =
     Ok (b\<lparr>state_tables := bt_entry (StorageKey (su_address p) (su_slot p)) (StorageTl new_timeline)
       (push_storage (su_previous_value p) (su_current_value p) i) (state_tables b)\<rparr>)"
| "record_payload ctx i (TransientStorageUpdated p) b =
     Ok (b\<lparr>state_tables := bt_entry (TransientKey (ts_address p) (ts_slot p)) (TransientTl new_timeline)
       (push_transient (ts_previous_value p) (ts_current_value p) i) (state_tables b)\<rparr>)"
| "record_payload ctx i (ContractCreated p) b =
     Ok (b\<lparr>lifecycle_table := bt_entry (cc_address p) []
       (\<lambda>v. v @ [\<lparr>lifecycle_payload = Created p, ol_event_id = i,
                 ol_provenance = trace_provenance_from ctx\<rparr>]) (lifecycle_table b)\<rparr>)"
| "record_payload ctx i (ContractDestroyed p) b =
     Ok (b\<lparr>lifecycle_table := bt_entry (cd_address p) []
       (\<lambda>v. v @ [\<lparr>lifecycle_payload = Destroyed p, ol_event_id = i,
                 ol_provenance = trace_provenance_from ctx\<rparr>]) (lifecycle_table b)\<rparr>)"
| "record_payload ctx i (LogEmitted p) b =
     Ok (b\<lparr>log_table := bt_entry (le_address p) []
       (\<lambda>v. v @ [\<lparr>log_payload = p, log_event_id = i\<rparr>]) (log_table b)\<rparr>)"
| "record_payload ctx i (GasRefundChanged p) b =
     Ok (b\<lparr>gas_refund_timeline :=
       Some (push (case gas_refund_timeline b of Some t \<Rightarrow> t | None \<Rightarrow> new_timeline)
         (gr_previous_refund p) (gr_current_refund p) i)\<rparr>)"
| "record_payload ctx i (AccessListTouched p) b = Ok b"
| "record_payload ctx i BeginTransaction b = Panic"
| "record_payload ctx i EndTransaction b = Panic"

text \<open>The loop's state: the finished buckets and the bucket of the open transaction.\<close>

type_synonym partition_state = "transaction_bucket list \<times> transaction_bucket option"

fun partition_step ::
    "partition_state \<Rightarrow> cse_event \<Rightarrow> (partition_state, builder_error) result" where
  "partition_step (done, current) e =
     (case payload e of
        BeginTransaction \<Rightarrow>
          if current \<noteq> None then Err DuplicateTransactionBoundary
          else Ok (done, Some (new_bucket (event_context e)))
      | EndTransaction \<Rightarrow>
          bind_res (ok_or current UnexpectedTransactionBoundary) (\<lambda>b. Ok (done @ [b], None))
      | other \<Rightarrow>
          bind_res (ok_or current EventOutsideTransaction) (\<lambda>b.
          bind_res (record_payload (event_context e) (EventId (seq_of e)) other b) (\<lambda>b'.
          Ok (done, Some b'))))"

definition partition_events :: "cse_event list \<Rightarrow> (raw_ir, builder_error) result" where
  "partition_events es =
     bind_res (fold_res partition_step ([], None) es) (\<lambda>(done, current).
       if current \<noteq> None then Err UnexpectedTransactionBoundary else Ok (RawIr done))"

section \<open>What each event contributes\<close>

abbreviation observation :: "'v \<Rightarrow> 'v \<Rightarrow> cse_event \<Rightarrow> 'v observed_transition" where
  "observation b a e \<equiv> \<lparr>before = b, after = a, ot_event_id = EventId (seq_of e)\<rparr>"

definition value_obs :: "canonical_key \<Rightarrow> cse_event \<Rightarrow> b32 observed_transition list" where
  "value_obs k e =
     (case payload e of
        BalanceChanged p \<Rightarrow> if k = BalanceKey (bc_address p)
          then [observation (bc_previous_balance p) (bc_current_balance p) e] else []
      | CodeUpdated p \<Rightarrow> if k = CodeKey (cu_address p)
          then [observation (cu_previous_code_hash p) (cu_current_code_hash p) e] else []
      | StorageSlotUpdated p \<Rightarrow> if k = StorageKey (su_address p) (su_slot p)
          then [observation (su_previous_value p) (su_current_value p) e] else []
      | TransientStorageUpdated p \<Rightarrow> if k = TransientKey (ts_address p) (ts_slot p)
          then [observation (ts_previous_value p) (ts_current_value p) e] else []
      | _ \<Rightarrow> [])"

definition nonce_obs :: "canonical_key \<Rightarrow> cse_event \<Rightarrow> u64 observed_transition list" where
  "nonce_obs k e =
     (case payload e of
        NonceUpdated p \<Rightarrow> if k = NonceKey (nu_address p)
          then [observation (nu_previous_nonce p) (nu_current_nonce p) e] else []
      | _ \<Rightarrow> [])"

definition lifecycle_obs :: "address \<Rightarrow> cse_event \<Rightarrow> observed_lifecycle list" where
  "lifecycle_obs a e =
     (case payload e of
        ContractCreated p \<Rightarrow> if cc_address p = a
          then [\<lparr>lifecycle_payload = Created p, ol_event_id = EventId (seq_of e),
                ol_provenance = trace_provenance_from (event_context e)\<rparr>] else []
      | ContractDestroyed p \<Rightarrow> if cd_address p = a
          then [\<lparr>lifecycle_payload = Destroyed p, ol_event_id = EventId (seq_of e),
                ol_provenance = trace_provenance_from (event_context e)\<rparr>] else []
      | _ \<Rightarrow> [])"

definition log_obs :: "address \<Rightarrow> cse_event \<Rightarrow> observed_log list" where
  "log_obs a e =
     (case payload e of
        LogEmitted p \<Rightarrow> if le_address p = a
          then [\<lparr>log_payload = p, log_event_id = EventId (seq_of e)\<rparr>] else []
      | _ \<Rightarrow> [])"

definition refund_obs :: "cse_event \<Rightarrow> u64 observed_transition list" where
  "refund_obs e =
     (case payload e of
        GasRefundChanged p \<Rightarrow> [observation (gr_previous_refund p) (gr_current_refund p) e]
      | _ \<Rightarrow> [])"

lemmas observation_defs [obs_simps] =
  value_obs_def nonce_obs_def lifecycle_obs_def log_obs_def refund_obs_def

text \<open>The history of a key over a list of events, and the table entry that holds it.\<close>

abbreviation history_of :: "('e \<Rightarrow> 'v list) \<Rightarrow> 'e list \<Rightarrow> 'v list" where
  "history_of obs es \<equiv> concat (map obs es)"

fun entry_of :: "cse_event list \<Rightarrow> canonical_key \<Rightarrow> timeline_variant option" where
  "entry_of es (BalanceKey a) =
     map_option (\<lambda>h. BalanceTl \<lparr>history = h\<rparr>) (nonempty (history_of (value_obs (BalanceKey a)) es))"
| "entry_of es (NonceKey a) =
     map_option (\<lambda>h. NonceTl \<lparr>history = h\<rparr>) (nonempty (history_of (nonce_obs (NonceKey a)) es))"
| "entry_of es (CodeKey a) =
     map_option (\<lambda>h. CodeTl \<lparr>history = h\<rparr>) (nonempty (history_of (value_obs (CodeKey a)) es))"
| "entry_of es (StorageKey a s) =
     map_option (\<lambda>h. StorageTl \<lparr>history = h\<rparr>)
       (nonempty (history_of (value_obs (StorageKey a s)) es))"
| "entry_of es (TransientKey a s) =
     map_option (\<lambda>h. TransientTl \<lparr>history = h\<rparr>)
       (nonempty (history_of (value_obs (TransientKey a s)) es))"

text \<open>A bucket holds exactly what the events of its transaction contribute.\<close>

definition records :: "transaction_bucket \<Rightarrow> cse_event \<Rightarrow> cse_event list \<Rightarrow> bool" where
  "records b e0 es \<longleftrightarrow>
     metadata b = metadata (new_bucket (event_context e0))
     \<and> (\<forall>k. bt_get (state_tables b) k = entry_of es k)
     \<and> (\<forall>a. bt_get (lifecycle_table b) a = nonempty (history_of (lifecycle_obs a) es))
     \<and> (\<forall>a. bt_get (log_table b) a = nonempty (history_of (log_obs a) es))
     \<and> gas_refund_timeline b =
         map_option (\<lambda>h. \<lparr>history = h\<rparr>) (nonempty (history_of refund_obs es))"

text \<open>
  The tree structure of a well-bracketed stream: transactions, each with its opening
  event, its inner events and its closing event.
\<close>

record transaction =
  tx_open :: cse_event
  tx_inner :: "cse_event list"
  tx_close :: cse_event

definition tx_wf :: "transaction \<Rightarrow> bool" where
  "tx_wf tx \<longleftrightarrow> payload (tx_open tx) = BeginTransaction \<and> payload (tx_close tx) = EndTransaction
     \<and> (\<forall>e \<in> set (tx_inner tx). event_boundary e = Inside)"

definition tx_events :: "transaction \<Rightarrow> cse_event list" where
  "tx_events tx = tx_open tx # tx_inner tx @ [tx_close tx]"


section \<open>Recording one event\<close>

lemma records_new: "records (new_bucket (event_context e)) e []"
proof -
  have "entry_of [] k = None" for k by (cases k) auto
  then show ?thesis by (simp add: records_def new_bucket_def)
qed

lemma records_unique: "records b e0 es \<Longrightarrow> records b' e0 es \<Longrightarrow> b = b'"
  by (auto simp: records_def intro!: transaction_bucket.equality bt.map_ext)

lemma case_option_map: "(case map_option f x of None \<Rightarrow> n | Some y \<Rightarrow> g y) = (case x of None \<Rightarrow> n | Some y \<Rightarrow> g (f y))"
  by (cases x) auto

lemma push_history: "push \<lparr>history = h\<rparr> b a i = \<lparr>history = h @ [\<lparr>before = b, after = a, ot_event_id = i\<rparr>]\<rparr>"
  by (simp add: push_def)

lemma push_option:
  "push (case_option new_timeline ((\<lambda>t. t) \<circ> (\<lambda>h. \<lparr>history = h\<rparr>)) (nonempty hs)) b a i
     = \<lparr>history = hs @ [\<lparr>before = b, after = a, ot_event_id = i\<rparr>]\<rparr>"
  by (cases hs) (simp_all add: push_history new_timeline_def)

lemma entry_of_snoc_balance:
  "payload e = BalanceChanged p \<Longrightarrow> entry_of (es @ [e]) k =
     (if k = BalanceKey (bc_address p)
      then Some (push_balance (bc_previous_balance p) (bc_current_balance p) (EventId (seq_of e))
        (case entry_of es k of Some v \<Rightarrow> v | None \<Rightarrow> BalanceTl new_timeline))
      else entry_of es k)"
  by (cases k) (auto simp: value_obs_def nonce_obs_def case_option_map push_history new_timeline_def
      nonempty_def)

lemma entry_of_snoc_code:
  "payload e = CodeUpdated p \<Longrightarrow> entry_of (es @ [e]) k =
     (if k = CodeKey (cu_address p)
      then Some (push_code (cu_previous_code_hash p) (cu_current_code_hash p) (EventId (seq_of e))
        (case entry_of es k of Some v \<Rightarrow> v | None \<Rightarrow> CodeTl new_timeline))
      else entry_of es k)"
  by (cases k) (auto simp: value_obs_def nonce_obs_def case_option_map push_history new_timeline_def
      nonempty_def)

lemma entry_of_snoc_nonce:
  "payload e = NonceUpdated p \<Longrightarrow> entry_of (es @ [e]) k =
     (if k = NonceKey (nu_address p)
      then Some (push_nonce (nu_previous_nonce p) (nu_current_nonce p) (EventId (seq_of e))
        (case entry_of es k of Some v \<Rightarrow> v | None \<Rightarrow> NonceTl new_timeline))
      else entry_of es k)"
  by (cases k) (auto simp: value_obs_def nonce_obs_def case_option_map push_history new_timeline_def
      nonempty_def)

lemma entry_of_snoc_storage:
  "payload e = StorageSlotUpdated p \<Longrightarrow> entry_of (es @ [e]) k =
     (if k = StorageKey (su_address p) (su_slot p)
      then Some (push_storage (su_previous_value p) (su_current_value p) (EventId (seq_of e))
        (case entry_of es k of Some v \<Rightarrow> v | None \<Rightarrow> StorageTl new_timeline))
      else entry_of es k)"
  by (cases k) (auto simp: value_obs_def nonce_obs_def case_option_map push_history new_timeline_def
      nonempty_def)

lemma entry_of_snoc_transient:
  "payload e = TransientStorageUpdated p \<Longrightarrow> entry_of (es @ [e]) k =
     (if k = TransientKey (ts_address p) (ts_slot p)
      then Some (push_transient (ts_previous_value p) (ts_current_value p) (EventId (seq_of e))
        (case entry_of es k of Some v \<Rightarrow> v | None \<Rightarrow> TransientTl new_timeline))
      else entry_of es k)"
  by (cases k) (auto simp: value_obs_def nonce_obs_def case_option_map push_history new_timeline_def
      nonempty_def)

lemma entry_of_snoc_other:
  assumes "\<And>k. value_obs k e = []" and "\<And>k. nonce_obs k e = []"
  shows "entry_of (es @ [e]) k = entry_of es k"
  using assms by (cases k) auto

lemmas entry_of_snoc =
  entry_of_snoc_balance entry_of_snoc_code entry_of_snoc_nonce entry_of_snoc_storage
  entry_of_snoc_transient

lemma record_payload_records:
  assumes "records b e0 es" and "event_boundary e = Inside"
  obtains b' where "record_payload (event_context e) (EventId (seq_of e)) (payload e) b = Ok b'"
    and "records b' e0 (es @ [e])"
proof (cases "payload e")
  case BeginTransaction
  with assms show ?thesis by simp
next
  case EndTransaction
  with assms show ?thesis by simp
qed (use assms that in \<open>auto simp: records_def entry_of_snoc entry_of_snoc_other obs_simps
    push_option case_option_map\<close>)

section \<open>The loop\<close>

definition open_bucket :: "partition_state \<Rightarrow> bool" where
  "open_bucket s \<longleftrightarrow> snd s \<noteq> None"

lemma partition_step_inside:
  "event_boundary e = Inside \<Longrightarrow> partition_step (ds, current) e =
     bind_res (ok_or current EventOutsideTransaction) (\<lambda>b.
     bind_res (record_payload (event_context e) (EventId (seq_of e)) (payload e) b) (\<lambda>b'.
     Ok (ds, Some b')))"
  by (cases "payload e") auto

lemma partition_step_boundary [simp]:
  "payload e = BeginTransaction \<Longrightarrow> partition_step (ds, None) e = Ok (ds, Some (new_bucket (event_context e)))"
  "payload e = EndTransaction \<Longrightarrow> partition_step (ds, Some b) e = Ok (ds @ [b], None)"
  by auto

lemma record_payload_Ok:
  "event_boundary e = Inside \<Longrightarrow> \<exists>b'. record_payload ctx i (payload e) b = Ok b'"
  by (cases "payload e") auto

lemma partition_step_error:
  "partition_step s e = Err err \<longleftrightarrow>
     (case event_boundary e of
        Opens \<Rightarrow> open_bucket s \<and> err = DuplicateTransactionBoundary
      | Closes \<Rightarrow> \<not> open_bucket s \<and> err = UnexpectedTransactionBoundary
      | Inside \<Rightarrow> \<not> open_bucket s \<and> err = EventOutsideTransaction)"
  by (cases s; cases "snd s"; cases "payload e") (auto simp: open_bucket_def)

lemma partition_step_no_Panic: "partition_step s e \<noteq> Panic"
  by (cases s; cases "snd s"; cases "payload e") auto

interpretation partition: exact_envelope_checker partition_step open_bucket event_boundary
proof unfold_locales
  show "envelope_step (open_bucket s) (event_boundary e) (open_bucket s')"
    if "partition_step s e = Ok s'" for s e s'
    using that by (cases s; cases "payload e") (auto simp: open_bucket_def split: if_splits)
  show "\<exists>s'. partition_step s e = Ok s'" if "envelope_step (open_bucket s) (event_boundary e) b" for s e b
  proof (cases "partition_step s e")
    case (Err err)
    with that show ?thesis by (auto simp: partition_step_error split: boundary_kind.splits)
  qed (simp_all add: partition_step_no_Panic)
qed

declare partition_step.simps [simp del]

text \<open>A transaction is filed into one bucket, whatever was filed before it.\<close>

lemma fold_inside:
  assumes "records b e0 es" and "\<forall>e \<in> set es'. event_boundary e = Inside"
  shows "\<exists>b'. fold_res partition_step (ds, Some b) es' = Ok (ds, Some b') \<and> records b' e0 (es @ es')"
  using assms
proof (induction es' arbitrary: b es)
  case Nil
  then show ?case by simp
next
  case (Cons e es')
  then have inside: "event_boundary e = Inside" by simp
  obtain b1 where b1: "record_payload (event_context e) (EventId (seq_of e)) (payload e) b = Ok b1"
    "records b1 e0 (es @ [e])"
    using record_payload_records [OF Cons.prems(1) inside] by blast
  then show ?case using Cons.IH [OF b1(2)] Cons.prems inside by (simp add: partition_step_inside)
qed

lemma fold_transaction:
  assumes "tx_wf tx"
  shows "\<exists>b. fold_res partition_step (ds, None) (tx_events tx) = Ok (ds @ [b], None)
    \<and> records b (tx_open tx) (tx_inner tx)"
proof -
  have wf: "payload (tx_open tx) = BeginTransaction" "payload (tx_close tx) = EndTransaction"
    "\<forall>e \<in> set (tx_inner tx). event_boundary e = Inside"
    using assms by (auto simp: tx_wf_def)
  obtain b where b: "fold_res partition_step (ds, Some (new_bucket (event_context (tx_open tx)))) (tx_inner tx)
      = Ok (ds, Some b)" "records b (tx_open tx) ([] @ tx_inner tx)"
    using fold_inside [OF records_new wf(3)] by blast
  then show ?thesis using wf by (simp add: tx_events_def fold_res_append)
qed

abbreviation files :: "transaction_bucket \<Rightarrow> transaction \<Rightarrow> bool" where
  "files b tx \<equiv> records b (tx_open tx) (tx_inner tx)"

lemma fold_transactions:
  assumes "list_all tx_wf txs"
  shows "\<exists>bs. fold_res partition_step (ds, None) (concat (map tx_events txs)) = Ok (ds @ bs, None)
    \<and> list_all2 files bs txs"
  using assms
proof (induction txs arbitrary: ds)
  case (Cons tx txs)
  from Cons.prems obtain b where b: "fold_res partition_step (ds, None) (tx_events tx) = Ok (ds @ [b], None)"
    "files b tx" using fold_transaction by auto
  obtain bs where "fold_res partition_step (ds @ [b], None) (concat (map tx_events txs))
      = Ok ((ds @ [b]) @ bs, None)" "list_all2 files bs txs"
    using Cons.IH [of "ds @ [b]"] Cons.prems by auto
  with b show ?case by (intro exI [of _ "b # bs"]) (simp add: fold_res_append)
qed simp

text \<open>A stream whose envelope runs is a sequence of transactions, read in one way only.\<close>

lemma envelope_transactions:
  "envelope_run b (map event_boundary es) False \<Longrightarrow>
     (if b then \<exists>ins e txs. es = ins @ e # concat (map tx_events txs) \<and> payload e = EndTransaction
          \<and> (\<forall>i \<in> set ins. event_boundary i = Inside) \<and> list_all tx_wf txs
      else \<exists>txs. es = concat (map tx_events txs) \<and> list_all tx_wf txs)"
proof (induction es arbitrary: b)
  case Nil
  then show ?case by (auto intro: exI [of _ "[]"])
next
  case (Cons e es)
  then obtain c where c: "envelope_step b (event_boundary e) c"
    "envelope_run c (map event_boundary es) False" by auto
  note IH = Cons.IH [OF c(2)]
  from c(1) show ?case
  proof (cases rule: envelope_step.cases)
    case open_tx
    from open_tx have e: "payload e = BeginTransaction" by (cases "payload e") auto
    from IH open_tx obtain ins f txs where "es = ins @ f # concat (map tx_events txs)"
      "payload f = EndTransaction" "\<forall>i \<in> set ins. event_boundary i = Inside" "list_all tx_wf txs"
      by auto
    then show ?thesis using open_tx e
      by (auto simp: tx_events_def tx_wf_def
          intro!: exI [of _ "\<lparr>tx_open = e, tx_inner = ins, tx_close = f\<rparr> # txs"])
  next
    case close_tx
    from close_tx have e: "payload e = EndTransaction" by (cases "payload e") auto
    from IH close_tx obtain txs where "es = concat (map tx_events txs)" "list_all tx_wf txs" by auto
    then show ?thesis using close_tx e
      by simp (rule exI [of _ "[]"], rule exI [of _ e], rule exI [of _ txs], simp)
  next
    case inside_tx
    from IH inside_tx obtain ins f txs where "es = ins @ f # concat (map tx_events txs)"
      "payload f = EndTransaction" "\<forall>i \<in> set ins. event_boundary i = Inside" "list_all tx_wf txs"
      by auto
    then show ?thesis using inside_tx by (auto intro!: exI [of _ "e # ins"])
  qed
qed

lemma partition_fold: "partition_events es = Ok (RawIr bs) \<longleftrightarrow> fold_res partition_step ([], None) es = Ok (bs, None)"
  by (auto simp: partition_events_def split: if_splits)

lemma files_unique: "list_all2 files bs txs \<Longrightarrow> list_all2 files bs' txs \<Longrightarrow> bs = bs'"
proof (induction bs txs arbitrary: bs' rule: list_all2_induct)
  case (Cons b bs tx txs)
  then obtain c cs where "bs' = c # cs" "files c tx" "list_all2 files cs txs"
    by (auto simp: list_all2_Cons2)
  with Cons show ?case using records_unique by blast
qed simp

text \<open>The properties of the stage.\<close>

lemma partition_exact:
  "partition_events es = Ok (RawIr bs) \<longleftrightarrow>
     (\<exists>txs. es = concat (map tx_events txs) \<and> list_all tx_wf txs \<and> list_all2 files bs txs)"
proof
  assume "partition_events es = Ok (RawIr bs)"
  then have run: "fold_res partition_step ([], None) es = Ok (bs, None)" by (simp add: partition_fold)
  then have "envelope_run False (map event_boundary es) False"
    using partition.run_sound [OF run] by (simp add: open_bucket_def)
  then obtain txs where txs: "es = concat (map tx_events txs)" "list_all tx_wf txs"
    using envelope_transactions by fastforce
  obtain bs' where "fold_res partition_step ([], None) es = Ok (bs', None)" "list_all2 files bs' txs"
    using fold_transactions [OF txs(2), of "[]"] txs(1) by auto
  with run txs show "\<exists>txs. es = concat (map tx_events txs) \<and> list_all tx_wf txs \<and> list_all2 files bs txs"
    by auto
next
  assume "\<exists>txs. es = concat (map tx_events txs) \<and> list_all tx_wf txs \<and> list_all2 files bs txs"
  then obtain txs where txs: "es = concat (map tx_events txs)" "list_all tx_wf txs" "list_all2 files bs txs"
    by blast
  obtain bs' where "fold_res partition_step ([], None) es = Ok (bs', None)" "list_all2 files bs' txs"
    using fold_transactions [OF txs(2), of "[]"] txs(1) by auto
  with files_unique [OF txs(3)] show "partition_events es = Ok (RawIr bs)" by (simp add: partition_fold)
qed

lemma partition_ok_iff:
  "(\<exists>ir. partition_events es = Ok ir) \<longleftrightarrow> envelope_run False (map event_boundary es) False"
proof -
  have "(\<exists>ir. partition_events es = Ok ir) \<longleftrightarrow> (\<exists>bs. partition_events es = Ok (RawIr bs))"
    by (metis raw_ir.exhaust)
  also have "\<dots> \<longleftrightarrow> (\<exists>s. fold_res partition_step ([], None) es = Ok s \<and> \<not> open_bucket s)"
    by (auto simp: partition_fold open_bucket_def)
  also have "\<dots> \<longleftrightarrow> envelope_run False (map event_boundary es) False"
    using partition.run_exact [of "([], None)" es False] by (simp add: open_bucket_def)
  finally show ?thesis .
qed

lemma partition_Err:
  "partition_events es = Err err \<longleftrightarrow>
     (\<exists>pre e post b. es = pre @ e # post \<and> envelope_run False (map event_boundary pre) b
        \<and> (case event_boundary e of
            Opens \<Rightarrow> b \<and> err = DuplicateTransactionBoundary
          | Closes \<Rightarrow> \<not> b \<and> err = UnexpectedTransactionBoundary
          | Inside \<Rightarrow> \<not> b \<and> err = EventOutsideTransaction))
     \<or> envelope_run False (map event_boundary es) True \<and> err = UnexpectedTransactionBoundary"
proof -
  have run: "(\<exists>s. fold_res partition_step ([], None) xs = Ok s \<and> P (open_bucket s))
      \<longleftrightarrow> (\<exists>b. envelope_run False (map event_boundary xs) b \<and> P b)" for xs P
  proof -
    have "(\<exists>s. fold_res partition_step ([], None) xs = Ok s \<and> P (open_bucket s))
        \<longleftrightarrow> (\<exists>b. (\<exists>s. fold_res partition_step ([], None) xs = Ok s \<and> open_bucket s = b) \<and> P b)"
      by blast
    then show ?thesis
      unfolding partition.run_exact by (simp add: open_bucket_def)
  qed
  have "partition_events es = Err err \<longleftrightarrow>
      fold_res partition_step ([], None) es = Err err \<or>
      (\<exists>s. fold_res partition_step ([], None) es = Ok s \<and> open_bucket s)
        \<and> err = UnexpectedTransactionBoundary"
    by (auto simp: partition_events_def open_bucket_def split: if_splits)
  then show ?thesis
    unfolding fold_res_eq_Err partition_step_error
    using run [of _ "\<lambda>b. b"] run [of _ "\<lambda>b. case event_boundary _ of
            Opens \<Rightarrow> b \<and> err = DuplicateTransactionBoundary
          | Closes \<Rightarrow> \<not> b \<and> err = UnexpectedTransactionBoundary
          | Inside \<Rightarrow> \<not> b \<and> err = EventOutsideTransaction"]
    by (simp add: ex_bool_eq)
qed

lemma partition_no_Panic: "partition_events es \<noteq> Panic"
  using fold_res_no_Panic [of partition_step "([], None)" es]
  by (auto simp: partition_events_def partition_step_no_Panic split: if_splits)

section \<open>Properties\<close>

text \<open>
  C11: partitioning loses nothing: it succeeds with buckets \<open>bs\<close> exactly when the stream
  is a concatenation of well-bracketed transactions, one bucket each, and every bucket
  holds for every key exactly the observations its transaction makes of that key, in
  stream order.
\<close>

theorem partition_lossless:
  "partition_events es = Ok (RawIr bs) \<longleftrightarrow>
     (\<exists>txs. es = concat (map tx_events txs) \<and> list_all tx_wf txs \<and> list_all2 files bs txs)"
  by (rule partition_exact)

text \<open>
  Every error of the partition stage is at the first event the envelope rejects, and
  says why: an opening inside a transaction, a closing or another event outside one, or
  a transaction still open at the end.
\<close>

lemma partition_errors:
  "partition_events es = Err err \<longleftrightarrow>
     (\<exists>pre e post b. es = pre @ e # post \<and> envelope_run False (map event_boundary pre) b
        \<and> (case event_boundary e of
            Opens \<Rightarrow> b \<and> err = DuplicateTransactionBoundary
          | Closes \<Rightarrow> \<not> b \<and> err = UnexpectedTransactionBoundary
          | Inside \<Rightarrow> \<not> b \<and> err = EventOutsideTransaction))
     \<or> envelope_run False (map event_boundary es) True \<and> err = UnexpectedTransactionBoundary"
  by (rule partition_Err)

end
