(* ===== verification/Sample.thy ===== *)
theory Sample
  imports Cse Hash
begin

text \<open>
  Small concrete events and hash functions, on which the witnesses of the properties
  evaluate the model.
\<close>

text \<open>Two stand-ins for BLAKE3: a constant, and the (padded or cut) input itself.\<close>

definition zero_hash :: hash_fn where
  "zero_hash bs = arr_fill 0"

definition copy_hash :: hash_fn where
  "copy_hash bs = arr_of bs"

definition sample_context :: "u64 \<Rightarrow> execution_context" where
  "sample_context n =
     \<lparr>normative = \<lparr>sequence_number = n\<rparr>,
      provisional = \<lparr>chain_id = 1, block_hash = arr_fill 7, block_number = 9,
        transaction_hash = arr_fill 8, transaction_index = 0\<rparr>,
      trace = \<lparr>call_frame_id = 0, call_depth = 0\<rparr>\<rparr>"

definition sample_event :: "u64 \<Rightarrow> cse_payload \<Rightarrow> cse_event" where
  "sample_event n pl = \<lparr>version = V1, event_context = sample_context n, payload = pl\<rparr>"

text \<open>A nonce change of the account \<open>[a; 20]\<close>.\<close>

definition sample_nonce :: "u8 \<Rightarrow> u64 \<Rightarrow> u64 \<Rightarrow> cse_payload" where
  "sample_nonce a b c =
     NonceUpdated \<lparr>nu_address = arr_fill a, nu_previous_nonce = b, nu_current_nonce = c\<rparr>"

text \<open>Creation and destruction of the account \<open>[a; 20]\<close>.\<close>

definition sample_create :: "u8 \<Rightarrow> cse_payload" where
  "sample_create a = ContractCreated \<lparr>cc_address = arr_fill a, cc_creator = arr_fill 9\<rparr>"

definition sample_destroy :: "u8 \<Rightarrow> cse_payload" where
  "sample_destroy a = ContractDestroyed \<lparr>cd_address = arr_fill a, cd_refund_target = arr_fill 9\<rparr>"

lemmas sample_defs = sample_create_def sample_destroy_def sample_context_def sample_event_def sample_nonce_def

end
