(* ===== verification/Reduce.thy ===== *)
theory Reduce
  imports Partition Sample
begin

text \<open>
  \<open>runtime/builder/src/reduce.rs\<close>: the second stage replaces each timeline by its net
  transition.  The specification, stated on the event stream itself: the entry of a
  key is the value before its first observation, the value after its last one, and
  the set of the events between; the stage succeeds exactly when every key's
  observations chain, and its error names the two observations that do not.
\<close>

section \<open>The stage as written\<close>

fun reduce_variant :: "timeline_variant \<Rightarrow> (reduced_variant, timeline_error) result" where
  "reduce_variant (BalanceTl t) = map_res BalanceRt (reduce t)"
| "reduce_variant (NonceTl t) = map_res NonceRt (reduce t)"
| "reduce_variant (CodeTl t) = map_res CodeRt (reduce t)"
| "reduce_variant (StorageTl t) = map_res StorageRt (reduce t)"
| "reduce_variant (TransientTl t) = map_res TransientRt (reduce t)"

text \<open>\<open>option.map(|t| t.reduce()).transpose()\<close>.\<close>

fun reduce_refund :: "u64 timeline option \<Rightarrow> (u64 reduced_transition option, timeline_error) result" where
  "reduce_refund None = Ok None"
| "reduce_refund (Some t) = map_res Some (reduce t)"

definition reduce_bucket :: "transaction_bucket \<Rightarrow> (reduced_bucket, builder_error) result" where
  "reduce_bucket b =
     bind_res (bt_traverse (\<lambda>key v. map_err TimelineFailure (reduce_variant v)) (state_tables b)) (\<lambda>table.
     bind_res (map_err TimelineFailure (reduce_refund (gas_refund_timeline b))) (\<lambda>refund.
     Ok \<lparr>rb_metadata = metadata b, state_table = table, rb_lifecycle_table = lifecycle_table b,
         rb_log_table = log_table b, gas_refund = refund\<rparr>))"

definition reduce_timelines :: "raw_ir \<Rightarrow> (reduced_ir, builder_error) result" where
  "reduce_timelines ir =
     bind_res (collect_res reduce_bucket (raw_buckets ir)) (\<lambda>rbs. Ok (ReducedIr rbs))"

section \<open>The net effect of a list of events\<close>

definition net :: "'v observed_transition list \<Rightarrow> 'v reduced_transition option" where
  "net h = map_option (\<lambda>h. \<lparr>initial = before (hd h), terminal = after (last h),
     rt_provenance = Provenance (event_ids h)\<rparr>) (nonempty h)"

fun net_of :: "cse_event list \<Rightarrow> canonical_key \<Rightarrow> reduced_variant option" where
  "net_of es (BalanceKey a) = map_option BalanceRt (net (history_of (value_obs (BalanceKey a)) es))"
| "net_of es (NonceKey a) = map_option NonceRt (net (history_of (nonce_obs (NonceKey a)) es))"
| "net_of es (CodeKey a) = map_option CodeRt (net (history_of (value_obs (CodeKey a)) es))"
| "net_of es (StorageKey a s) =
     map_option StorageRt (net (history_of (value_obs (StorageKey a s)) es))"
| "net_of es (TransientKey a s) =
     map_option TransientRt (net (history_of (value_obs (TransientKey a s)) es))"

text \<open>Every key's observations chain, and so do the gas refunds.\<close>

definition consistent :: "cse_event list \<Rightarrow> bool" where
  "consistent es \<longleftrightarrow>
     (\<forall>k. chained (history_of (value_obs k) es)) \<and> (\<forall>k. chained (history_of (nonce_obs k) es))
     \<and> chained (history_of refund_obs es)"

definition summarises :: "reduced_bucket \<Rightarrow> transaction \<Rightarrow> bool" where
  "summarises rb tx \<longleftrightarrow>
     rb_metadata rb = metadata (new_bucket (event_context (tx_open tx)))
     \<and> (\<forall>k. bt_get (state_table rb) k = net_of (tx_inner tx) k)
     \<and> (\<forall>a. bt_get (rb_lifecycle_table rb) a = nonempty (history_of (lifecycle_obs a) (tx_inner tx)))
     \<and> (\<forall>a. bt_get (rb_log_table rb) a = nonempty (history_of (log_obs a) (tx_inner tx)))
     \<and> gas_refund rb = net (history_of refund_obs (tx_inner tx))"

section \<open>One timeline, one bucket\<close>

lemma reduce_history_Ok:
  assumes "h \<noteq> []"
  shows "reduce \<lparr>history = h\<rparr> = Ok r \<longleftrightarrow> chained h \<and> net h = Some r"
proof -
  have "rt_provenance r = Provenance (event_ids h) \<longleftrightarrow> provenance_ids (rt_provenance r) = event_ids h"
    by (cases "rt_provenance r") auto
  then show ?thesis
    using assms by (cases r) (auto simp: reduce_Ok net_def nonempty_def)
qed

lemma net_eq_None [simp]: "net h = None \<longleftrightarrow> h = []" "None = net h \<longleftrightarrow> h = []"
  by (auto simp: net_def)

text \<open>The history behind a table entry; a key has observations of one type only.\<close>

lemma value_obs_NonceKey [simp]: "value_obs (NonceKey a) e = []"
  by (simp add: value_obs_def split: cse_payload.split)

lemma nonce_obs_other:
  "nonce_obs (BalanceKey a) e = []" "nonce_obs (CodeKey a) e = []"
  "nonce_obs (StorageKey a s) e = []" "nonce_obs (TransientKey a s) e = []"
  by (simp_all add: nonce_obs_def split: cse_payload.split)

lemma chained_concat_Nil: "\<forall>e \<in> set es. f e = [] \<Longrightarrow> chained (history_of f es)"
  by (simp add: chained_def concat_eq_Nil_conv [THEN iffD2])

lemma entry_reduces:
  "rel_option (\<lambda>v w. reduce_variant v = Ok w) (entry_of es k) w \<longleftrightarrow>
     chained (history_of (value_obs k) es) \<and> chained (history_of (nonce_obs k) es) \<and> w = net_of es k"
proof (cases k)
  case (NonceKey a)
  then show ?thesis
    by (cases "history_of (nonce_obs k) es = []"; cases w)
      (auto simp: nonempty_def reduce_history_Ok option_rel_Some1 net_def map_option_case chained_concat_Nil)
qed (cases "history_of (value_obs k) es = []"; cases w;
     auto simp: nonempty_def reduce_history_Ok option_rel_Some1 net_def map_option_case
      chained_concat_Nil nonce_obs_other)+


lemma refund_reduces:
  "reduce_refund (map_option (\<lambda>h. \<lparr>history = h\<rparr>) (nonempty h)) = Ok g
     \<longleftrightarrow> chained h \<and> g = net h"
  by (cases "h = []") (auto simp: nonempty_def reduce_history_Ok net_def)

lemma reduce_bucket_exact:
  assumes "files b tx"
  shows "reduce_bucket b = Ok rb \<longleftrightarrow> consistent (tx_inner tx) \<and> summarises rb tx"
proof -
  have b: "metadata b = metadata (new_bucket (event_context (tx_open tx)))"
    "\<And>k. bt_get (state_tables b) k = entry_of (tx_inner tx) k"
    "\<And>a. bt_get (lifecycle_table b) a = nonempty (history_of (lifecycle_obs a) (tx_inner tx))"
    "\<And>a. bt_get (log_table b) a = nonempty (history_of (log_obs a) (tx_inner tx))"
    "gas_refund_timeline b = map_option (\<lambda>h. \<lparr>history = h\<rparr>) (nonempty (history_of refund_obs (tx_inner tx)))"
    using assms by (auto simp: records_def)
  have maps: "rb_lifecycle_table rb = lifecycle_table b \<longleftrightarrow>
      (\<forall>a. bt_get (rb_lifecycle_table rb) a = bt_get (lifecycle_table b) a)"
    "rb_log_table rb = log_table b \<longleftrightarrow> (\<forall>a. bt_get (rb_log_table rb) a = bt_get (log_table b) a)"
    by (auto intro: bt.map_ext)
  have "reduce_bucket b = Ok rb \<longleftrightarrow>
      (\<forall>k. rel_option (\<lambda>v w. map_err TimelineFailure (reduce_variant v) = Ok w)
        (bt_get (state_tables b) k) (bt_get (state_table rb) k))
      \<and> map_err TimelineFailure (reduce_refund (gas_refund_timeline b)) = Ok (gas_refund rb)
      \<and> rb_metadata rb = metadata b \<and> rb_lifecycle_table rb = lifecycle_table b
      \<and> rb_log_table rb = log_table b"
    unfolding reduce_bucket_def bt_traverse_Ok_iff [symmetric]
    by (cases rb) auto
  then show ?thesis
    unfolding maps b refund_reduces map_err_eq_Ok entry_reduces consistent_def summarises_def by auto
qed

lemma reduce_bucket_no_Panic: "reduce_bucket b \<noteq> Panic"
proof -
  have v: "map_err f (reduce_variant v) \<noteq> Panic" for v and f :: "timeline_error \<Rightarrow> builder_error"
    by (cases v) (auto simp: reduce_no_Panic elim!: map_err.elims map_res.elims)
  have r: "map_err f (reduce_refund g) \<noteq> Panic" for g and f :: "timeline_error \<Rightarrow> builder_error"
    by (cases g) (auto simp: reduce_no_Panic elim!: map_err.elims map_res.elims)
  show ?thesis
    using v r bt_traverse_no_Panic [of "\<lambda>key v. map_err TimelineFailure (reduce_variant v)" "state_tables b"]
    by (auto simp: reduce_bucket_def)
qed

section \<open>The two stages together\<close>

text \<open>\<open>partition::process\<close> followed by \<open>reduce::process\<close>.\<close>

definition build_reduced :: "cse_event list \<Rightarrow> (reduced_ir, builder_error) result" where
  "build_reduced es = bind_res (partition_events es) reduce_timelines"

lemma reduce_timelines_exact:
  assumes "list_all2 files bs txs"
  shows "reduce_timelines (RawIr bs) = Ok (ReducedIr rbs) \<longleftrightarrow>
    list_all (\<lambda>tx. consistent (tx_inner tx)) txs \<and> list_all2 summarises rbs txs"
proof -
  have "list_all2 (\<lambda>b rb. reduce_bucket b = Ok rb) bs rbs \<longleftrightarrow>
      list_all (\<lambda>tx. consistent (tx_inner tx)) txs \<and> list_all2 summarises rbs txs"
    using assms
  proof (induction bs txs arbitrary: rbs rule: list_all2_induct)
    case (Cons b bs tx txs)
    then show ?case by (cases rbs) (auto simp: reduce_bucket_exact)
  qed auto
  then show ?thesis by (auto simp: reduce_timelines_def collect_res_eq_Ok)
qed

lemma build_reduced_exact:
  "build_reduced es = Ok (ReducedIr rbs) \<longleftrightarrow>
     (\<exists>txs. es = concat (map tx_events txs) \<and> list_all tx_wf txs
       \<and> list_all (\<lambda>tx. consistent (tx_inner tx)) txs \<and> list_all2 summarises rbs txs)"
proof -
  have "build_reduced es = Ok (ReducedIr rbs) \<longleftrightarrow>
      (\<exists>bs. partition_events es = Ok (RawIr bs) \<and> reduce_timelines (RawIr bs) = Ok (ReducedIr rbs))"
    by (simp add: build_reduced_def) (metis raw_ir.exhaust)
  also have "\<dots> \<longleftrightarrow> (\<exists>bs txs. es = concat (map tx_events txs) \<and> list_all tx_wf txs
      \<and> list_all2 files bs txs \<and> reduce_timelines (RawIr bs) = Ok (ReducedIr rbs))"
    unfolding partition_exact by auto
  also have "\<dots> \<longleftrightarrow> (\<exists>txs. es = concat (map tx_events txs) \<and> list_all tx_wf txs
      \<and> list_all (\<lambda>tx. consistent (tx_inner tx)) txs \<and> list_all2 summarises rbs txs)"
    (is "?l \<longleftrightarrow> ?r")
  proof
    assume ?l
    then show ?r using reduce_timelines_exact by blast
  next
    assume ?r
    then obtain txs where txs: "es = concat (map tx_events txs)" "list_all tx_wf txs"
      "list_all (\<lambda>tx. consistent (tx_inner tx)) txs" "list_all2 summarises rbs txs" by blast
    obtain bs where bs: "list_all2 files bs txs" using fold_transactions [OF txs(2)] by blast
    then have "reduce_timelines (RawIr bs) = Ok (ReducedIr rbs)"
      using reduce_timelines_exact [OF bs] txs by simp
    with bs txs show ?l by blast
  qed
  finally show ?thesis .
qed

text \<open>A stream of one transaction gives one bucket.\<close>

lemma build_reduced_single:
  assumes "tx_wf tx" and "is_ok (build_reduced (tx_events tx))"
  shows "\<exists>rb. build_reduced (tx_events tx) = Ok (ReducedIr [rb]) \<and> summarises rb tx"
proof -
  obtain bs where bs: "list_all2 files bs [tx]" using fold_transactions [of "[tx]"] assms(1) by auto
  have "partition_events (tx_events tx) = Ok (RawIr bs)"
    unfolding partition_exact using bs assms(1) by (intro exI [of _ "[tx]"]) simp
  moreover obtain rbs where ok: "build_reduced (tx_events tx) = Ok (ReducedIr rbs)"
    using assms(2) unfolding is_ok_iff by (metis reduced_ir.exhaust)
  ultimately have "reduce_timelines (RawIr bs) = Ok (ReducedIr rbs)"
    by (simp add: build_reduced_def)
  then have "list_all2 summarises rbs [tx]" using reduce_timelines_exact [OF bs] by blast
  with ok show ?thesis by (auto simp: list_all2_Cons2)
qed

section \<open>Errors\<close>

text \<open>The first break of a chain of observations, as the error that reports it.\<close>

definition breaks :: "'v observed_transition list \<Rightarrow> timeline_error \<Rightarrow> bool" where
  "breaks h e \<longleftrightarrow> (\<exists>xs a b ys. h = xs @ a # b # ys \<and> chained (xs @ [a]) \<and> before b \<noteq> after a
     \<and> e = DiscontinuousLineage (ot_event_id a) (ot_event_id b))"

lemma reduce_history_Err:
  assumes "h \<noteq> []"
  shows "reduce \<lparr>history = h\<rparr> = Err e \<longleftrightarrow> breaks h e"
proof -
  obtain ob obs where h: "h = ob # obs" using assms by (cases h) auto
  have "reduce \<lparr>history = h\<rparr> = Err e \<longleftrightarrow>
      reduce_loop (after ob) (ot_event_id ob) (record_event new_provenance (ot_event_id ob)) obs = Err e"
    by (simp add: h reduce_def split_def)
  then show ?thesis by (simp only: h breaks_def reduce_loop_Err)
qed

lemma map_res_eq_Err [simp]: "map_res f r = Err e \<longleftrightarrow> r = Err e"
  by (cases r) auto

lemma map_err_eq_Err [simp]: "map_err f r = Err e \<longleftrightarrow> (\<exists>e'. r = Err e' \<and> e = f e')"
  by (cases r) auto

lemma entry_reduce_Err:
  "entry_of es k = Some v \<Longrightarrow> reduce_variant v = Err e \<Longrightarrow>
     breaks (history_of (value_obs k) es) e \<or> breaks (history_of (nonce_obs k) es) e"
  by (cases k) (auto simp: reduce_history_Err simp del: concat_eq_Nil_conv)

lemma refund_reduce_Err:
  "reduce_refund (map_option (\<lambda>h. \<lparr>history = h\<rparr>) (nonempty h)) = Err e \<Longrightarrow> breaks h e"
  by (cases "h = []") (auto simp: nonempty_def reduce_history_Err)

lemma reduce_bucket_Err:
  assumes "files b tx" and "reduce_bucket b = Err err"
  shows "\<exists>e. err = TimelineFailure e \<and>
    ((\<exists>k. breaks (history_of (value_obs k) (tx_inner tx)) e \<or> breaks (history_of (nonce_obs k) (tx_inner tx)) e)
     \<or> breaks (history_of refund_obs (tx_inner tx)) e)"
proof -
  have tables: "\<And>k. bt_get (state_tables b) k = entry_of (tx_inner tx) k"
    and refund: "gas_refund_timeline b
      = map_option (\<lambda>h. \<lparr>history = h\<rparr>) (nonempty (history_of refund_obs (tx_inner tx)))"
    using assms(1) by (auto simp: records_def)
  from assms(2) consider
      (table) "bt_traverse (\<lambda>key v. map_err TimelineFailure (reduce_variant v)) (state_tables b) = Err err"
    | (refund) e where "reduce_refund (gas_refund_timeline b) = Err e" "err = TimelineFailure e"
    by (auto simp: reduce_bucket_def)
  then show ?thesis
  proof cases
    case table
    then obtain es1 k v es2 where kv: "entries (state_tables b) = es1 @ (k, v) # es2"
      and "map_err TimelineFailure (reduce_variant v) = Err err"
      unfolding bt_traverse_Err_iff by blast
    then obtain e where "reduce_variant v = Err e" "err = TimelineFailure e" by auto
    moreover have "bt_get (state_tables b) k = Some v"
      unfolding bt.in_iter_iff [symmetric] kv by simp
    ultimately show ?thesis using tables entry_reduce_Err by metis
  next
    case (refund e)
    then have "breaks (history_of refund_obs (tx_inner tx)) e"
      using \<open>gas_refund_timeline b = _\<close> by (intro refund_reduce_Err) simp
    with refund show ?thesis by blast
  qed
qed

text \<open>
  A stream with a sound envelope fails for one reason: two consecutive observations
  of one key in one transaction that do not chain.
\<close>

lemma build_reduced_Err:
  assumes "es = concat (map tx_events txs)" and "list_all tx_wf txs"
    and "build_reduced es = Err err"
  shows "\<exists>tx \<in> set txs. \<exists>e. err = TimelineFailure e \<and>
    ((\<exists>k. breaks (history_of (value_obs k) (tx_inner tx)) e \<or> breaks (history_of (nonce_obs k) (tx_inner tx)) e)
     \<or> breaks (history_of refund_obs (tx_inner tx)) e)"
proof -
  obtain bs where bs: "list_all2 files bs txs" using fold_transactions [OF assms(2)] by blast
  then have "partition_events es = Ok (RawIr bs)" using assms by (auto simp: partition_exact)
  with assms(3) have err: "collect_res reduce_bucket bs = Err err"
    by (simp add: build_reduced_def reduce_timelines_def)
  from err obtain b where "b \<in> set bs" "reduce_bucket b = Err err"
    unfolding collect_res_eq_Err by fastforce
  moreover have "\<exists>tx \<in> set txs. files b tx"
    using bs \<open>b \<in> set bs\<close> by (induction rule: list_all2_induct) auto
  ultimately show ?thesis using reduce_bucket_Err by blast
qed

lemma build_reduced_no_Panic: "build_reduced es \<noteq> Panic"
proof -
  have "collect_res reduce_bucket bs \<noteq> Panic" for bs
    by (rule collect_res_no_Panic) (rule reduce_bucket_no_Panic)
  then show ?thesis by (auto simp: build_reduced_def reduce_timelines_def partition_no_Panic)
qed

section \<open>Properties\<close>

text \<open>
  C12: the reduced representation of a stream is the net effect of its transactions:
  building succeeds with buckets \<open>rbs\<close> exactly when the stream is well bracketed, in
  every transaction the observations of every key chain, and each bucket maps every key
  to the value before its first observation, the value after its last one and the set
  of their event ids.
\<close>

theorem reduction_is_net_effect:
  "build_reduced es = Ok (ReducedIr rbs) \<longleftrightarrow>
     (\<exists>txs. es = concat (map tx_events txs) \<and> list_all tx_wf txs
       \<and> list_all (\<lambda>tx. consistent (tx_inner tx)) txs \<and> list_all2 summarises rbs txs)"
  by (rule build_reduced_exact)

text \<open>
  C30: on a well-bracketed stream the only error is a broken chain, reported with the ids
  of the two consecutive observations of one key whose values do not meet.
\<close>

theorem reduction_error_names_break:
  assumes "es = concat (map tx_events txs)" and "list_all tx_wf txs"
    and "build_reduced es = Err err"
  shows "\<exists>tx \<in> set txs. \<exists>e. err = TimelineFailure e \<and>
    ((\<exists>k. breaks (history_of (value_obs k) (tx_inner tx)) e \<or> breaks (history_of (nonce_obs k) (tx_inner tx)) e)
     \<or> breaks (history_of refund_obs (tx_inner tx)) e)"
  using assms by (rule build_reduced_Err)

text \<open>A nonce that goes from 0 to 1 and is next seen going from 5 to 6.\<close>

definition broken_tx :: transaction where
  "broken_tx = \<lparr>tx_open = sample_event 0 BeginTransaction,
     tx_inner = [sample_event 1 (sample_nonce 1 0 1), sample_event 2 (sample_nonce 1 5 6)],
     tx_close = sample_event 3 EndTransaction\<rparr>"

theorem reduction_error_names_break_witness:
  "\<exists>e. TimelineFailure (DiscontinuousLineage (EventId 1) (EventId 2)) = TimelineFailure e \<and>
    ((\<exists>k. breaks (history_of (value_obs k) (tx_inner broken_tx)) e
        \<or> breaks (history_of (nonce_obs k) (tx_inner broken_tx)) e)
     \<or> breaks (history_of refund_obs (tx_inner broken_tx)) e)"
proof -
  have "list_all tx_wf [broken_tx]" by (simp add: broken_tx_def tx_wf_def sample_defs)
  moreover have "build_reduced (concat (map tx_events [broken_tx]))
      = Err (TimelineFailure (DiscontinuousLineage (EventId 1) (EventId 2)))"
    by code_simp
  ultimately show ?thesis
    using reduction_error_names_break [of "concat (map tx_events [broken_tx])" "[broken_tx]"
        "TimelineFailure (DiscontinuousLineage (EventId 1) (EventId 2))"] by simp
qed

end
