(* ===== verification/World.thy ===== *)
theory World
  imports Reduce
begin

text \<open>
  The meaning of a transaction as a transformation of the world: an abstract state of all
  balances, code hashes, slots, nonces and the refund counter, which a payload reads (its
  previous value) and writes (its current value).  The two stages of
  \<open>runtime/builder/src/{partition,reduce}.rs\<close> refine it: they accept exactly the
  transactions that can have been executed honestly in some world, and the state table they
  produce is the difference between the worlds before and after.
\<close>

section \<open>Worlds\<close>

text \<open>Balances, code hashes and both kinds of slots are 32-byte words under their key.\<close>

record world =
  w_word :: "canonical_key \<Rightarrow> b32"
  w_nonce :: "address \<Rightarrow> u64"
  w_refund :: u64

text \<open>The previous value a payload states is the one in the world.\<close>

fun states_world :: "world \<Rightarrow> cse_payload \<Rightarrow> bool" where
  "states_world w (BalanceChanged p) \<longleftrightarrow> bc_previous_balance p = w_word w (BalanceKey (bc_address p))"
| "states_world w (CodeUpdated p) \<longleftrightarrow> cu_previous_code_hash p = w_word w (CodeKey (cu_address p))"
| "states_world w (StorageSlotUpdated p) \<longleftrightarrow>
     su_previous_value p = w_word w (StorageKey (su_address p) (su_slot p))"
| "states_world w (TransientStorageUpdated p) \<longleftrightarrow>
     ts_previous_value p = w_word w (TransientKey (ts_address p) (ts_slot p))"
| "states_world w (NonceUpdated p) \<longleftrightarrow> nu_previous_nonce p = w_nonce w (nu_address p)"
| "states_world w (GasRefundChanged p) \<longleftrightarrow> gr_previous_refund p = w_refund w"
| "states_world w p \<longleftrightarrow> True"

definition set_word :: "canonical_key \<Rightarrow> b32 \<Rightarrow> world \<Rightarrow> world" where
  "set_word k v w = w\<lparr>w_word := (w_word w)(k := v)\<rparr>"

fun execute :: "cse_payload \<Rightarrow> world \<Rightarrow> world" where
  "execute (BalanceChanged p) w = set_word (BalanceKey (bc_address p)) (bc_current_balance p) w"
| "execute (CodeUpdated p) w = set_word (CodeKey (cu_address p)) (cu_current_code_hash p) w"
| "execute (StorageSlotUpdated p) w =
     set_word (StorageKey (su_address p) (su_slot p)) (su_current_value p) w"
| "execute (TransientStorageUpdated p) w =
     set_word (TransientKey (ts_address p) (ts_slot p)) (ts_current_value p) w"
| "execute (NonceUpdated p) w = w\<lparr>w_nonce := (w_nonce w)(nu_address p := nu_current_nonce p)\<rparr>"
| "execute (GasRefundChanged p) w = w\<lparr>w_refund := gr_current_refund p\<rparr>"
| "execute p w = w"

fun honest :: "world \<Rightarrow> cse_payload list \<Rightarrow> bool" where
  "honest w [] \<longleftrightarrow> True"
| "honest w (p # ps) \<longleftrightarrow> states_world w p \<and> honest (execute p w) ps"

definition world_after :: "cse_payload list \<Rightarrow> world \<Rightarrow> world" where
  "world_after ps w = fold execute ps w"

section \<open>Histories\<close>

text \<open>A history that starts from a value and continues from each value it reaches.\<close>

fun follows :: "'v \<Rightarrow> 'v observed_transition list \<Rightarrow> bool" where
  "follows v [] \<longleftrightarrow> True"
| "follows v (ob # h) \<longleftrightarrow> before ob = v \<and> follows (after ob) h"

lemma follows_chained: "follows v h \<longleftrightarrow> chained h \<and> (h = [] \<or> before (hd h) = v)"
proof (induction h arbitrary: v)
  case (Cons ob h)
  then show ?case by (cases h) auto
qed simp

lemma chained_follows: "chained h \<longleftrightarrow> follows (before (hd h)) h"
  by (auto simp: follows_chained)

lemma honest_histories:
  "honest w (map payload es) \<longleftrightarrow>
     (\<forall>k. follows (w_word w k) (history_of (value_obs k) es))
     \<and> (\<forall>a. follows (w_nonce w a) (history_of (nonce_obs (NonceKey a)) es))
     \<and> follows (w_refund w) (history_of refund_obs es)"
proof (induction es arbitrary: w)
  case (Cons e es)
  show ?case
    by (cases "payload e") (auto simp: Cons.IH obs_simps set_word_def)
qed simp

lemma consistent_honest: "consistent es \<longleftrightarrow> (\<exists>w. honest w (map payload es))"
proof
  assume c: "consistent es"
  let ?w = "\<lparr>w_word = \<lambda>k. before (hd (history_of (value_obs k) es)),
    w_nonce = \<lambda>a. before (hd (history_of (nonce_obs (NonceKey a)) es)),
    w_refund = before (hd (history_of refund_obs es))\<rparr>"
  from c have "honest ?w (map payload es)"
    by (simp add: honest_histories consistent_def chained_follows)
  then show "\<exists>w. honest w (map payload es)" ..
next
  assume "\<exists>w. honest w (map payload es)"
  moreover have "chained (history_of (nonce_obs k) es)" if "\<forall>a. chained (history_of (nonce_obs (NonceKey a)) es)" for k
    using that by (cases k) (simp_all add: nonce_obs_other chained_concat_Nil)
  ultimately show "consistent es"
    by (auto simp: honest_histories consistent_def follows_chained)
qed

lemma world_after_fields:
  "w_word (world_after (map payload es) w) k = last (w_word w k # map after (history_of (value_obs k) es))"
  "w_nonce (world_after (map payload es) w) a = last (w_nonce w a # map after (history_of (nonce_obs (NonceKey a)) es))"
  "w_refund (world_after (map payload es) w) = last (w_refund w # map after (history_of refund_obs es))"
proof (induction es rule: rev_induct)
  case (snoc e es)
  note IH = snoc
  { case 1 show ?case using IH(1) by (cases "payload e") (auto simp: world_after_def obs_simps set_word_def) }
  { case 2 show ?case using IH(2) by (cases "payload e") (auto simp: world_after_def obs_simps set_word_def) }
  { case 3 show ?case using IH(3) by (cases "payload e") (auto simp: world_after_def obs_simps set_word_def) }
qed (simp_all add: world_after_def)

section \<open>A bucket as a difference of worlds\<close>

text \<open>The values a state table entry goes from and to, where the entry is a word.\<close>

fun word_change :: "reduced_variant \<Rightarrow> b32 reduced_transition option" where
  "word_change (BalanceRt t) = Some t"
| "word_change (CodeRt t) = Some t"
| "word_change (StorageRt t) = Some t"
| "word_change (TransientRt t) = Some t"
| "word_change (NonceRt t) = None"

fun nonce_change :: "reduced_variant \<Rightarrow> u64 reduced_transition option" where
  "nonce_change (NonceRt t) = Some t"
| "nonce_change v = None"

definition word_entry :: "reduced_bucket \<Rightarrow> canonical_key \<Rightarrow> b32 reduced_transition option" where
  "word_entry rb k = Option.bind (bt_get (state_table rb) k) word_change"

definition nonce_entry :: "reduced_bucket \<Rightarrow> address \<Rightarrow> u64 reduced_transition option" where
  "nonce_entry rb a = Option.bind (bt_get (state_table rb) (NonceKey a)) nonce_change"

text \<open>A world the bucket can start from, and the world it leads to.\<close>

definition starts_from :: "reduced_bucket \<Rightarrow> world \<Rightarrow> bool" where
  "starts_from rb w \<longleftrightarrow>
     (\<forall>k t. word_entry rb k = Some t \<longrightarrow> initial t = w_word w k)
     \<and> (\<forall>a t. nonce_entry rb a = Some t \<longrightarrow> initial t = w_nonce w a)
     \<and> (\<forall>t. gas_refund rb = Some t \<longrightarrow> initial t = w_refund w)"

definition leads_to :: "reduced_bucket \<Rightarrow> world \<Rightarrow> world" where
  "leads_to rb w =
     \<lparr>w_word = \<lambda>k. (case word_entry rb k of Some t \<Rightarrow> terminal t | None \<Rightarrow> w_word w k),
      w_nonce = \<lambda>a. (case nonce_entry rb a of Some t \<Rightarrow> terminal t | None \<Rightarrow> w_nonce w a),
      w_refund = (case gas_refund rb of Some t \<Rightarrow> terminal t | None \<Rightarrow> w_refund w)\<rparr>"

lemma bucket_entries:
  assumes "summarises rb tx"
  shows "word_entry rb k = net (history_of (value_obs k) (tx_inner tx))"
    and "nonce_entry rb a = net (history_of (nonce_obs (NonceKey a)) (tx_inner tx))"
    and "gas_refund rb = net (history_of refund_obs (tx_inner tx))"
  using assms
  by (cases k; simp add: summarises_def word_entry_def nonce_entry_def map_option_case option.case_eq_if
      bind_eq_None_conv)+

lemma net_of_history: "(case net h of Some t \<Rightarrow> terminal t | None \<Rightarrow> v) = last (v # map after h)"
  by (cases h) (simp_all add: net_def last_map)

lemma starts_from_history: "(\<forall>t. net h = Some t \<longrightarrow> initial t = v) \<longleftrightarrow> h = [] \<or> before (hd h) = v"
  by (cases h) (auto simp: net_def nonempty_def)

lemma bucket_difference:
  assumes "summarises rb tx" and "consistent (tx_inner tx)"
  shows "starts_from rb w \<longleftrightarrow> honest w (map payload (tx_inner tx))"
    and "leads_to rb w = world_after (map payload (tx_inner tx)) w"
proof -
  show "starts_from rb w \<longleftrightarrow> honest w (map payload (tx_inner tx))"
    using assms(2)
    by (simp add: starts_from_def bucket_entries [OF assms(1)] starts_from_history honest_histories
        follows_chained consistent_def)
  show "leads_to rb w = world_after (map payload (tx_inner tx)) w"
    by (rule world.equality)
      (simp_all add: leads_to_def bucket_entries [OF assms(1)] net_of_history world_after_fields fun_eq_iff
        del: last.simps)
qed

lemma tx_payloads:
  assumes "tx_wf tx"
  shows "map payload (tx_events tx) = BeginTransaction # map payload (tx_inner tx) @ [EndTransaction]"
  using assms by (simp add: tx_wf_def tx_events_def)

lemma honest_append: "honest w (ps @ qs) \<longleftrightarrow> honest w ps \<and> honest (world_after ps w) qs"
  by (induction ps arbitrary: w) (simp_all add: world_after_def)

lemma honest_tx:
  assumes "tx_wf tx"
  shows "honest w (map payload (tx_events tx)) \<longleftrightarrow> honest w (map payload (tx_inner tx))"
    "world_after (map payload (tx_events tx)) w = world_after (map payload (tx_inner tx)) w"
  unfolding tx_payloads [OF assms] by (simp_all add: honest_append world_after_def)

lemma consistent_reduces:
  assumes "files b tx" and "consistent (tx_inner tx)"
  shows "is_ok (reduce_bucket b)"
proof -
  let ?es = "tx_inner tx"
  have b: "\<And>k. bt_get (state_tables b) k = entry_of ?es k"
    "gas_refund_timeline b = map_option (\<lambda>h. \<lparr>history = h\<rparr>) (nonempty (history_of refund_obs ?es))"
    using assms(1) by (auto simp: records_def)
  have entry: "rel_option (\<lambda>v w. reduce_variant v = Ok w) (entry_of ?es k) (net_of ?es k)" for k
    using assms(2) by (simp add: entry_reduces consistent_def)
  then have "reduce_variant v = Ok (the (net_of ?es k))" if "bt_get (state_tables b) k = Some v" for k v
  proof -
    from that b(1) [of k] have "entry_of ?es k = Some v" by simp
    with entry [of k] show ?thesis by (auto simp: option_rel_Some1)
  qed
  then have "bt_traverse (\<lambda>key v. map_err TimelineFailure (reduce_variant v)) (state_tables b)
      = Ok (bt_map (\<lambda>k v. the (net_of ?es k)) (state_tables b))"
    by (intro bt_traverse_map_Ok) simp
  moreover have "reduce_refund (gas_refund_timeline b) = Ok (net (history_of refund_obs ?es))"
    using assms(2) by (simp add: b(2) refund_reduces consistent_def)
  ultimately show ?thesis by (simp add: reduce_bucket_def)
qed

lemma built_consistent:
  assumes "tx_wf tx"
  shows "is_ok (build_reduced (tx_events tx)) \<longleftrightarrow> consistent (tx_inner tx)"
proof -
  obtain bs where bs: "list_all2 files bs [tx]" using fold_transactions [of "[tx]"] assms by auto
  have partitioned: "partition_events (tx_events tx) = Ok (RawIr bs)"
    unfolding partition_exact using bs assms by (intro exI [of _ "[tx]"]) simp
  show ?thesis
  proof
    assume "is_ok (build_reduced (tx_events tx))"
    then obtain rb where "build_reduced (tx_events tx) = Ok (ReducedIr [rb])"
      using build_reduced_single [OF assms] by blast
    then show "consistent (tx_inner tx)"
      using partitioned reduce_timelines_exact [OF bs] by (auto simp: build_reduced_def)
  next
    assume c: "consistent (tx_inner tx)"
    obtain b where b: "bs = [b]" "files b tx" using bs by (auto simp: list_all2_Cons2)
    from consistent_reduces [OF b(2) c] show "is_ok (build_reduced (tx_events tx))"
      using partitioned b(1) by (auto simp: build_reduced_def reduce_timelines_def is_ok_iff)
  qed
qed

section \<open>Properties\<close>

text \<open>
  C3: partition and reduction refine the execution of a transaction.  They accept the
  events of a transaction exactly when its payloads can be executed honestly in some world,
  each stating the value it finds.  The one bucket they then produce can start from
  exactly the worlds in which the payloads are honest, and leads from each world to the
  world after executing them one by one.
\<close>

theorem reduction_is_state_difference:
  assumes "tx_wf tx"
  defines "ps \<equiv> map payload (tx_events tx)"
  shows "if \<exists>w. honest w ps
    then \<exists>rb. build_reduced (tx_events tx) = Ok (ReducedIr [rb])
      \<and> (\<forall>w. starts_from rb w \<longleftrightarrow> honest w ps) \<and> (\<forall>w. leads_to rb w = world_after ps w)
    else \<not> is_ok (build_reduced (tx_events tx))"
proof -
  have honest: "(\<exists>w. honest w ps) \<longleftrightarrow> is_ok (build_reduced (tx_events tx))"
    using assms(1) by (simp add: ps_def honest_tx built_consistent consistent_honest)
  show ?thesis
  proof (cases "is_ok (build_reduced (tx_events tx))")
    case True
    then obtain rb where "build_reduced (tx_events tx) = Ok (ReducedIr [rb])" "summarises rb tx"
      using build_reduced_single [OF assms(1)] by blast
    moreover have "consistent (tx_inner tx)" using True assms(1) by (simp add: built_consistent)
    ultimately show ?thesis
      using honest True assms(1) bucket_difference by (auto simp: ps_def honest_tx)
  qed (simp add: honest)
qed

theorem reduction_is_state_difference_witness:
  "\<exists>rb. build_reduced (tx_events \<lparr>tx_open = sample_event 0 BeginTransaction,
        tx_inner = [sample_event 1 (sample_nonce 1 4 5), sample_event 2 (sample_nonce 1 5 6)],
        tx_close = sample_event 3 EndTransaction\<rparr>) = Ok (ReducedIr [rb])
    \<and> w_nonce (leads_to rb \<lparr>w_word = \<lambda>k. arr_fill 0, w_nonce = \<lambda>a. 4, w_refund = 0\<rparr>) (arr_fill 1) = 6"
proof -
  let ?tx = "\<lparr>tx_open = sample_event 0 BeginTransaction,
      tx_inner = [sample_event 1 (sample_nonce 1 4 5), sample_event 2 (sample_nonce 1 5 6)],
      tx_close = sample_event 3 EndTransaction\<rparr>"
  let ?w = "\<lparr>w_word = \<lambda>k. arr_fill 0, w_nonce = \<lambda>a. 4, w_refund = 0\<rparr>"
  have ps: "map payload (tx_events ?tx) = [BeginTransaction, sample_nonce 1 4 5, sample_nonce 1 5 6, EndTransaction]"
    by (simp add: tx_events_def sample_event_def)
  have "tx_wf ?tx" by (simp add: tx_wf_def sample_defs)
  moreover have "honest ?w (map payload (tx_events ?tx))" unfolding ps by (simp add: sample_defs)
  ultimately obtain rb where "build_reduced (tx_events ?tx) = Ok (ReducedIr [rb])"
    "leads_to rb ?w = world_after (map payload (tx_events ?tx)) ?w"
    using reduction_is_state_difference [of ?tx] by (auto split: if_splits)
  moreover have "w_nonce (world_after (map payload (tx_events ?tx)) ?w) (arr_fill 1) = 6"
    unfolding ps by (simp add: world_after_def sample_defs)
  ultimately show ?thesis by auto
qed

end
