(* ===== verification/Lifecycle.thy ===== *)
theory Lifecycle
  imports Partition
begin

text \<open>
  \<open>runtime/builder/src/lifecycle\<close>, first half: generation keys (\<open>keys.rs\<close>), the
  semantic and canonical relations (\<open>semantic.rs\<close>, \<open>canonical.rs\<close>), diagnostics
  (\<open>diagnostics.rs\<close>) and lifecycle resolution (\<open>resolve.rs\<close>), with its reading as a
  recursion over the observations of one address.
\<close>

section \<open>Keys (keys.rs)\<close>

datatype generation_key = GenerationKey (gk_address: address) (gk_id: u32)

datatype aspect_key = AspectKey (ak_generation: generation_key)

definition gk_rank :: "generation_key \<Rightarrow> address \<times> u32" where
  "gk_rank k = (gk_address k, gk_id k)"

instantiation generation_key :: linorder
begin
definition less_eq_generation_key :: "generation_key \<Rightarrow> generation_key \<Rightarrow> bool" where
  "k \<le> l \<longleftrightarrow> gk_rank k \<le> gk_rank l"
definition less_generation_key :: "generation_key \<Rightarrow> generation_key \<Rightarrow> bool" where
  "k < l \<longleftrightarrow> gk_rank k < gk_rank l"
instance
  by standard (auto simp: less_eq_generation_key_def less_generation_key_def gk_rank_def
      less_le_not_le intro: generation_key.expand)
end

text \<open>\<open>{:?}\<close> of a key, as \<open>derive(Debug)\<close> prints it.\<close>

definition debug_generation_key :: "generation_key \<Rightarrow> string" where
  "debug_generation_key k =
     ''GenerationKey { address: '' @ debug_arr (gk_address k) @ '', generation_id: ''
       @ show_nat (unat (gk_id k)) @ '' }''"

section \<open>Relations (semantic.rs, canonical.rs)\<close>

record account_pre_state =
  ap_address :: address
  ap_existed_before_tx :: bool

record generation_relation =
  gn_address :: address
  gn_generation_id :: u32
  gn_begin :: trace_provenance
  gn_end :: "trace_provenance option"

record semantic_ir =
  sem_pre_states :: "account_pre_state list"
  sem_generations :: "generation_relation list"

record canonical_pre_state =
  cp_key :: generation_key
  cp_existed_before_tx :: bool

record canonical_generation =
  cg_key :: generation_key
  cg_begin :: trace_provenance
  cg_end :: "trace_provenance option"

record canonical_balance =
  cb_key :: generation_key
  cb_value :: "u64 \<times> u64 \<times> u64 \<times> u64"
  cb_location :: trace_provenance

record canonical_ir =
  ci_pre_states :: "canonical_pre_state list"
  ci_generations :: "canonical_generation list"
  ci_balances :: "canonical_balance list"

section \<open>Diagnostics (diagnostics.rs)\<close>

datatype severity = Severity_Error | Severity_Warning

datatype lifecycle_violation =
    Collision address u32
  | DuplicateKey generation_key
  | IntegrityBreach generation_key
  | IntervalInvalid generation_key
  | OverlapDetected address
  | OrderingBreach

record diagnostic =
  dg_severity :: severity
  dg_location :: trace_provenance
  dg_violation :: lifecycle_violation
  dg_explanation :: string

record invariant_report =
  keys_unique :: bool
  referential_integrity :: bool
  deterministic_order :: bool
  intervals_valid :: bool

record 'a pass_output =
  pass_value :: 'a
  pass_diagnostics :: "diagnostic list"
  pass_report :: invariant_report

definition is_valid :: "'a pass_output \<Rightarrow> bool" where
  "is_valid out \<longleftrightarrow> \<not> list_ex (\<lambda>d. dg_severity d = Severity_Error) (pass_diagnostics out)"

section \<open>Resolution (resolve.rs)\<close>

text \<open>
  The variables of the two loops: what is collected over all addresses, and the state
  of one address.
\<close>

record resolve_state =
  rs_generations :: "generation_relation list"
  rs_diagnostics :: "diagnostic list"
  rs_gen_id :: u32
  rs_begin :: trace_provenance
  rs_open :: bool

definition collision_diagnostic :: "address \<Rightarrow> u32 \<Rightarrow> trace_provenance \<Rightarrow> diagnostic" where
  "collision_diagnostic a n loc =
     \<lparr>dg_severity = Severity_Error, dg_location = loc, dg_violation = Collision a n,
      dg_explanation = ''Contract creation observed on account '' @ debug_arr a
        @ '' while generation '' @ show_nat (unat n) @ '' was already active''\<rparr>"

text \<open>
  One observation.  \<open>current_gen_id += 1\<close> is the addition of \<open>u32\<close>, which wraps in a
  release build.
\<close>

definition resolve_step :: "address \<Rightarrow> bool \<Rightarrow> resolve_state \<Rightarrow> observed_lifecycle \<Rightarrow> resolve_state" where
  "resolve_step address existed_before_tx s obs =
     (case lifecycle_payload obs of
        Created _ \<Rightarrow>
          let existed_before = (if rs_gen_id s = 0 then existed_before_tx else False);
              s = (if existed_before
                   then s\<lparr>rs_diagnostics := rs_diagnostics s
                     @ [collision_diagnostic address (rs_gen_id s) (ol_provenance obs)]\<rparr>
                   else s)
          in s\<lparr>rs_begin := ol_provenance obs, rs_open := True\<rparr>
      | Destroyed _ \<Rightarrow>
          s\<lparr>rs_generations := rs_generations s
              @ [\<lparr>gn_address = address, gn_generation_id = rs_gen_id s, gn_begin = rs_begin s,
                  gn_end = Some (ol_provenance obs)\<rparr>],
            rs_gen_id := rs_gen_id s + 1, rs_begin := ol_provenance obs, rs_open := False\<rparr>)"

type_synonym resolve_acc = "account_pre_state list \<times> generation_relation list \<times> diagnostic list"

text \<open>One address.\<close>

definition resolve_address ::
    "(address, bool) btree_map \<Rightarrow> resolve_acc \<Rightarrow> address \<times> observed_lifecycle list \<Rightarrow> resolve_acc" where
  "resolve_address pre_states acc entry =
     (case (acc, entry) of ((pres, gens, diags), (address, observations)) \<Rightarrow>
       let existed_before_tx = (case bt_get pre_states address of Some b \<Rightarrow> b | None \<Rightarrow> False);
           begin = (case observations of o1 # _ \<Rightarrow> ol_provenance o1 | [] \<Rightarrow> default_provenance);
           s = foldl (resolve_step address existed_before_tx)
             \<lparr>rs_generations = gens, rs_diagnostics = diags, rs_gen_id = 0, rs_begin = begin,
              rs_open = True\<rparr> observations;
           gens = (if rs_open s
             then rs_generations s @ [\<lparr>gn_address = address, gn_generation_id = rs_gen_id s,
               gn_begin = rs_begin s, gn_end = None\<rparr>]
             else rs_generations s)
       in (pres @ [\<lparr>ap_address = address, ap_existed_before_tx = existed_before_tx\<rparr>], gens,
           rs_diagnostics s))"

definition resolve ::
    "(address, observed_lifecycle list) btree_map \<Rightarrow> (address, bool) btree_map \<Rightarrow> semantic_ir pass_output" where
  "resolve table pre_states =
     (case foldl (resolve_address pre_states) ([], [], []) (entries table) of (pres, gens, diags) \<Rightarrow>
        \<lparr>pass_value = \<lparr>sem_pre_states = pres, sem_generations = gens\<rparr>,
         pass_diagnostics = diags,
         pass_report = \<lparr>keys_unique = True, referential_integrity = True,
           deterministic_order = False, intervals_valid = True\<rparr>\<rparr>)"

section \<open>The lifetimes of one address\<close>

text \<open>
  The reading of the loop: every destruction closes the current lifetime and starts the
  next one; a creation restarts it; what is left open at the end never ends.
\<close>

fun is_created :: "observed_lifecycle \<Rightarrow> bool" where
  "is_created obs = (case lifecycle_payload obs of Created _ \<Rightarrow> True | Destroyed _ \<Rightarrow> False)"

fun lifetimes :: "address \<Rightarrow> u32 \<Rightarrow> trace_provenance \<Rightarrow> bool \<Rightarrow> observed_lifecycle list
    \<Rightarrow> generation_relation list" where
  "lifetimes a n b opn [] =
     (if opn then [\<lparr>gn_address = a, gn_generation_id = n, gn_begin = b, gn_end = None\<rparr>] else [])"
| "lifetimes a n b opn (obs # rest) =
     (if is_created obs then lifetimes a n (ol_provenance obs) True rest
      else \<lparr>gn_address = a, gn_generation_id = n, gn_begin = b, gn_end = Some (ol_provenance obs)\<rparr>
        # lifetimes a (n + 1) (ol_provenance obs) False rest)"

fun collisions :: "address \<Rightarrow> bool \<Rightarrow> u32 \<Rightarrow> observed_lifecycle list \<Rightarrow> diagnostic list" where
  "collisions a ex n [] = []"
| "collisions a ex n (obs # rest) =
     (if is_created obs
      then (if ex \<and> n = 0 then [collision_diagnostic a n (ol_provenance obs)] else [])
        @ collisions a ex n rest
      else collisions a ex (n + 1) rest)"

definition account_lifetimes :: "address \<times> observed_lifecycle list \<Rightarrow> generation_relation list" where
  "account_lifetimes entry = (case entry of (a, obs) \<Rightarrow>
     lifetimes a 0 (case obs of o1 # _ \<Rightarrow> ol_provenance o1 | [] \<Rightarrow> default_provenance) True obs)"

abbreviation existed_in :: "(address, bool) btree_map \<Rightarrow> address \<Rightarrow> bool" where
  "existed_in pre_states a \<equiv> (case bt_get pre_states a of Some b \<Rightarrow> b | None \<Rightarrow> False)"

lemma resolve_fold:
  "let s' = foldl (resolve_step a ex) s obs
   in rs_generations s' @ (if rs_open s' then [\<lparr>gn_address = a, gn_generation_id = rs_gen_id s',
        gn_begin = rs_begin s', gn_end = None\<rparr>] else [])
       = rs_generations s @ lifetimes a (rs_gen_id s) (rs_begin s) (rs_open s) obs
     \<and> rs_diagnostics s' = rs_diagnostics s @ collisions a ex (rs_gen_id s) obs"
proof (induction obs arbitrary: s)
  case (Cons o1 obs)
  show ?case
    using Cons.IH [of "resolve_step a ex s o1"]
    by (cases "lifecycle_payload o1") (auto simp: Let_def resolve_step_def)
qed (simp add: Let_def)

lemma resolve_address_eq:
  "resolve_address pre_states (pres, gens, diags) (a, obs) =
     (pres @ [\<lparr>ap_address = a, ap_existed_before_tx = existed_in pre_states a\<rparr>],
      gens @ account_lifetimes (a, obs),
      diags @ collisions a (existed_in pre_states a) 0 obs)"
  using resolve_fold [of a "existed_in pre_states a" "\<lparr>rs_generations = gens, rs_diagnostics = diags,
      rs_gen_id = 0, rs_begin = (case obs of o1 # _ \<Rightarrow> ol_provenance o1 | [] \<Rightarrow> default_provenance),
      rs_open = True\<rparr>" obs]
  by (simp add: resolve_address_def Let_def account_lifetimes_def split: if_splits)

lemma resolve_eq:
  "resolve table pre_states =
     \<lparr>pass_value =
        \<lparr>sem_pre_states = map (\<lambda>(a, obs). \<lparr>ap_address = a, ap_existed_before_tx = existed_in pre_states a\<rparr>)
           (entries table),
         sem_generations = concat (map account_lifetimes (entries table))\<rparr>,
      pass_diagnostics =
        concat (map (\<lambda>(a, obs). collisions a (existed_in pre_states a) 0 obs) (entries table)),
      pass_report = \<lparr>keys_unique = True, referential_integrity = True,
        deterministic_order = False, intervals_valid = True\<rparr>\<rparr>"
proof -
  have "foldl (resolve_address pre_states) (p, g, d) es =
      (p @ map (\<lambda>(a, obs). \<lparr>ap_address = a, ap_existed_before_tx = existed_in pre_states a\<rparr>) es,
       g @ concat (map account_lifetimes es),
       d @ concat (map (\<lambda>(a, obs). collisions a (existed_in pre_states a) 0 obs) es))" for p g d es
    by (induction es arbitrary: p g d) (auto simp: resolve_address_eq)
  then show ?thesis by (simp add: resolve_def)
qed

section \<open>Facts on lifetimes\<close>

lemma lifetimes_address: "g \<in> set (lifetimes a n b opn obs) \<Longrightarrow> gn_address g = a"
  by (induction a n b opn obs rule: lifetimes.induct) (auto split: if_splits)

lemma length_lifetimes: "length (lifetimes a n b opn obs) \<le> Suc (length obs)"
  by (induction a n b opn obs rule: lifetimes.induct) auto

text \<open>The generation ids of an address count up from 0.\<close>

lemma lifetimes_ids:
  "map gn_generation_id (lifetimes a n b opn obs)
     = map (\<lambda>i. n + of_nat i) [0..<length (lifetimes a n b opn obs)]"
proof (induction a n b opn obs rule: lifetimes.induct)
  case (2 a n b opn obs rest)
  show ?case
  proof (cases "is_created obs")
    case True
    with 2 show ?thesis by simp
  next
    case False
    let ?l = "lifetimes a (n + 1) (ol_provenance obs) False rest"
    have "map (\<lambda>i. n + of_nat i) [0..<Suc (length ?l)] = n # map (\<lambda>i. n + 1 + of_nat i) [0..<length ?l]"
      by (simp add: upt_conv_Cons map_Suc_upt [symmetric] add.assoc del: upt_Suc)
    with False 2 show ?thesis by simp
  qed
qed simp

end
