(* ===== verification/Canonicalize.thy ===== *)
theory Canonicalize
  imports Lifecycle "HOL-Library.Multiset"
begin

text \<open>
  \<open>runtime/builder/src/lifecycle/canonicalize.rs\<close>: the canonicalization pass sorts
  and deduplicates the relations, and the schema verification reports on four
  invariants.  Shown here: what each flag of the report says, which diagnostics it gives, that the pass is idempotent and, when keys are
  distinct, independent of the order of its input.
\<close>

section \<open>The pass as written\<close>

text \<open>
  The comparator of the generations: address, then begin ordinal, then generation id;
  \<open>sort_by\<close> is stable, like \<open>sort_key\<close> on the triple it compares (\<open>gen_cmp_rank\<close>).
\<close>

definition gen_cmp :: "canonical_generation \<Rightarrow> canonical_generation \<Rightarrow> ordering" where
  "gen_cmp a b =
     then_cmp (then_cmp (cmp (gk_address (cg_key a)) (gk_address (cg_key b)))
       (cmp (trace_ordinal (cg_begin a)) (trace_ordinal (cg_begin b))))
       (cmp (gk_id (cg_key a)) (gk_id (cg_key b)))"

definition gen_rank :: "canonical_generation \<Rightarrow> address \<times> u64 \<times> u32" where
  "gen_rank g = (gk_address (cg_key g), trace_ordinal (cg_begin g), gk_id (cg_key g))"

lemma gen_cmp_rank: "gen_cmp a b = cmp (gen_rank a) (gen_rank b)"
  by (auto simp: gen_cmp_def gen_rank_def cmp_def)

definition schema_error :: "trace_provenance \<Rightarrow> lifecycle_violation \<Rightarrow> string \<Rightarrow> diagnostic" where
  "schema_error loc v msg =
     \<lparr>dg_severity = Severity_Error, dg_location = loc, dg_violation = v, dg_explanation = msg\<rparr>"

text \<open>The verification's variables: diagnostics, report and the two key sets.\<close>

record verify_state =
  vs_diagnostics :: "diagnostic list"
  vs_report :: invariant_report
  vs_seen :: "generation_key set"
  vs_active :: "generation_key set"

definition report_error :: "diagnostic \<Rightarrow> verify_state \<Rightarrow> verify_state" where
  "report_error d s = s\<lparr>vs_diagnostics := vs_diagnostics s @ [d]\<rparr>"

definition duplicate_key :: "canonical_generation \<Rightarrow> diagnostic" where
  "duplicate_key g = schema_error (cg_begin g) (DuplicateKey (cg_key g))
     (''Key uniqueness violation: '' @ debug_generation_key (cg_key g))"

definition interval_invalid :: "canonical_generation \<Rightarrow> diagnostic" where
  "interval_invalid g = schema_error (cg_begin g) (IntervalInvalid (cg_key g))
     (''Temporal well-formedness breach for '' @ debug_generation_key (cg_key g))"

definition integrity_breach :: "canonical_balance \<Rightarrow> diagnostic" where
  "integrity_breach bal = schema_error (cb_location bal) (IntegrityBreach (cb_key bal))
     (''Referential integrity breach for '' @ debug_generation_key (cb_key bal))"

definition ordering_breach :: "canonical_generation \<Rightarrow> diagnostic" where
  "ordering_breach g2 = schema_error (cg_begin g2) OrderingBreach
     ''Deterministic order violation detected within generations''"

definition overlap_detected :: "canonical_generation \<Rightarrow> diagnostic" where
  "overlap_detected g2 = schema_error (cg_begin g2) (OverlapDetected (gk_address (cg_key g2)))
     (''Temporal overlap breach at trace ordinal '' @ show_nat (unat (trace_ordinal (cg_begin g2))))"

definition verify_generation :: "verify_state \<Rightarrow> canonical_generation \<Rightarrow> verify_state" where
  "verify_generation s g =
     (let s = (if cg_key g \<in> vs_seen s
               then report_error (duplicate_key g) (s\<lparr>vs_report := (vs_report s)\<lparr>keys_unique := False\<rparr>\<rparr>)
               else s\<lparr>vs_seen := insert (cg_key g) (vs_seen s)\<rparr>);
          s = s\<lparr>vs_active := insert (cg_key g) (vs_active s)\<rparr>
      in case cg_end g of
           Some e \<Rightarrow>
             if trace_ordinal (cg_begin g) \<ge> trace_ordinal e
             then report_error (interval_invalid g) (s\<lparr>vs_report := (vs_report s)\<lparr>intervals_valid := False\<rparr>\<rparr>)
             else s
         | None \<Rightarrow> s)"

definition verify_balance :: "verify_state \<Rightarrow> canonical_balance \<Rightarrow> verify_state" where
  "verify_balance s bal =
     (if cb_key bal \<notin> vs_active s
      then report_error (integrity_breach bal)
        (s\<lparr>vs_report := (vs_report s)\<lparr>referential_integrity := False\<rparr>\<rparr>)
      else s)"

definition verify_window :: "verify_state \<Rightarrow> canonical_generation \<times> canonical_generation \<Rightarrow> verify_state" where
  "verify_window s w =
     (case w of (g1, g2) \<Rightarrow>
       let s = (if gen_cmp g1 g2 = Greater
                then report_error (ordering_breach g2)
                  (s\<lparr>vs_report := (vs_report s)\<lparr>deterministic_order := False\<rparr>\<rparr>)
                else s)
       in if gk_address (cg_key g1) = gk_address (cg_key g2)
          then (case cg_end g1 of
                  Some e \<Rightarrow>
                    if trace_ordinal e \<ge> trace_ordinal (cg_begin g2)
                    then report_error (overlap_detected g2)
                      (s\<lparr>vs_report := (vs_report s)\<lparr>intervals_valid := False\<rparr>\<rparr>)
                    else s
                | None \<Rightarrow> s)
          else s)"

definition verify_global_schema :: "canonical_ir \<Rightarrow> diagnostic list \<times> invariant_report" where
  "verify_global_schema ir =
     (let s = \<lparr>vs_diagnostics = [],
               vs_report = \<lparr>keys_unique = True, referential_integrity = True,
                 deterministic_order = True, intervals_valid = True\<rparr>,
               vs_seen = {}, vs_active = {}\<rparr>;
          s = foldl verify_generation s (ci_generations ir);
          s = foldl verify_balance s (ci_balances ir);
          s = foldl verify_window s (windows2 (ci_generations ir))
      in (vs_diagnostics s, vs_report s))"

definition verify_already_canonical :: "canonical_ir \<Rightarrow> diagnostic list \<times> invariant_report" where
  "verify_already_canonical ir = verify_global_schema ir"

text \<open>\<open>dedup_by\<close> hands the later element first.\<close>

definition canonical_form ::
    "canonical_pre_state list \<Rightarrow> canonical_generation list \<Rightarrow> canonical_balance list \<Rightarrow> canonical_ir" where
  "canonical_form pre_states generations balances =
     \<lparr>ci_pre_states = dedup_by (\<lambda>a b. cp_key a = cp_key b) (sort_key cp_key pre_states),
      ci_generations = dedup_by (\<lambda>a b. cg_key a = cg_key b) (sort_key gen_rank generations),
      ci_balances = dedup_by (\<lambda>a b. cb_key a = cb_key b) (sort_key cb_key balances)\<rparr>"

definition canonicalize ::
    "canonical_pre_state list \<Rightarrow> canonical_generation list \<Rightarrow> canonical_balance list \<Rightarrow> canonical_ir pass_output" where
  "canonicalize pre_states generations balances =
     (let ir = canonical_form pre_states generations balances;
          (diagnostics, report) = verify_global_schema ir
      in \<lparr>pass_value = ir, pass_diagnostics = diagnostics, pass_report = report\<rparr>)"

section \<open>What the report says\<close>

definition interval_ok :: "canonical_generation \<Rightarrow> bool" where
  "interval_ok g \<longleftrightarrow> (case cg_end g of Some e \<Rightarrow> trace_ordinal (cg_begin g) < trace_ordinal e | None \<Rightarrow> True)"

text \<open>The end of a generation lies before the beginning of the next one of its address.\<close>

definition no_overlap :: "canonical_generation \<Rightarrow> canonical_generation \<Rightarrow> bool" where
  "no_overlap g1 g2 \<longleftrightarrow> gk_address (cg_key g1) = gk_address (cg_key g2) \<longrightarrow>
     (case cg_end g1 of Some e \<Rightarrow> trace_ordinal e < trace_ordinal (cg_begin g2) | None \<Rightarrow> True)"

definition sound_state :: "verify_state \<Rightarrow> bool" where
  "sound_state s \<longleftrightarrow>
     (vs_diagnostics s = [] \<longleftrightarrow> keys_unique (vs_report s) \<and> referential_integrity (vs_report s)
        \<and> deterministic_order (vs_report s) \<and> intervals_valid (vs_report s))
     \<and> (\<forall>d \<in> set (vs_diagnostics s). dg_severity d = Severity_Error)"

lemmas verify_step_defs = verify_generation_def verify_balance_def verify_window_def
  report_error_def Let_def

lemma error_severity [simp]:
  "dg_severity (duplicate_key g) = Severity_Error" "dg_severity (interval_invalid g) = Severity_Error"
  "dg_severity (integrity_breach bal) = Severity_Error" "dg_severity (ordering_breach g) = Severity_Error"
  "dg_severity (overlap_detected g) = Severity_Error"
  by (simp_all add: duplicate_key_def interval_invalid_def integrity_breach_def ordering_breach_def
      overlap_detected_def schema_error_def)

lemma sound_state_step:
  "sound_state s \<Longrightarrow> sound_state (verify_generation s g)"
  "sound_state s \<Longrightarrow> sound_state (verify_balance s bal)"
  "sound_state s \<Longrightarrow> sound_state (verify_window s w)"
  by (auto simp: sound_state_def verify_step_defs split: option.splits prod.splits)

lemma sound_state_foldl:
  "(\<And>s x. sound_state s \<Longrightarrow> sound_state (f s x)) \<Longrightarrow> sound_state s \<Longrightarrow> sound_state (foldl f s xs)"
  by (induction xs arbitrary: s) auto

lemma verify_generation_effect:
  "vs_seen (verify_generation s g) = insert (cg_key g) (vs_seen s)"
  "vs_active (verify_generation s g) = insert (cg_key g) (vs_active s)"
  "keys_unique (vs_report (verify_generation s g)) \<longleftrightarrow> keys_unique (vs_report s) \<and> cg_key g \<notin> vs_seen s"
  "intervals_valid (vs_report (verify_generation s g)) \<longleftrightarrow> intervals_valid (vs_report s) \<and> interval_ok g"
  "referential_integrity (vs_report (verify_generation s g)) = referential_integrity (vs_report s)"
  "deterministic_order (vs_report (verify_generation s g)) = deterministic_order (vs_report s)"
  by (auto simp: verify_step_defs interval_ok_def not_le split: option.split)

lemma verify_generations_state:
  assumes "vs_seen s = vs_active s"
  shows "vs_seen (foldl verify_generation s gs) = vs_seen s \<union> cg_key ` set gs
    \<and> vs_active (foldl verify_generation s gs) = vs_seen s \<union> cg_key ` set gs
    \<and> (keys_unique (vs_report (foldl verify_generation s gs)) \<longleftrightarrow> keys_unique (vs_report s)
        \<and> distinct (map cg_key gs) \<and> cg_key ` set gs \<inter> vs_seen s = {})
    \<and> (intervals_valid (vs_report (foldl verify_generation s gs))
        \<longleftrightarrow> intervals_valid (vs_report s) \<and> list_all interval_ok gs)
    \<and> referential_integrity (vs_report (foldl verify_generation s gs)) = referential_integrity (vs_report s)
    \<and> deterministic_order (vs_report (foldl verify_generation s gs)) = deterministic_order (vs_report s)"
proof (induction gs rule: rev_induct)
  case (snoc g gs)
  then show ?case by (simp add: verify_generation_effect) blast
qed (use assms in simp)

lemma verify_balances_state:
  "let s' = foldl verify_balance s bs in
    vs_active s' = vs_active s
    \<and> (referential_integrity (vs_report s') \<longleftrightarrow> referential_integrity (vs_report s)
        \<and> list_all (\<lambda>b. cb_key b \<in> vs_active s) bs)
    \<and> keys_unique (vs_report s') = keys_unique (vs_report s)
    \<and> intervals_valid (vs_report s') = intervals_valid (vs_report s)
    \<and> deterministic_order (vs_report s') = deterministic_order (vs_report s)"
  by (induction bs rule: rev_induct) (auto simp: Let_def verify_step_defs)

lemma gen_cmp_Greater: "gen_cmp a b = Greater \<longleftrightarrow> gen_rank b < gen_rank a"
  unfolding gen_cmp_rank cmp_def using less_linear [of "gen_rank a" "gen_rank b"] by auto

lemma verify_window_effect:
  "deterministic_order (vs_report (verify_window s (a, b)))
    \<longleftrightarrow> deterministic_order (vs_report s) \<and> gen_rank a \<le> gen_rank b"
  "intervals_valid (vs_report (verify_window s (a, b)))
    \<longleftrightarrow> intervals_valid (vs_report s) \<and> no_overlap a b"
  "keys_unique (vs_report (verify_window s (a, b))) = keys_unique (vs_report s)"
  "referential_integrity (vs_report (verify_window s (a, b))) = referential_integrity (vs_report s)"
  by (auto simp: verify_step_defs no_overlap_def gen_cmp_Greater not_le split: option.split)

lemma verify_windows_state:
  "(deterministic_order (vs_report (foldl verify_window s ws)) \<longleftrightarrow> deterministic_order (vs_report s)
        \<and> list_all (\<lambda>(a, b). gen_rank a \<le> gen_rank b) ws)
    \<and> (intervals_valid (vs_report (foldl verify_window s ws)) \<longleftrightarrow> intervals_valid (vs_report s)
        \<and> list_all (\<lambda>(a, b). no_overlap a b) ws)
    \<and> keys_unique (vs_report (foldl verify_window s ws)) = keys_unique (vs_report s)
    \<and> referential_integrity (vs_report (foldl verify_window s ws)) = referential_integrity (vs_report s)"
proof (induction ws rule: rev_induct)
  case (snoc w ws)
  then show ?case by (cases w) (simp add: verify_window_effect)
qed simp

lemma list_all_windows2: "list_all (\<lambda>(a, b). R a b) (windows2 xs) \<longleftrightarrow> successively R xs"
  by (simp add: list_all_iff windows2_successively)

lemma successively_rank: "successively (\<lambda>a b. gen_rank a \<le> gen_rank b) xs \<longleftrightarrow> sorted (map gen_rank xs)"
  unfolding sorted_map by (rule successively_conv_sorted_wrt) (auto simp: transp_def)

text \<open>Each flag of the report is its invariant, and the diagnostics explain the flags.\<close>

lemma verify_report:
  assumes "verify_global_schema ir = (ds, r)"
  shows "keys_unique r \<longleftrightarrow> distinct (map cg_key (ci_generations ir))"
    and "referential_integrity r \<longleftrightarrow>
      list_all (\<lambda>b. cb_key b \<in> cg_key ` set (ci_generations ir)) (ci_balances ir)"
    and "deterministic_order r \<longleftrightarrow> sorted (map gen_rank (ci_generations ir))"
    and "intervals_valid r \<longleftrightarrow> list_all interval_ok (ci_generations ir)
      \<and> successively no_overlap (ci_generations ir)"
    and "ds = [] \<longleftrightarrow> keys_unique r \<and> referential_integrity r \<and> deterministic_order r \<and> intervals_valid r"
    and "\<forall>d \<in> set ds. dg_severity d = Severity_Error"
proof -
  let ?s0 = "\<lparr>vs_diagnostics = [], vs_report = \<lparr>keys_unique = True, referential_integrity = True,
    deterministic_order = True, intervals_valid = True\<rparr>, vs_seen = {}, vs_active = {}\<rparr>"
  let ?s1 = "foldl verify_generation ?s0 (ci_generations ir)"
  let ?s2 = "foldl verify_balance ?s1 (ci_balances ir)"
  let ?s3 = "foldl verify_window ?s2 (windows2 (ci_generations ir))"
  have s3: "ds = vs_diagnostics ?s3" "r = vs_report ?s3"
    using assms by (auto simp: verify_global_schema_def Let_def)
  note * = verify_generations_state [of ?s0 "ci_generations ir"]
    verify_balances_state [of ?s1 "ci_balances ir", unfolded Let_def]
    verify_windows_state [of ?s2 "windows2 (ci_generations ir)", unfolded list_all_windows2]
  show "keys_unique r \<longleftrightarrow> distinct (map cg_key (ci_generations ir))"
    and "referential_integrity r \<longleftrightarrow>
      list_all (\<lambda>b. cb_key b \<in> cg_key ` set (ci_generations ir)) (ci_balances ir)"
    and "deterministic_order r \<longleftrightarrow> sorted (map gen_rank (ci_generations ir))"
    and "intervals_valid r \<longleftrightarrow> list_all interval_ok (ci_generations ir)
      \<and> successively no_overlap (ci_generations ir)"
    unfolding s3 using * by (simp_all add: successively_rank)
  have "sound_state ?s3"
    by (intro sound_state_foldl sound_state_step) (auto simp: sound_state_def)
  then show "ds = [] \<longleftrightarrow> keys_unique r \<and> referential_integrity r \<and> deterministic_order r \<and> intervals_valid r"
    and "\<forall>d \<in> set ds. dg_severity d = Severity_Error"
    unfolding s3 sound_state_def by blast+
qed


text \<open>
  The diagnostics one by one, by place and kind: for each generation a repeated key and an
  unsound interval, for each balance a missing generation, for each two neighbours
  generations out of order and generations that overlap.
\<close>

definition generation_violations :: "canonical_generation list \<Rightarrow> (trace_provenance \<times> lifecycle_violation) list" where
  "generation_violations gs = concat (map (\<lambda>i.
     (if cg_key (gs ! i) \<in> cg_key ` set (take i gs) then [(cg_begin (gs ! i), DuplicateKey (cg_key (gs ! i)))] else [])
     @ (if interval_ok (gs ! i) then [] else [(cg_begin (gs ! i), IntervalInvalid (cg_key (gs ! i)))])) [0..<length gs])"

definition balance_violations ::
    "canonical_generation list \<Rightarrow> canonical_balance list \<Rightarrow> (trace_provenance \<times> lifecycle_violation) list" where
  "balance_violations gs bs =
     map (\<lambda>b. (cb_location b, IntegrityBreach (cb_key b))) (filter (\<lambda>b. cb_key b \<notin> cg_key ` set gs) bs)"

definition neighbour_violations :: "canonical_generation list \<Rightarrow> (trace_provenance \<times> lifecycle_violation) list" where
  "neighbour_violations gs = concat (map (\<lambda>(g1, g2).
     (if gen_rank g2 < gen_rank g1 then [(cg_begin g2, OrderingBreach)] else [])
     @ (if no_overlap g1 g2 then [] else [(cg_begin g2, OverlapDetected (gk_address (cg_key g2)))])) (zip gs (tl gs)))"

abbreviation places_and_kinds :: "diagnostic list \<Rightarrow> (trace_provenance \<times> lifecycle_violation) list" where
  "places_and_kinds ds \<equiv> map (\<lambda>d. (dg_location d, dg_violation d)) ds"

lemma error_kinds:
  "dg_location (duplicate_key g) = cg_begin g" "dg_violation (duplicate_key g) = DuplicateKey (cg_key g)"
  "dg_location (interval_invalid g) = cg_begin g" "dg_violation (interval_invalid g) = IntervalInvalid (cg_key g)"
  "dg_location (integrity_breach bal) = cb_location bal" "dg_violation (integrity_breach bal) = IntegrityBreach (cb_key bal)"
  "dg_location (ordering_breach g) = cg_begin g" "dg_violation (ordering_breach g) = OrderingBreach"
  "dg_location (overlap_detected g) = cg_begin g" "dg_violation (overlap_detected g) = OverlapDetected (gk_address (cg_key g))"
  by (simp_all add: duplicate_key_def interval_invalid_def integrity_breach_def ordering_breach_def
      overlap_detected_def schema_error_def)

lemma verify_generation_kinds:
  "places_and_kinds (vs_diagnostics (verify_generation s g)) = places_and_kinds (vs_diagnostics s)
    @ (if cg_key g \<in> vs_seen s then [(cg_begin g, DuplicateKey (cg_key g))] else [])
    @ (if interval_ok g then [] else [(cg_begin g, IntervalInvalid (cg_key g))])"
  by (cases "cg_end g") (auto simp: verify_step_defs error_kinds interval_ok_def not_le)

lemma generation_violations_snoc:
  "generation_violations (gs @ [g]) = generation_violations gs
    @ (if cg_key g \<in> cg_key ` set gs then [(cg_begin g, DuplicateKey (cg_key g))] else [])
    @ (if interval_ok g then [] else [(cg_begin g, IntervalInvalid (cg_key g))])"
  by (simp add: generation_violations_def nth_append)
    (rule arg_cong [where f = concat], rule map_cong, simp_all add: nth_append)

lemma verify_generations_kinds:
  assumes "vs_seen s = {}" "vs_active s = {}"
  shows "places_and_kinds (vs_diagnostics (foldl verify_generation s gs))
    = places_and_kinds (vs_diagnostics s) @ generation_violations gs"
proof (induction gs rule: rev_induct)
  case (snoc g gs)
  have "vs_seen (foldl verify_generation s gs) = cg_key ` set gs"
    using verify_generations_state [of s gs] assms by simp
  with snoc show ?case by (simp add: verify_generation_kinds generation_violations_snoc)
qed (simp add: generation_violations_def)

lemma verify_balances_kinds:
  "vs_active s = cg_key ` set gs \<Longrightarrow>
    places_and_kinds (vs_diagnostics (foldl verify_balance s bs)) = places_and_kinds (vs_diagnostics s) @ balance_violations gs bs"
  by (induction bs arbitrary: s) (simp_all add: verify_step_defs balance_violations_def error_kinds)

lemma verify_window_kinds:
  "places_and_kinds (vs_diagnostics (verify_window s (g1, g2))) = places_and_kinds (vs_diagnostics s)
    @ (if gen_rank g2 < gen_rank g1 then [(cg_begin g2, OrderingBreach)] else [])
    @ (if no_overlap g1 g2 then [] else [(cg_begin g2, OverlapDetected (gk_address (cg_key g2)))])"
  by (cases "cg_end g1") (auto simp: verify_step_defs error_kinds no_overlap_def gen_cmp_Greater not_le)

lemma windows2_zip: "windows2 xs = zip xs (tl xs)"
  by (induction xs rule: windows2.induct) auto

lemma verify_windows_kinds:
  "places_and_kinds (vs_diagnostics (foldl verify_window s (windows2 gs)))
    = places_and_kinds (vs_diagnostics s) @ neighbour_violations gs"
proof -
  have "places_and_kinds (vs_diagnostics (foldl verify_window s ws)) = places_and_kinds (vs_diagnostics s)
    @ concat (map (\<lambda>(g1, g2). (if gen_rank g2 < gen_rank g1 then [(cg_begin g2, OrderingBreach)] else [])
        @ (if no_overlap g1 g2 then [] else [(cg_begin g2, OverlapDetected (gk_address (cg_key g2)))])) ws)" for ws
    by (induction ws arbitrary: s) (auto simp: verify_window_kinds)
  then show ?thesis by (simp add: neighbour_violations_def windows2_zip)
qed

lemma verify_kinds:
  assumes "verify_global_schema ir = (ds, r)"
  shows "places_and_kinds ds = generation_violations (ci_generations ir)
    @ balance_violations (ci_generations ir) (ci_balances ir) @ neighbour_violations (ci_generations ir)"
proof -
  let ?s0 = "\<lparr>vs_diagnostics = [], vs_report = \<lparr>keys_unique = True, referential_integrity = True,
    deterministic_order = True, intervals_valid = True\<rparr>, vs_seen = {}, vs_active = {}\<rparr>"
  let ?s1 = "foldl verify_generation ?s0 (ci_generations ir)"
  have "vs_active ?s1 = cg_key ` set (ci_generations ir)"
    using verify_generations_state [of ?s0 "ci_generations ir"] by simp
  from verify_balances_kinds [OF this, of "ci_balances ir"] verify_generations_kinds [of ?s0 "ci_generations ir"]
  show ?thesis using assms by (auto simp: verify_global_schema_def Let_def verify_windows_kinds)
qed

section \<open>Sorting and deduplication\<close>

lemma set_dedup_by: "set (dedup_by eq xs) \<subseteq> set xs"
  by (induction eq xs rule: dedup_by.induct) auto

lemma sorted_wrt_dedup_by: "sorted_wrt P xs \<Longrightarrow> sorted_wrt P (dedup_by eq xs)"
proof (induction eq xs rule: dedup_by.induct)
  case (3 eq x y zs)
  then show ?case using set_dedup_by [of eq "y # zs"] by auto
qed auto

lemma sorted_map_dedup_by: "sorted (map f xs) \<Longrightarrow> sorted (map f (dedup_by eq xs))"
  unfolding sorted_map by (rule sorted_wrt_dedup_by)

text \<open>Deduplication by a key leaves neighbours with different keys, and only such lists alone.\<close>

lemma dedup_by_hd: "xs \<noteq> [] \<Longrightarrow> dedup_by eq xs \<noteq> [] \<and> hd (dedup_by eq xs) = hd xs"
  by (induction eq xs rule: dedup_by.induct) auto

lemma dedup_by_neighbours:
  "successively (\<lambda>a b. f a \<noteq> f b) (dedup_by (\<lambda>a b. f a = f b) xs)"
proof (induction "\<lambda>a b :: 'a. f a = f b" xs rule: dedup_by.induct)
  case (3 x y zs)
  then show ?case
    using dedup_by_hd [of "y # zs" "\<lambda>a b. f a = f b"] by (auto simp: successively_Cons)
qed auto

lemma dedup_by_id: "successively (\<lambda>a b. f a \<noteq> f b) xs \<Longrightarrow> dedup_by (\<lambda>a b. f a = f b) xs = xs"
  by (induction "\<lambda>a b :: 'a. f a = f b" xs rule: dedup_by.induct) auto

lemma distinct_neighbours: "distinct (map f xs) \<Longrightarrow> successively (\<lambda>a b. f a \<noteq> f b) xs"
  by (induction xs rule: induct_list012) auto

lemma dedup_by_idem:
  "dedup_by (\<lambda>a b. f a = f b) (dedup_by (\<lambda>a b. f a = f b) xs) = dedup_by (\<lambda>a b. f a = f b) xs"
  by (rule dedup_by_id) (rule dedup_by_neighbours)

lemma sort_dedup_idem:
  "dedup_by (\<lambda>a b. f a = f b) (sort_key g (dedup_by (\<lambda>a b. f a = f b) (sort_key g xs)))
     = dedup_by (\<lambda>a b. f a = f b) (sort_key g xs)"
  by (simp add: sorted_map_dedup_by sort_key_id_if_sorted dedup_by_idem)

lemma strictly_sorted_neighbours:
  "sorted (map f xs) \<Longrightarrow> successively (\<lambda>a b. f a \<noteq> f b) xs \<Longrightarrow> sorted_wrt (<) (map f xs)"
  by (induction xs rule: induct_list012) (auto simp: order.strict_iff_order intro: order.trans)

lemma dedup_sort_strict:
  "sorted_wrt (<) (map f (dedup_by (\<lambda>a b. f a = f b) (sort_key f xs)))"
  by (rule strictly_sorted_neighbours) (simp_all add: sorted_map_dedup_by dedup_by_neighbours)

lemma dedup_sort_permutation:
  assumes "mset xs = mset ys" and "distinct (map f xs)" and "inj_on g (set xs)"
  shows "dedup_by (\<lambda>a b. f a = f b) (sort_key g xs) = dedup_by (\<lambda>a b. f a = f b) (sort_key g ys)"
proof -
  have "sort_key g xs = sort_key g ys"
    by (rule sort_key_inj_key_eq) (use assms in \<open>auto\<close>)
  then show ?thesis by simp
qed


section \<open>Properties of the canonical form\<close>

lemma canonical_form_idem:
  "canonical_form (ci_pre_states (canonical_form ps gs bs)) (ci_generations (canonical_form ps gs bs))
     (ci_balances (canonical_form ps gs bs)) = canonical_form ps gs bs"
  by (simp add: canonical_form_def sort_dedup_idem)

lemma canonical_form_keys:
  "sorted_wrt (<) (map cp_key (ci_pre_states (canonical_form ps gs bs)))"
  "sorted (map gen_rank (ci_generations (canonical_form ps gs bs)))"
  "sorted_wrt (<) (map cb_key (ci_balances (canonical_form ps gs bs)))"
  by (simp_all add: canonical_form_def dedup_sort_strict sorted_map_dedup_by)

text \<open>The order of the input does not matter when its keys are distinct.\<close>

lemma gen_rank_inj: "distinct (map cg_key gs) \<Longrightarrow> inj_on gen_rank (set gs)"
  by (auto simp: inj_on_def gen_rank_def distinct_map intro: generation_key.expand)

lemma canonical_form_permutation:
  assumes "mset ps = mset ps'" "mset gs = mset gs'" "mset bs = mset bs'"
    and "distinct (map cp_key ps)" "distinct (map cg_key gs)" "distinct (map cb_key bs)"
  shows "canonical_form ps gs bs = canonical_form ps' gs' bs'"
proof -
  have "inj_on cp_key (set ps)" "inj_on cb_key (set bs)" "inj_on gen_rank (set gs)"
    using assms gen_rank_inj by (auto simp: distinct_map)
  then show ?thesis
    unfolding canonical_form_def
    using dedup_sort_permutation [OF assms(1) assms(4), of cp_key]
      dedup_sort_permutation [OF assms(2) assms(5), of gen_rank]
      dedup_sort_permutation [OF assms(3) assms(6), of cb_key] by simp
qed

lemma canonicalize_value [simp]: "pass_value (canonicalize ps gs bs) = canonical_form ps gs bs"
  by (simp add: canonicalize_def Let_def split: prod.split)

lemma canonicalize_report:
  "verify_global_schema (canonical_form ps gs bs)
     = (pass_diagnostics (canonicalize ps gs bs), pass_report (canonicalize ps gs bs))"
  by (simp add: canonicalize_def Let_def split: prod.split)

lemma is_valid_no_errors:
  "\<forall>d \<in> set (pass_diagnostics out). dg_severity d = Severity_Error \<Longrightarrow>
     is_valid out \<longleftrightarrow> pass_diagnostics out = []"
  by (cases "pass_diagnostics out") (auto simp: is_valid_def list_ex_iff)

lemma canonicalize_valid_iff:
  fixes ps gs bs
  defines "ir \<equiv> canonical_form ps gs bs"
  shows "pass_diagnostics (canonicalize ps gs bs) = [] \<longleftrightarrow>
     distinct (map cg_key (ci_generations ir))
     \<and> list_all (\<lambda>b. cb_key b \<in> cg_key ` set (ci_generations ir)) (ci_balances ir)
     \<and> list_all interval_ok (ci_generations ir) \<and> successively no_overlap (ci_generations ir)"
  using verify_report [OF canonicalize_report [of ps gs bs]] canonical_form_keys(2) [of ps gs bs]
  unfolding ir_def by blast

section \<open>Properties\<close>

text \<open>
  C22: the report of the schema verification is exact.  The diagnostics are, in this order and
  at the place of the offender: for each generation, a repeated key if an earlier one has it, and an
  invalid interval if it does not begin before it ends; for each balance, an integrity breach
  if no generation has its key; for each two neighbours, an ordering breach if the second comes
  before the first by address, begin and id, and an overlap if the first ends at or after the begin of
  the second of the same address.  All are errors.  Each flag is its invariant, and the
  diagnostics are empty exactly when all four hold.
\<close>

theorem schema_report_exact:
  "case verify_global_schema ir of (ds, r) \<Rightarrow>
     places_and_kinds ds = generation_violations (ci_generations ir)
       @ balance_violations (ci_generations ir) (ci_balances ir) @ neighbour_violations (ci_generations ir)
     \<and> (keys_unique r \<longleftrightarrow> distinct (map cg_key (ci_generations ir)))
     \<and> (referential_integrity r \<longleftrightarrow>
          list_all (\<lambda>b. cb_key b \<in> cg_key ` set (ci_generations ir)) (ci_balances ir))
     \<and> (deterministic_order r \<longleftrightarrow> sorted (map gen_rank (ci_generations ir)))
     \<and> (intervals_valid r \<longleftrightarrow>
          list_all interval_ok (ci_generations ir) \<and> successively no_overlap (ci_generations ir))
     \<and> (ds = [] \<longleftrightarrow>
          keys_unique r \<and> referential_integrity r \<and> deterministic_order r \<and> intervals_valid r)
     \<and> list_all (\<lambda>d. dg_severity d = Severity_Error) ds"
proof -
  obtain ds r where *: "verify_global_schema ir = (ds, r)" by force
  show ?thesis
    using verify_report [OF *] verify_kinds [OF *] by (simp only: * prod.case list_all_iff)
qed

text \<open>
  C23: canonicalization is idempotent: feeding it its own output gives the same relations
  and the same report, and its output is in order (pre-states and balances strictly by
  key, generations by address, begin and id).
\<close>

theorem canonicalize_idempotent:
  fixes ps gs bs
  defines "ir \<equiv> pass_value (canonicalize ps gs bs)"
  shows "canonicalize (ci_pre_states ir) (ci_generations ir) (ci_balances ir) = canonicalize ps gs bs
     \<and> sorted_wrt (<) (map cp_key (ci_pre_states ir)) \<and> sorted (map gen_rank (ci_generations ir))
     \<and> sorted_wrt (<) (map cb_key (ci_balances ir))"
  unfolding ir_def canonicalize_value using canonical_form_keys
  by (simp add: canonicalize_def canonical_form_idem)

text \<open>
  Canonicalization does not depend on the order of its inputs, provided their keys
  are distinct.
\<close>

lemma canonicalize_order_independent:
  assumes "mset ps = mset ps'" "mset gs = mset gs'" "mset bs = mset bs'"
    and "distinct (map cp_key ps)" "distinct (map cg_key gs)" "distinct (map cb_key bs)"
  shows "canonicalize ps gs bs = canonicalize ps' gs' bs'"
  unfolding canonicalize_def using canonical_form_permutation [OF assms] by simp

text \<open>Generations of one address in two orders, and a key with two contents.\<close>

definition sample_generation :: "u32 \<Rightarrow> u64 \<Rightarrow> u64 option \<Rightarrow> canonical_generation" where
  "sample_generation n b e =
     \<lparr>cg_key = GenerationKey (arr_fill 1) n,
      cg_begin = default_provenance\<lparr>trace_ordinal := b\<rparr>,
      cg_end = map_option (\<lambda>e. default_provenance\<lparr>trace_ordinal := e\<rparr>) e\<rparr>"

lemma canonicalize_order_independent_example:
  "canonicalize [] [sample_generation 1 9 None, sample_generation 0 3 (Some 5)] []
     = canonicalize [] [sample_generation 0 3 (Some 5), sample_generation 1 9 None] []"
  by (rule canonicalize_order_independent) (simp_all add: sample_generation_def add_mset_commute)

text \<open>
  Without distinct keys it does depend on it: of two pre-states with one key and
  different contents the first one given wins, so the form called unique is not.
\<close>

lemma canonical_form_not_unique:
  "\<exists>p q. cp_key p = cp_key q \<and> canonicalize [p, q] [] [] \<noteq> canonicalize [q, p] [] []"
proof (intro exI conjI)
  let ?p = "\<lparr>cp_key = GenerationKey (arr_fill 1) 0, cp_existed_before_tx = True\<rparr>"
  let ?q = "\<lparr>cp_key = GenerationKey (arr_fill 1) 0, cp_existed_before_tx = False\<rparr>"
  show "cp_key ?p = cp_key ?q" by simp
  have "pass_value (canonicalize [?p, ?q] [] []) \<noteq> pass_value (canonicalize [?q, ?p] [] [])"
    by (simp add: canonical_form_def)
  then show "canonicalize [?p, ?q] [] [] \<noteq> canonicalize [?q, ?p] [] []" by metis
qed

end
