(* ===== verification/Lifecycle_Process.thy ===== *)
theory Lifecycle_Process
  imports Canonicalize Reduce
begin

text \<open>
  \<open>runtime/builder/src/lifecycle/mod.rs\<close>: resolution followed by canonicalization, per
  bucket.  The result is characterised on the observations of the bucket: which
  generations the pass produces, and exactly when it reports no error.
\<close>

section \<open>The stage as written\<close>

definition canonical_pre_state_of :: "account_pre_state \<Rightarrow> canonical_pre_state" where
  "canonical_pre_state_of p =
     \<lparr>cp_key = GenerationKey (ap_address p) 0, cp_existed_before_tx = ap_existed_before_tx p\<rparr>"

definition canonical_generation_of :: "generation_relation \<Rightarrow> canonical_generation" where
  "canonical_generation_of g =
     \<lparr>cg_key = GenerationKey (gn_address g) (gn_generation_id g), cg_begin = gn_begin g, cg_end = gn_end g\<rparr>"

definition process_bucket :: "(address, bool) btree_map \<Rightarrow> reduced_bucket \<Rightarrow> canonical_ir pass_output" where
  "process_bucket pre_states bucket =
     (let semantic_pass = resolve (rb_lifecycle_table bucket) pre_states;
          canonical_pre_states = map canonical_pre_state_of (sem_pre_states (pass_value semantic_pass));
          canonical_generations = map canonical_generation_of (sem_generations (pass_value semantic_pass));
          canonical_pass = canonicalize canonical_pre_states canonical_generations []
      in canonical_pass\<lparr>pass_diagnostics :=
           pass_diagnostics canonical_pass @ pass_diagnostics semantic_pass\<rparr>)"

definition lifecycle_process :: "reduced_ir \<Rightarrow> (address, bool) btree_map \<Rightarrow> canonical_ir pass_output list" where
  "lifecycle_process ir pre_states = map (process_bucket pre_states) (reduced_buckets ir)"

section \<open>Specification\<close>

text \<open>
  What the diagnostics ask for: creations and destructions alternate, a creation only where
  no lifetime is open and a destruction only where one is (\<open>opn\<close>).  An address is created
  once per lifetime if no creation follows another directly.
\<close>

fun alternating :: "bool \<Rightarrow> observed_lifecycle list \<Rightarrow> bool" where
  "alternating opn [] = True"
| "alternating opn (obs # rest) = (is_created obs \<noteq> opn \<and> alternating (is_created obs) rest)"

definition created_once :: "observed_lifecycle list \<Rightarrow> bool" where
  "created_once obs \<longleftrightarrow> successively (\<lambda>o1 o2. \<not> (is_created o1 \<and> is_created o2)) obs"

text \<open>
  What the pass checks: every destruction follows a creation that no other destruction has
  used up.  This allows creations of a live contract, so it is weaker.
\<close>

fun proper :: "bool \<Rightarrow> observed_lifecycle list \<Rightarrow> bool" where
  "proper opn [] = True"
| "proper opn (obs # rest) = (if is_created obs then proper True rest else opn \<and> proper False rest)"

abbreviation ordinal :: "observed_lifecycle \<Rightarrow> u64" where
  "ordinal obs \<equiv> trace_ordinal (ol_provenance obs)"

text \<open>Observations in strictly increasing order, and few enough for their ids.\<close>

definition in_order :: "observed_lifecycle list \<Rightarrow> bool" where
  "in_order obs \<longleftrightarrow> sorted_wrt (<) (map ordinal obs) \<and> length obs < 2 ^ 32"

section \<open>One address\<close>

declare is_created.simps [simp del]

lemma alternating_proper:
  "created_once obs \<Longrightarrow> alternating opn obs \<longleftrightarrow> proper opn obs \<and> (opn \<longrightarrow> obs = [] \<or> \<not> is_created (hd obs))"
proof (induction obs arbitrary: opn)
  case (Cons o1 obs)
  then have "created_once obs" "obs = [] \<or> \<not> (is_created o1 \<and> is_created (hd obs))"
    by (auto simp: created_once_def successively_Cons)
  with Cons.IH [of "is_created o1"] show ?case by auto
qed simp

text \<open>
  The generations of an address whose creations and destructions alternate: the \<open>i\<close>-th
  begins with the \<open>i\<close>-th creation and ends with the destruction after it, if there is one.
\<close>

definition generations_of :: "address \<Rightarrow> observed_lifecycle list \<Rightarrow> canonical_generation list" where
  "generations_of a obs = map (\<lambda>i. \<lparr>cg_key = GenerationKey a (of_nat i), cg_begin = ol_provenance (obs ! (2 * i)),
     cg_end = (if 2 * i + 1 < length obs then Some (ol_provenance (obs ! (2 * i + 1))) else None)\<rparr>)
       [0..<(length obs + 1) div 2]"

lemma alternating_lifetimes:
  "alternating False obs \<Longrightarrow> map canonical_generation_of (lifetimes a n b False obs) =
    map (\<lambda>i. \<lparr>cg_key = GenerationKey a (n + of_nat i), cg_begin = ol_provenance (obs ! (2 * i)),
      cg_end = (if 2 * i + 1 < length obs then Some (ol_provenance (obs ! (2 * i + 1))) else None)\<rparr>)
        [0..<(length obs + 1) div 2]"
proof (induction obs arbitrary: n b rule: induct_list012)
  case (3 c d obs)
  then have cd: "is_created c" "\<not> is_created d" "alternating False obs" by auto
  have count: "[0..<(length (c # d # obs) + 1) div 2] = 0 # map Suc [0..<(length obs + 1) div 2]"
    by (simp add: upt_conv_Cons map_Suc_upt del: upt_Suc)
  show ?case
    using cd "3.IH"(1) [OF cd(3), of "n + 1" "ol_provenance d"] unfolding count
    by (simp add: canonical_generation_of_def comp_def add.assoc)
qed (simp_all add: canonical_generation_of_def)

lemma alternating_account:
  assumes "alternating False obs" and "obs \<noteq> []"
  shows "map canonical_generation_of (account_lifetimes (a, obs)) = generations_of a obs"
proof -
  have "account_lifetimes (a, obs) = lifetimes a 0 default_provenance False obs"
    using assms by (cases obs) (simp_all add: account_lifetimes_def)
  then show ?thesis using alternating_lifetimes [OF assms(1), of a 0] by (simp add: generations_of_def)
qed

abbreviation begin_of :: "generation_relation \<Rightarrow> u64" where
  "begin_of g \<equiv> trace_ordinal (gn_begin g)"

lemma lifetimes_begin_ge:
  "\<forall>obs \<in> set os. trace_ordinal b \<le> ordinal obs \<Longrightarrow> sorted_wrt (<) (map ordinal os) \<Longrightarrow>
    g \<in> set (lifetimes a n b opn os) \<Longrightarrow> trace_ordinal b \<le> begin_of g"
proof (induction a n b opn os rule: lifetimes.induct)
  case (2 a n b opn obs rest)
  have rest: "\<forall>obs' \<in> set rest. ordinal obs \<le> ordinal obs'" using "2.prems"(2) by (auto intro: less_imp_le)
  have b: "trace_ordinal b \<le> ordinal obs" using "2.prems"(1) by simp
  show ?case
  proof (cases "is_created obs")
    case True
    with 2 rest have "ordinal obs \<le> begin_of g" by simp
    with b show ?thesis by simp
  next
    case False
    with "2.prems"(3) consider "begin_of g = trace_ordinal b"
      | "g \<in> set (lifetimes a (n + 1) (ol_provenance obs) False rest)" by auto
    then show ?thesis
    proof cases
      case 2
      with False "2.IH"(2) rest "2.prems"(2) have "ordinal obs \<le> begin_of g" by simp
      with b show ?thesis by simp
    qed simp
  qed
qed (auto split: if_splits)

lemma lifetimes_begins_sorted:
  "\<forall>obs \<in> set os. trace_ordinal b \<le> ordinal obs \<Longrightarrow> sorted_wrt (<) (map ordinal os) \<Longrightarrow>
    sorted (map begin_of (lifetimes a n b opn os))"
proof (induction a n b opn os rule: lifetimes.induct)
  case (2 a n b opn obs rest)
  have rest: "\<forall>obs' \<in> set rest. ordinal obs \<le> ordinal obs'" using "2.prems"(2) by (auto intro: less_imp_le)
  show ?case
  proof (cases "is_created obs")
    case True
    with 2 rest show ?thesis by simp
  next
    case False
    have "trace_ordinal b \<le> begin_of g"
      if "g \<in> set (lifetimes a (n + 1) (ol_provenance obs) False rest)" for g
      using lifetimes_begin_ge [OF rest _ that] "2.prems" by fastforce
    with False 2 rest show ?thesis by simp
  qed
qed simp

text \<open>A lifetime that begins before everything observed is a sound interval.\<close>

lemma lifetimes_intervals:
  "\<forall>obs \<in> set os. trace_ordinal b < ordinal obs \<Longrightarrow> sorted_wrt (<) (map ordinal os) \<Longrightarrow>
    list_all interval_ok (map canonical_generation_of (lifetimes a n b opn os))"
  by (induction a n b opn os rule: lifetimes.induct)
    (auto simp: interval_ok_def canonical_generation_of_def)

lemma no_overlap_lifetimes:
  "no_overlap (canonical_generation_of \<lparr>gn_address = a, gn_generation_id = n, gn_begin = b, gn_end = Some e\<rparr>)
     (canonical_generation_of g) \<longleftrightarrow> (gn_address g = a \<longrightarrow> trace_ordinal e < begin_of g)"
  by (auto simp: no_overlap_def canonical_generation_of_def)

lemma proper_False: "proper False os \<longleftrightarrow> proper True os \<and> (os = [] \<or> is_created (hd os))"
  by (cases os) auto

lemma lifetimes_next:
  assumes "\<forall>obs \<in> set os. trace_ordinal b < ordinal obs" and "sorted_wrt (<) (map ordinal os)"
  shows "lifetimes a n b False os = [] \<or> trace_ordinal b < begin_of (hd (lifetimes a n b False os))
    \<longleftrightarrow> os = [] \<or> is_created (hd os)"
proof (cases os)
  case (Cons obs rest)
  show ?thesis
  proof (cases "is_created obs")
    case True
    let ?l = "lifetimes a n (ol_provenance obs) True rest"
    have "ordinal obs \<le> begin_of (hd ?l)" if "?l \<noteq> []"
      using assms Cons list.set_sel(1) [OF that]
      by (intro lifetimes_begin_ge [where os = rest and a = a and n = n and opn = True])
        (auto intro: less_imp_le)
    then show ?thesis using assms(1) Cons True by force
  qed (use Cons in simp)
qed simp

lemma lifetimes_no_overlap:
  "\<forall>obs \<in> set os. trace_ordinal b < ordinal obs \<Longrightarrow> sorted_wrt (<) (map ordinal os) \<Longrightarrow>
    successively no_overlap (map canonical_generation_of (lifetimes a n b opn os)) \<longleftrightarrow> proper True os"
proof (induction a n b opn os rule: lifetimes.induct)
  case (2 a n b opn obs rest)
  show ?case
  proof (cases "is_created obs")
    case True
    with 2 show ?thesis by simp
  next
    case False
    let ?l = "lifetimes a (n + 1) (ol_provenance obs) False rest"
    have rest: "\<forall>obs' \<in> set rest. ordinal obs < ordinal obs'" "sorted_wrt (<) (map ordinal rest)"
      using "2.prems"(2) by auto
    have "gn_address (hd ?l) = a" if "?l \<noteq> []"
      using that lifetimes_address by (meson list.set_sel(1))
    then have "successively no_overlap (map canonical_generation_of (lifetimes a n b opn (obs # rest)))
        \<longleftrightarrow> (?l = [] \<or> ordinal obs < begin_of (hd ?l)) \<and> proper True rest"
      using False "2.IH"(2) [OF False rest]
      by (cases "?l = []") (auto simp: successively_Cons hd_map no_overlap_lifetimes)
    then show ?thesis
      using False lifetimes_next [OF rest, of a "n + 1"] proper_False [of rest] by auto
  qed
qed simp

text \<open>Together: the generations of an address are sound exactly for a proper life.\<close>

lemma account_lifetimes_sound:
  assumes "in_order os"
  shows "list_all interval_ok (map canonical_generation_of (account_lifetimes (a, os)))
      \<and> successively no_overlap (map canonical_generation_of (account_lifetimes (a, os)))
    \<longleftrightarrow> proper False os"
proof (cases os)
  case Nil
  then show ?thesis by (simp add: account_lifetimes_def interval_ok_def canonical_generation_of_def)
next
  case (Cons obs rest)
  have rest: "\<forall>obs' \<in> set rest. ordinal obs < ordinal obs'" "sorted_wrt (<) (map ordinal rest)"
    using assms Cons by (auto simp: in_order_def)
  show ?thesis
  proof (cases "is_created obs")
    case True
    then show ?thesis
      using Cons lifetimes_intervals [OF rest] lifetimes_no_overlap [OF rest]
      by (simp add: account_lifetimes_def)
  next
    case False
    then show ?thesis
      using Cons by (simp add: account_lifetimes_def interval_ok_def canonical_generation_of_def)
  qed
qed

lemma collisions_empty:
  assumes "proper False os"
  shows "collisions a ex 0 os = [] \<longleftrightarrow> \<not> ex \<or> os = []"
proof -
  have "collisions a False n os = []" for n by (induction os arbitrary: n) auto
  with assms show ?thesis by (cases os; cases ex) auto
qed

section \<open>All addresses of a bucket\<close>

definition table_generations :: "(address \<times> observed_lifecycle list) list \<Rightarrow> canonical_generation list" where
  "table_generations es = concat (map (\<lambda>e. map canonical_generation_of (account_lifetimes e)) es)"

definition table_pre_states ::
    "(address, bool) btree_map \<Rightarrow> (address \<times> observed_lifecycle list) list \<Rightarrow> canonical_pre_state list" where
  "table_pre_states pre_states es =
     map (\<lambda>(a, obs). \<lparr>cp_key = GenerationKey a 0, cp_existed_before_tx = existed_in pre_states a\<rparr>) es"

definition gen_before :: "canonical_generation \<Rightarrow> canonical_generation \<Rightarrow> bool" where
  "gen_before g h \<longleftrightarrow> gen_rank g < gen_rank h \<and> cg_key g < cg_key h"

lemma account_lifetimes_address:
  "g \<in> set (map canonical_generation_of (account_lifetimes (a, obs))) \<Longrightarrow> gk_address (cg_key g) = a"
  using lifetimes_address by (force simp: account_lifetimes_def canonical_generation_of_def)

lemma gen_before_address: "gk_address (cg_key g) < gk_address (cg_key h) \<Longrightarrow> gen_before g h"
  by (simp add: gen_before_def gen_rank_def less_generation_key_def gk_rank_def less_prod_def)

lemma word_of_nat_less_iff_bounded:
  "i < j \<Longrightarrow> j < 2 ^ LENGTH('a) \<Longrightarrow> (of_nat i :: 'a::len word) < of_nat j"
  by (simp add: word_less_nat_alt unat_of_nat take_bit_nat_eq_self)

lemma account_lifetimes_sorted:
  assumes "in_order obs"
  shows "sorted_wrt gen_before (map canonical_generation_of (account_lifetimes (a, obs)))"
proof -
  define b where "b = (case obs of o1 # _ \<Rightarrow> ol_provenance o1 | [] \<Rightarrow> default_provenance)"
  define l where "l = lifetimes a 0 b True obs"
  have ge: "\<forall>o1 \<in> set obs. trace_ordinal b \<le> ordinal o1"
    using assms by (cases obs) (auto simp: b_def in_order_def intro: less_imp_le)
  have begins: "sorted (map begin_of l)"
    unfolding l_def using assms ge by (intro lifetimes_begins_sorted) (auto simp: in_order_def)
  have ids: "map gn_generation_id l = map of_nat [0..<length l]"
    using lifetimes_ids [of a 0 b True obs] by (simp add: l_def)
  have len: "length l \<le> 2 ^ 32"
    using length_lifetimes [of a 0 b True obs] assms by (simp add: l_def in_order_def)
  have "gen_before (canonical_generation_of (l ! i)) (canonical_generation_of (l ! j))"
    if "i < j" "j < length l" for i j
  proof -
    have "gn_address (l ! i) = a" "gn_address (l ! j) = a"
      using that lifetimes_address [of _ a 0 b True obs] by (simp_all add: l_def)
    moreover have "begin_of (l ! i) \<le> begin_of (l ! j)"
      using begins that by (simp add: sorted_iff_nth_mono_less)
    moreover have "gn_generation_id (l ! k) = of_nat k" if "k < length l" for k
      using arg_cong [OF ids, of "\<lambda>xs. xs ! k"] that by simp
    then have "gn_generation_id (l ! i) < gn_generation_id (l ! j)"
      using that len word_of_nat_less_iff_bounded [where 'a = 32, of i j] by simp
    ultimately show ?thesis
      by (auto simp: gen_before_def gen_rank_def canonical_generation_of_def less_generation_key_def
          gk_rank_def less_prod_def)
  qed
  then show ?thesis
    by (simp add: sorted_wrt_iff_nth_less account_lifetimes_def l_def b_def)
qed

lemma sorted_wrt_concat:
  "\<forall>xs \<in> set xss. sorted_wrt P xs \<Longrightarrow>
    sorted_wrt (\<lambda>xs ys. \<forall>x \<in> set xs. \<forall>y \<in> set ys. P x y) xss \<Longrightarrow> sorted_wrt P (concat xss)"
  by (induction xss) (auto simp: sorted_wrt_append)

lemma table_generations_sorted:
  assumes "sorted_wrt (<) (map fst es)" and "\<forall>e \<in> set es. in_order (snd e)"
  shows "sorted_wrt gen_before (table_generations es)"
  unfolding table_generations_def
proof (rule sorted_wrt_concat)
  show "\<forall>xs \<in> set (map (\<lambda>e. map canonical_generation_of (account_lifetimes e)) es). sorted_wrt gen_before xs"
    using assms(2) account_lifetimes_sorted by auto
  have "sorted_wrt (\<lambda>e f. fst e < fst f) es" using assms(1) by (simp add: sorted_wrt_map)
  then have "sorted_wrt (\<lambda>e f. \<forall>x \<in> set (map canonical_generation_of (account_lifetimes e)).
      \<forall>y \<in> set (map canonical_generation_of (account_lifetimes f)). gen_before x y) es"
    by (rule sorted_wrt_mono_rel [rotated])
      (metis account_lifetimes_address gen_before_address prod.collapse)
  then show "sorted_wrt (\<lambda>xs ys. \<forall>x \<in> set xs. \<forall>y \<in> set ys. gen_before x y)
      (map (\<lambda>e. map canonical_generation_of (account_lifetimes e)) es)"
    by (simp add: sorted_wrt_map)
qed

text \<open>So canonicalization changes nothing: the list is in order and its keys are distinct.\<close>

lemma gen_before_keys:
  "sorted_wrt gen_before gs \<Longrightarrow> sorted (map gen_rank gs) \<and> distinct (map cg_key gs)"
  by (induction gs) (auto simp: gen_before_def intro: less_imp_le)

lemma canonical_form_in_order:
  assumes "sorted_wrt (<) (map cp_key ps)" and "sorted_wrt gen_before gs"
  shows "canonical_form ps gs [] = \<lparr>ci_pre_states = ps, ci_generations = gs, ci_balances = []\<rparr>"
proof -
  have "sorted (map cp_key ps)" "distinct (map cp_key ps)"
    using assms(1) by (simp_all add: strict_sorted_iff)
  moreover have "sorted (map gen_rank gs)" "distinct (map cg_key gs)"
    using gen_before_keys [OF assms(2)] by blast+
  ultimately show ?thesis
    by (simp add: canonical_form_def sort_key_id_if_sorted dedup_by_id distinct_neighbours)
qed

lemma sorted_list_of_one:
  assumes "sorted_wrt (<) (xs :: 'a::linorder list)" and "set xs = {x}"
  shows "xs = [x]"
proof -
  obtain ys where ys: "xs = x # ys" using assms(2) by (cases xs) auto
  then have "z \<notin> set ys" for z using assms by auto
  then have "ys = []" by (cases ys) auto
  with ys show ?thesis by simp
qed

lemma table_pre_states_sorted:
  "sorted_wrt (<) (map fst es) \<Longrightarrow> sorted_wrt (<) (map cp_key (table_pre_states pre_states es))"
  by (auto simp: table_pre_states_def sorted_wrt_map less_generation_key_def gk_rank_def less_prod_def
      split_def elim!: sorted_wrt_mono_rel [rotated])

lemma table_no_overlap:
  "sorted_wrt (<) (map fst es) \<Longrightarrow>
    successively no_overlap (table_generations es) \<longleftrightarrow>
      (\<forall>e \<in> set es. successively no_overlap (map canonical_generation_of (account_lifetimes e)))"
proof (induction es)
  case (Cons e es)
  let ?g = "map canonical_generation_of (account_lifetimes e)"
  have "no_overlap (last ?g) (hd (table_generations es))" if ne: "?g \<noteq> []" "table_generations es \<noteq> []"
  proof -
    have "gk_address (cg_key (last ?g)) = fst e"
      using last_in_set [OF ne(1)] account_lifetimes_address [of "last ?g" "fst e" "snd e"]
      by (simp del: set_map list.set_map)
    moreover obtain f where "f \<in> set es" "gk_address (cg_key (hd (table_generations es))) = fst f"
    proof -
      have "hd (table_generations es) \<in> set (table_generations es)" using ne(2) by simp
      then obtain f where "f \<in> set es"
        "hd (table_generations es) \<in> set (map canonical_generation_of (account_lifetimes f))"
        unfolding table_generations_def by auto
      then show thesis using that account_lifetimes_address [of _ "fst f" "snd f"] by simp
    qed
    ultimately show ?thesis using Cons.prems by (auto simp: no_overlap_def)
  qed
  moreover have "table_generations (e # es) = ?g @ table_generations es"
    by (simp add: table_generations_def)
  ultimately show ?case
    using Cons by (cases "?g = []"; cases "table_generations es = []") (simp_all add: successively_append_iff)
qed (simp add: table_generations_def)

lemma process_bucket_eq:
  "process_bucket pre_states rb =
     (let es = entries (rb_lifecycle_table rb);
          out = canonicalize (table_pre_states pre_states es) (table_generations es) []
      in out\<lparr>pass_diagnostics := pass_diagnostics out
           @ concat (map (\<lambda>(a, obs). collisions a (existed_in pre_states a) 0 obs) es)\<rparr>)"
  by (simp add: process_bucket_def resolve_eq Let_def table_pre_states_def table_generations_def
      canonical_pre_state_of_def map_concat split_def comp_def)

lemma collisions_severity: "d \<in> set (collisions a ex n obs) \<Longrightarrow> dg_severity d = Severity_Error"
  by (induction a ex n obs rule: collisions.induct)
    (auto simp: collision_diagnostic_def split: if_splits)

definition bucket_in_order :: "reduced_bucket \<Rightarrow> bool" where
  "bucket_in_order rb \<longleftrightarrow> list_all (\<lambda>e. in_order (snd e)) (entries (rb_lifecycle_table rb))"

lemma process_bucket_value:
  assumes "bucket_in_order rb"
  shows "pass_value (process_bucket pre_states rb) =
    \<lparr>ci_pre_states = table_pre_states pre_states (entries (rb_lifecycle_table rb)),
     ci_generations = table_generations (entries (rb_lifecycle_table rb)), ci_balances = []\<rparr>"
  using assms
  by (simp add: process_bucket_eq Let_def canonical_form_in_order table_pre_states_sorted
      table_generations_sorted bucket_in_order_def list_all_iff)

text \<open>\<open>table_generations\<close> under \<open>list_all\<close>.\<close>

lemma table_intervals:
  "list_all interval_ok (table_generations es) \<longleftrightarrow>
     (\<forall>e \<in> set es. list_all interval_ok (map canonical_generation_of (account_lifetimes e)))"
  by (simp add: table_generations_def list_all_iff)

lemma process_bucket_valid:
  assumes "bucket_in_order rb"
  shows "is_valid (process_bucket pre_states rb) \<longleftrightarrow>
    (\<forall>e \<in> set (entries (rb_lifecycle_table rb)).
       proper False (snd e) \<and> (existed_in pre_states (fst e) \<longrightarrow> snd e = []))"
proof -
  let ?es = "entries (rb_lifecycle_table rb)"
  let ?out = "canonicalize (table_pre_states pre_states ?es) (table_generations ?es) []"
  let ?cs = "concat (map (\<lambda>(a, obs). collisions a (existed_in pre_states a) 0 obs) ?es)"
  have ord: "\<forall>e \<in> set ?es. in_order (snd e)"
    using assms by (simp add: bucket_in_order_def list_all_iff)
  have form: "canonical_form (table_pre_states pre_states ?es) (table_generations ?es) [] =
      \<lparr>ci_pre_states = table_pre_states pre_states ?es, ci_generations = table_generations ?es,
       ci_balances = []\<rparr>"
    by (simp add: canonical_form_in_order table_pre_states_sorted table_generations_sorted ord)
  have keys: "distinct (map cg_key (table_generations ?es))"
    using gen_before_keys table_generations_sorted [OF sorted_entries ord] by blast
  have out: "pass_diagnostics ?out = [] \<longleftrightarrow> (\<forall>e \<in> set ?es. proper False (snd e))"
    unfolding canonicalize_valid_iff form
    using keys account_lifetimes_sound [of "snd e" "fst e" for e] ord
    by (simp add: table_intervals table_no_overlap ball_conj_distrib [symmetric])
  have "\<forall>d \<in> set (pass_diagnostics ?out). dg_severity d = Severity_Error"
    by (rule verify_report(6) [OF canonicalize_report])
  moreover have "\<forall>d \<in> set ?cs. dg_severity d = Severity_Error" using collisions_severity by auto
  ultimately have "is_valid (process_bucket pre_states rb) \<longleftrightarrow> pass_diagnostics ?out = [] \<and> ?cs = []"
    by (subst is_valid_no_errors) (auto simp: process_bucket_eq Let_def)
  also have "\<dots> \<longleftrightarrow> (\<forall>e \<in> set ?es.
       proper False (snd e) \<and> (existed_in pre_states (fst e) \<longrightarrow> snd e = []))"
    unfolding out using collisions_empty by fastforce
  finally show ?thesis .
qed

section \<open>The lifecycle of a transaction\<close>

text \<open>In a transaction with increasing sequence numbers every bucket is in order.\<close>

abbreviation life_of :: "cse_event list \<Rightarrow> address \<Rightarrow> observed_lifecycle list" where
  "life_of es a \<equiv> history_of (lifecycle_obs a) es"

lemma lifecycle_obs_ordinal: "obs \<in> set (lifecycle_obs a e) \<Longrightarrow> ordinal obs = seq_of e"
  by (auto simp: lifecycle_obs_def trace_provenance_from_def split: cse_payload.splits if_splits)

lemma length_lifecycle_obs: "length (lifecycle_obs a e) \<le> 1"
  by (simp add: lifecycle_obs_def split: cse_payload.split)

lemma length_life_of: "length (life_of es a) \<le> length es"
proof (induction es)
  case (Cons e es)
  then show ?case using length_lifecycle_obs [of a e] by simp
qed simp

lemma life_of_in_order:
  assumes "sorted_wrt (<) (map seq_of es)" and "length es < 2 ^ 32"
  shows "in_order (life_of es a)"
proof -
  have "sorted_wrt (<) (map ordinal (life_of es a))"
    using assms(1)
  proof (induction es)
    case (Cons e es)
    have "sorted_wrt (<) (map ordinal (lifecycle_obs a e))"
      using length_lifecycle_obs [of a e] by (cases "lifecycle_obs a e") auto
    then show ?case
      using Cons lifecycle_obs_ordinal by (fastforce simp: sorted_wrt_append)
  qed simp
  with assms(2) length_life_of [of a es] show ?thesis by (simp add: in_order_def)
qed

lemma summarises_lifecycle:
  assumes "summarises rb tx"
  shows "(a, obs) \<in> set (entries (rb_lifecycle_table rb)) \<longleftrightarrow> obs = life_of (tx_inner tx) a \<and> obs \<noteq> []"
  using assms unfolding bt.in_iter_iff summarises_def by auto

lemma summarises_in_order:
  assumes "summarises rb tx" "sorted_wrt (<) (map seq_of (tx_inner tx))" "length (tx_inner tx) < 2 ^ 32"
  shows "bucket_in_order rb"
  unfolding bucket_in_order_def list_all_iff
  using summarises_lifecycle [OF assms(1)] life_of_in_order [OF assms(2,3)] by force

lemma process_transaction_valid:
  assumes "summarises rb tx" "sorted_wrt (<) (map seq_of (tx_inner tx))" "length (tx_inner tx) < 2 ^ 32"
  shows "is_valid (process_bucket pre_states rb) \<longleftrightarrow>
    (\<forall>a. proper False (life_of (tx_inner tx) a)
       \<and> (existed_in pre_states a \<longrightarrow> life_of (tx_inner tx) a = []))"
proof -
  have "is_valid (process_bucket pre_states rb) \<longleftrightarrow>
      (\<forall>a obs. (a, obs) \<in> set (entries (rb_lifecycle_table rb)) \<longrightarrow>
        proper False obs \<and> (existed_in pre_states a \<longrightarrow> obs = []))"
    unfolding process_bucket_valid [OF summarises_in_order [OF assms]] by auto
  also have "\<dots> \<longleftrightarrow> (\<forall>a. life_of (tx_inner tx) a \<noteq> [] \<longrightarrow>
      proper False (life_of (tx_inner tx) a)
       \<and> (existed_in pre_states a \<longrightarrow> life_of (tx_inner tx) a = []))"
    unfolding summarises_lifecycle [OF assms(1)] by blast
  also have "\<dots> \<longleftrightarrow> (\<forall>a. proper False (life_of (tx_inner tx) a)
       \<and> (existed_in pre_states a \<longrightarrow> life_of (tx_inner tx) a = []))"
    by (metis proper.simps(1))
  finally show ?thesis .
qed

section \<open>Properties\<close>

text \<open>
  C17: take a transaction of fewer than \<open>2 ^ 32\<close> events with increasing sequence numbers, in
  which the creations and destructions of every address alternate, a creation first.  The
  lifecycle pass keeps every lifetime: for the addresses that are created, in
  order, the \<open>i\<close>-th generation begins with the \<open>i\<close>-th creation and ends with the destruction
  after it, if there is one.  None is merged, dropped or reordered by canonicalization, and
  there is one pre-state per address.
\<close>

theorem lifecycle_keeps_generations:
  assumes "summarises rb tx" "sorted_wrt (<) (map seq_of (tx_inner tx))" "length (tx_inner tx) < 2 ^ 32"
    and "\<And>a. alternating False (life_of (tx_inner tx) a)"
  shows "\<exists>addresses. sorted_wrt (<) addresses \<and> set addresses = {a. life_of (tx_inner tx) a \<noteq> []}
    \<and> pass_value (process_bucket pre_states rb) =
      \<lparr>ci_pre_states = map (\<lambda>a. \<lparr>cp_key = GenerationKey a 0, cp_existed_before_tx = existed_in pre_states a\<rparr>) addresses,
       ci_generations = concat (map (\<lambda>a. generations_of a (life_of (tx_inner tx) a)) addresses), ci_balances = []\<rparr>"
proof -
  let ?es = "entries (rb_lifecycle_table rb)"
  have obs: "snd e = life_of (tx_inner tx) (fst e) \<and> snd e \<noteq> []" if "e \<in> set ?es" for e
    using that summarises_lifecycle [OF assms(1)] by (metis prod.collapse)
  have keys: "set (map fst ?es) = {a. life_of (tx_inner tx) a \<noteq> []}"
    using summarises_lifecycle [OF assms(1)] by force
  have "table_generations ?es = concat (map (\<lambda>a. generations_of a (life_of (tx_inner tx) a)) (map fst ?es))"
  proof -
    have "map canonical_generation_of (account_lifetimes e) = generations_of (fst e) (life_of (tx_inner tx) (fst e))"
      if "e \<in> set ?es" for e
      using alternating_account [OF assms(4), of "fst e" "fst e"] obs [OF that] by (metis prod.collapse)
    then show ?thesis unfolding table_generations_def map_map by (intro arg_cong [of _ _ concat] map_cong) simp_all
  qed
  moreover have "table_pre_states pre_states ?es
      = map (\<lambda>a. \<lparr>cp_key = GenerationKey a 0, cp_existed_before_tx = existed_in pre_states a\<rparr>) (map fst ?es)"
    by (simp add: table_pre_states_def split_def)
  ultimately show ?thesis
    using keys sorted_entries [of "rb_lifecycle_table rb"] process_bucket_value [OF summarises_in_order [OF assms(1-3)]]
    by (intro exI [of _ "map fst ?es"]) simp
qed

text \<open>A contract created, destroyed, and created again.\<close>

definition reborn_tx :: transaction where
  "reborn_tx = \<lparr>tx_open = sample_event 0 BeginTransaction,
     tx_inner = [sample_event 1 (sample_create 1), sample_event 2 (sample_destroy 1),
       sample_event 3 (sample_create 1)],
     tx_close = sample_event 4 EndTransaction\<rparr>"

lemma reborn_summarised: "\<exists>rb. build_reduced (tx_events reborn_tx) = Ok (ReducedIr [rb]) \<and> summarises rb reborn_tx"
proof (rule build_reduced_single)
  show "tx_wf reborn_tx" by (simp add: reborn_tx_def tx_wf_def sample_defs)
  show "is_ok (build_reduced (tx_events reborn_tx))" by code_simp
qed

text \<open>A contract destroyed without having been created.\<close>

definition killed_tx :: transaction where
  "killed_tx = \<lparr>tx_open = sample_event 0 BeginTransaction,
     tx_inner = [sample_event 1 (sample_destroy 1)],
     tx_close = sample_event 2 EndTransaction\<rparr>"

lemma killed_summarised: "\<exists>rb. summarises rb killed_tx"
proof -
  have "tx_wf killed_tx" by (simp add: killed_tx_def tx_wf_def sample_defs)
  moreover have "is_ok (build_reduced (tx_events killed_tx))" by code_simp
  ultimately show ?thesis using build_reduced_single by blast
qed

lemma killed_increasing:
  "sorted_wrt (<) (map seq_of (tx_inner killed_tx))" "length (tx_inner killed_tx) < 2 ^ 32"
  by (simp_all add: killed_tx_def sample_defs)

lemma reborn_increasing:
  "sorted_wrt (<) (map seq_of (tx_inner reborn_tx))" "length (tx_inner reborn_tx) < 2 ^ 32"
  by (simp_all add: reborn_tx_def sample_defs)

lemma reborn_alternates: "alternating False (life_of (tx_inner reborn_tx) a)"
  by (simp add: reborn_tx_def sample_defs lifecycle_obs_def is_created.simps)

theorem lifecycle_keeps_generations_witness:
  "\<exists>rb. summarises rb reborn_tx
    \<and> map (\<lambda>g. (trace_ordinal (cg_begin g), map_option trace_ordinal (cg_end g))) (ci_generations (pass_value (process_bucket bt_new rb)))
      = [(1, Some 2), (3, None)]"
proof -
  obtain rb where rb: "summarises rb reborn_tx" using reborn_summarised by blast
  let ?life = "life_of (tx_inner reborn_tx)"
  have life: "?life a = []" if "a \<noteq> arr_fill 1" for a
    using that by (simp add: reborn_tx_def sample_defs lifecycle_obs_def)
  have some: "?life (arr_fill 1) \<noteq> []"
    by (simp add: reborn_tx_def sample_defs lifecycle_obs_def)
  obtain addresses where as: "sorted_wrt (<) addresses" "set addresses = {a. ?life a \<noteq> []}"
    and gens: "ci_generations (pass_value (process_bucket bt_new rb)) = concat (map (\<lambda>a. generations_of a (?life a)) addresses)"
    using lifecycle_keeps_generations [OF rb reborn_increasing reborn_alternates, of bt_new] by auto
  have "set addresses = {arr_fill 1}" unfolding as(2) using life some by blast
  with as(1) have "addresses = [arr_fill 1]" by (intro sorted_list_of_one)
  then have "ci_generations (pass_value (process_bucket bt_new rb)) = generations_of (arr_fill 1) (?life (arr_fill 1))"
    using gens by simp
  then show ?thesis
    using rb by (intro exI [of _ rb])
      (simp add: generations_of_def reborn_tx_def sample_defs lifecycle_obs_def trace_provenance_from_def)
qed

text \<open>
  C16: take a transaction of fewer than \<open>2 ^ 32\<close> events with increasing sequence numbers, in
  which no address is created again while its lifetime is open.  The pass reports no error
  exactly when the creations and destructions of every address alternate, a creation first,
  and no address that existed before the transaction is created or destroyed in it.
\<close>

theorem lifecycle_valid_exactly:
  assumes "summarises rb tx" "sorted_wrt (<) (map seq_of (tx_inner tx))" "length (tx_inner tx) < 2 ^ 32"
    and "\<And>a. created_once (life_of (tx_inner tx) a)"
  shows "is_valid (process_bucket pre_states rb) \<longleftrightarrow>
    (\<forall>a. alternating False (life_of (tx_inner tx) a)
       \<and> (existed_in pre_states a \<longrightarrow> life_of (tx_inner tx) a = []))"
  using process_transaction_valid [OF assms(1-3)] alternating_proper [OF assms(4), of False] by simp

theorem lifecycle_valid_exactly_witness:
  "(\<exists>rb. summarises rb reborn_tx \<and> is_valid (process_bucket bt_new rb))
    \<and> (\<exists>rb. summarises rb killed_tx \<and> \<not> is_valid (process_bucket bt_new rb))"
proof -
  obtain rb rb' where rb: "summarises rb reborn_tx" "summarises rb' killed_tx"
    using reborn_summarised killed_summarised by blast
  have once: "created_once (life_of (tx_inner reborn_tx) a)" "created_once (life_of (tx_inner killed_tx) a)" for a
    by (simp_all add: reborn_tx_def killed_tx_def sample_defs lifecycle_obs_def is_created.simps created_once_def)
  have "\<not> alternating False (life_of (tx_inner killed_tx) (arr_fill 1))"
    by (simp add: killed_tx_def sample_defs lifecycle_obs_def is_created.simps)
  then have "\<not> is_valid (process_bucket bt_new rb')"
    using lifecycle_valid_exactly [OF rb(2) killed_increasing once(2), of bt_new] by blast
  moreover have "is_valid (process_bucket bt_new rb)"
    using lifecycle_valid_exactly [OF rb(1) reborn_increasing once(1), of bt_new] reborn_alternates by simp
  ultimately show ?thesis using rb by blast
qed

text \<open>
  A contract that existed before the transaction cannot be destroyed in it without an
  error: the pass gives it the begin of its first observation, so a destruction that
  comes first ends where it begins.
\<close>

lemma preexisting_destruction_rejected:
  assumes "summarises rb tx" "sorted_wrt (<) (map seq_of (tx_inner tx))" "length (tx_inner tx) < 2 ^ 32"
    and "existed_in pre_states a" "life_of (tx_inner tx) a \<noteq> []"
  shows "\<not> is_valid (process_bucket pre_states rb)"
  using process_transaction_valid [OF assms(1-3), of pre_states] assms(4,5) by blast

lemma preexisting_destruction_rejected_example:
  "\<exists>rb. summarises rb killed_tx \<and> \<not> is_valid (process_bucket (bt_insert (arr_fill 1) True bt_new) rb)"
proof -
  obtain rb where rb: "summarises rb killed_tx" using killed_summarised by blast
  have "\<not> is_valid (process_bucket (bt_insert (arr_fill 1) True bt_new) rb)"
    by (rule preexisting_destruction_rejected [OF rb, where a = "arr_fill 1"])
      (simp_all add: killed_tx_def sample_defs lifecycle_obs_def)
  with rb show ?thesis by blast
qed

definition twice_created_tx :: transaction where
  "twice_created_tx = \<lparr>tx_open = sample_event 0 BeginTransaction,
     tx_inner = [sample_event 1 (sample_create 1), sample_event 2 (sample_create 1)],
     tx_close = sample_event 3 EndTransaction\<rparr>"

text \<open>
  A second creation of a live contract is not reported: the pass accepts it and the
  first creation leaves no trace, one generation that begins at the second.
\<close>

lemma repeated_creation_unreported:
  "(case build_reduced (tx_events twice_created_tx) of
      Ok ir \<Rightarrow> map (\<lambda>out. (is_valid out,
          map (\<lambda>g. (trace_ordinal (cg_begin g), cg_end g = None)) (ci_generations (pass_value out))))
        (lifecycle_process ir bt_new)
    | _ \<Rightarrow> []) = [(True, [(2, True)])]"
  by code_simp

end
