(* ===== verification/Certificate.thy ===== *)
theory Certificate
  imports Lifecycle_Process
begin

text \<open>
  \<open>runtime/builder/src/lifecycle/certificate.rs\<close>: the terminal generation of an
  address, the sources of account data outside the transaction, and the certificates
  built from the reduced state table.  \<open>AccountSnapshotSource\<close> is a trait with no
  implementation in the crate: it is a record of two functions, and nothing is assumed
  of it.
\<close>

section \<open>Types\<close>

datatype generation_error =
    IdentityAbsent address
  | IdentityAmbiguous address
  | ProvenanceMetadataDivergence address u32
  | MalformedProvenanceChain address
  | StateDatabaseCorruption address
  | InsufficientStateInformation address string

record verified_generation =
  vg_key :: generation_key
  vg_proof_root :: b32

record account_snapshot =
  as_nonce :: u64
  as_balance :: b32
  as_code_hash :: b32

record snapshot_source =
  resolve_identity_generation :: "address \<Rightarrow> (verified_generation, generation_error) result"
  recover_account_snapshot :: "address \<Rightarrow> (account_snapshot, generation_error) result"

datatype storage_root_state = Verified b32 | AwaitingDerivation

record certificate =
  ct_address :: address
  ct_generation :: verified_generation
  ct_nonce :: u64
  ct_balance :: b32
  ct_code_hash :: b32
  ct_storage_root :: storage_root_state

record certificate_fields =
  cf_nonce :: "u64 option"
  cf_balance :: "b32 option"
  cf_code_hash :: "b32 option"

definition no_fields :: certificate_fields where
  "no_fields = \<lparr>cf_nonce = None, cf_balance = None, cf_code_hash = None\<rparr>"

record certificate_builder =
  cu_builder_address :: address
  cu_generation :: verified_generation
  cu_fields :: certificate_fields

section \<open>The terminal generation of an address\<close>

text \<open>
  \<open>max().unwrap()\<close> and \<open>terminal[0]\<close> are behind the check for no match: the maximum of
  a list that is not empty is an element of it.
\<close>

definition resolve_generation_for_address ::
    "canonical_generation list \<Rightarrow> address \<Rightarrow> (verified_generation, generation_error) result" where
  "resolve_generation_for_address generations address =
     (let matches = filter (\<lambda>g. gk_address (cg_key g) = address) generations
      in if matches = [] then Err (IdentityAbsent address)
         else
           let max_generation_id = Max (set (map (\<lambda>g. gk_id (cg_key g)) matches));
               terminal = filter (\<lambda>g. gk_id (cg_key g) = max_generation_id) matches
           in if 1 < length terminal then Err (IdentityAmbiguous address)
              else (case terminal of
                      [] \<Rightarrow> Panic
                    | g # _ \<Rightarrow> Ok \<lparr>vg_key = cg_key g, vg_proof_root = arr_fill 0\<rparr>))"

section \<open>Building the certificates\<close>

fun set_field :: "reduced_variant \<Rightarrow> certificate_fields \<Rightarrow> certificate_fields" where
  "set_field (BalanceRt t) f = f\<lparr>cf_balance := Some (terminal t)\<rparr>"
| "set_field (NonceRt t) f = f\<lparr>cf_nonce := Some (terminal t)\<rparr>"
| "set_field (CodeRt t) f = f\<lparr>cf_code_hash := Some (terminal t)\<rparr>"
| "set_field (StorageRt t) f = f"
| "set_field (TransientRt t) f = f"

text \<open>The generation list first, the snapshot source if it has no answer.\<close>

definition resolve_identity ::
    "canonical_generation list \<Rightarrow> snapshot_source \<Rightarrow> address \<Rightarrow> (verified_generation, generation_error) result" where
  "resolve_identity generations src address =
     or_else (resolve_generation_for_address generations address)
       (\<lambda>_. resolve_identity_generation src address)"

definition builder_step ::
    "canonical_generation list \<Rightarrow> snapshot_source \<Rightarrow> (address, certificate_builder) btree_map
     \<Rightarrow> canonical_key \<times> reduced_variant \<Rightarrow> ((address, certificate_builder) btree_map, generation_error) result" where
  "builder_step generations src builders entry =
     (case entry of (key, variant) \<Rightarrow>
       let address = key_address key
       in bind_res
            (case bt_get builders address of
               Some existing \<Rightarrow> Ok existing
             | None \<Rightarrow>
                 bind_res (resolve_identity generations src address) (\<lambda>generation.
                 Ok \<lparr>cu_builder_address = address, cu_generation = generation, cu_fields = no_fields\<rparr>))
            (\<lambda>b. Ok (bt_insert address (b\<lparr>cu_fields := set_field variant (cu_fields b)\<rparr>) builders)))"

text \<open>The missing fields come from one snapshot of the account.\<close>

definition fill_fields ::
    "snapshot_source \<Rightarrow> address \<Rightarrow> certificate_fields \<Rightarrow> (certificate_fields, generation_error) result" where
  "fill_fields src address f =
     (if cf_nonce f = None \<or> cf_balance f = None \<or> cf_code_hash f = None
      then bind_res (recover_account_snapshot src address) (\<lambda>snapshot.
        let f = (if cf_nonce f = None then f\<lparr>cf_nonce := Some (as_nonce snapshot)\<rparr> else f);
            f = (if cf_balance f = None then f\<lparr>cf_balance := Some (as_balance snapshot)\<rparr> else f);
            f = (if cf_code_hash f = None then f\<lparr>cf_code_hash := Some (as_code_hash snapshot)\<rparr> else f)
        in Ok f)
      else Ok f)"

definition complete_fields ::
    "snapshot_source \<Rightarrow> address \<Rightarrow> certificate_fields \<Rightarrow> (account_snapshot, generation_error) result" where
  "complete_fields src address f =
     bind_res (fill_fields src address f) (\<lambda>f.
     bind_res (ok_or (cf_nonce f) (InsufficientStateInformation address ''nonce'')) (\<lambda>nonce.
     bind_res (ok_or (cf_balance f) (InsufficientStateInformation address ''balance'')) (\<lambda>balance.
     bind_res (ok_or (cf_code_hash f) (InsufficientStateInformation address ''code_hash'')) (\<lambda>code_hash.
     Ok \<lparr>as_nonce = nonce, as_balance = balance, as_code_hash = code_hash\<rparr>))))"

definition finish_builder ::
    "snapshot_source \<Rightarrow> address \<Rightarrow> certificate_builder \<Rightarrow> (certificate, generation_error) result" where
  "finish_builder src address b =
     bind_res (complete_fields src address (cu_fields b)) (\<lambda>s.
     Ok \<lparr>ct_address = cu_builder_address b, ct_generation = cu_generation b, ct_nonce = as_nonce s,
         ct_balance = as_balance s, ct_code_hash = as_code_hash s, ct_storage_root = AwaitingDerivation\<rparr>)"

definition build_canonical_certificates ::
    "(canonical_key, reduced_variant) btree_map \<Rightarrow> canonical_generation list \<Rightarrow> snapshot_source
     \<Rightarrow> ((address, certificate) btree_map, generation_error) result" where
  "build_canonical_certificates table generations src =
     bind_res (fold_res (builder_step generations src) bt_new (entries table))
       (bt_traverse (finish_builder src))"

section \<open>Specification\<close>

text \<open>
  An address has a certificate when the transaction touched any key of it; every field
  is what the transaction left, or else what the snapshot says.
\<close>

definition touched :: "(canonical_key \<times> 'v) list \<Rightarrow> address \<Rightarrow> bool" where
  "touched es a \<longleftrightarrow> list_ex (\<lambda>(k, v). key_address k = a) es"

definition nonce_after :: "(canonical_key, reduced_variant) btree_map \<Rightarrow> address \<Rightarrow> u64 option" where
  "nonce_after table a =
     (case bt_get table (NonceKey a) of Some (NonceRt t) \<Rightarrow> Some (terminal t) | _ \<Rightarrow> None)"

definition balance_after :: "(canonical_key, reduced_variant) btree_map \<Rightarrow> address \<Rightarrow> b32 option" where
  "balance_after table a =
     (case bt_get table (BalanceKey a) of Some (BalanceRt t) \<Rightarrow> Some (terminal t) | _ \<Rightarrow> None)"

definition code_after :: "(canonical_key, reduced_variant) btree_map \<Rightarrow> address \<Rightarrow> b32 option" where
  "code_after table a =
     (case bt_get table (CodeKey a) of Some (CodeRt t) \<Rightarrow> Some (terminal t) | _ \<Rightarrow> None)"

definition fields_after :: "(canonical_key, reduced_variant) btree_map \<Rightarrow> address \<Rightarrow> certificate_fields" where
  "fields_after table a =
     \<lparr>cf_nonce = nonce_after table a, cf_balance = balance_after table a, cf_code_hash = code_after table a\<rparr>"

definition certificate_for ::
    "(canonical_key, reduced_variant) btree_map \<Rightarrow> canonical_generation list \<Rightarrow> snapshot_source
     \<Rightarrow> address \<Rightarrow> (certificate, generation_error) result" where
  "certificate_for table generations src a =
     bind_res (resolve_identity generations src a) (\<lambda>g.
     finish_builder src a \<lparr>cu_builder_address = a, cu_generation = g, cu_fields = fields_after table a\<rparr>)"

text \<open>
  What the certificate of an address has to say, without the steps that make it: the
  identity is the one of the generation list, or the snapshot source's where the list
  has none; a field the transaction wrote has the value it was left with, and only the
  others need a snapshot and come from it.
\<close>

definition certificate_says ::
    "(canonical_key, reduced_variant) btree_map \<Rightarrow> canonical_generation list \<Rightarrow> snapshot_source
     \<Rightarrow> address \<Rightarrow> certificate \<Rightarrow> bool" where
  "certificate_says table generations src a c \<longleftrightarrow>
     ct_address c = a \<and> ct_storage_root c = AwaitingDerivation
     \<and> (case resolve_generation_for_address generations a of
          Ok g \<Rightarrow> ct_generation c = g
        | Err _ \<Rightarrow> resolve_identity_generation src a = Ok (ct_generation c)
        | Panic \<Rightarrow> False)
     \<and> (nonce_after table a = Some (ct_nonce c) \<and> balance_after table a = Some (ct_balance c)
          \<and> code_after table a = Some (ct_code_hash c)
        \<or> (nonce_after table a = None \<or> balance_after table a = None \<or> code_after table a = None)
          \<and> (\<exists>snapshot. recover_account_snapshot src a = Ok snapshot
            \<and> ct_nonce c = (case nonce_after table a of Some n \<Rightarrow> n | None \<Rightarrow> as_nonce snapshot)
            \<and> ct_balance c = (case balance_after table a of Some b \<Rightarrow> b | None \<Rightarrow> as_balance snapshot)
            \<and> ct_code_hash c = (case code_after table a of Some h \<Rightarrow> h | None \<Rightarrow> as_code_hash snapshot)))"

text \<open>Every entry has the variant of its key, as the reduction stage makes it.\<close>

fun variant_fits :: "canonical_key \<Rightarrow> reduced_variant \<Rightarrow> bool" where
  "variant_fits (BalanceKey a) (BalanceRt t) = True"
| "variant_fits (NonceKey a) (NonceRt t) = True"
| "variant_fits (CodeKey a) (CodeRt t) = True"
| "variant_fits (StorageKey a s) (StorageRt t) = True"
| "variant_fits (TransientKey a s) (TransientRt t) = True"
| "variant_fits k v = False"

definition typed_table :: "(canonical_key, reduced_variant) btree_map \<Rightarrow> bool" where
  "typed_table table \<longleftrightarrow> list_all (\<lambda>(k, v). variant_fits k v) (entries table)"


section \<open>The first loop\<close>

definition collect_fields :: "address \<Rightarrow> (canonical_key \<times> reduced_variant) list \<Rightarrow> certificate_fields" where
  "collect_fields a es = foldl (\<lambda>f (k, v). if key_address k = a then set_field v f else f) no_fields es"

text \<open>What the loop has for an address after the entries \<open>es\<close>.\<close>

definition builder_of ::
    "canonical_generation list \<Rightarrow> snapshot_source \<Rightarrow> (canonical_key \<times> reduced_variant) list \<Rightarrow> address
     \<Rightarrow> certificate_builder option" where
  "builder_of generations src es a =
     (if touched es a
      then (case resolve_identity generations src a of
              Ok g \<Rightarrow> Some \<lparr>cu_builder_address = a, cu_generation = g, cu_fields = collect_fields a es\<rparr>
            | _ \<Rightarrow> None)
      else None)"

lemma collect_fields_snoc:
  "collect_fields a (es @ [(k, v)]) =
     (if key_address k = a then set_field v (collect_fields a es) else collect_fields a es)"
  by (simp add: collect_fields_def)

lemma touched_snoc [simp]: "touched (es @ [(k, v)]) a \<longleftrightarrow> touched es a \<or> key_address k = a"
  by (auto simp: touched_def)

lemma collect_fields_untouched: "\<not> touched es a \<Longrightarrow> collect_fields a es = no_fields"
  by (induction es rule: rev_induct) (auto simp: collect_fields_snoc, simp add: collect_fields_def)

abbreviation identities_ok where
  "identities_ok generations src es \<equiv> \<forall>a. touched es a \<longrightarrow> is_ok (resolve_identity generations src a)"

text \<open>One step, from a state that is right for the entries before.\<close>

lemma builder_step_Ok:
  assumes builders: "\<forall>a. bt_get builders a = builder_of generations src es a"
    and ids: "identities_ok generations src es"
  shows "builder_step generations src builders (k, v) = Ok builders' \<longleftrightarrow>
    is_ok (resolve_identity generations src (key_address k))
      \<and> (\<forall>a. bt_get builders' a = builder_of generations src (es @ [(k, v)]) a)"
proof -
  let ?a = "key_address k"
  have ext: "builders' = bt_insert ?a b builders \<longleftrightarrow>
      (\<forall>a. bt_get builders' a = (if a = ?a then Some b else bt_get builders a))" for b
    by (auto intro: bt.map_ext)
  have others: "builder_of generations src (es @ [(k, v)]) a = builder_of generations src es a"
    if "a \<noteq> ?a" for a
    using that by (auto simp: builder_of_def collect_fields_snoc split: result.split)
  show ?thesis
  proof (cases "resolve_identity generations src ?a")
    case (Ok g)
    define b where "b = \<lparr>cu_builder_address = ?a, cu_generation = g,
      cu_fields = set_field v (collect_fields ?a es)\<rparr>"
    have here: "builder_of generations src (es @ [(k, v)]) ?a = Some b"
      using Ok by (simp add: builder_of_def b_def collect_fields_snoc)
    have "builder_step generations src builders (k, v) = Ok (bt_insert ?a b builders)"
      using Ok builders by (cases "touched es ?a")
        (auto simp: builder_step_def builder_of_def b_def Let_def collect_fields_untouched)
    then have "builder_step generations src builders (k, v) = Ok builders' \<longleftrightarrow>
        builders' = bt_insert ?a b builders" by auto
    moreover have "builder_of generations src (es @ [(k, v)]) a = (if a = ?a then Some b else bt_get builders a)"
      for a using here others [of a] builders by simp
    ultimately show ?thesis by (simp add: ext Ok)
  next
    case (Err e)
    then have "\<not> touched es ?a" using ids by (metis is_ok.simps(2))
    then have "bt_get builders ?a = None" using builders by (simp add: builder_of_def)
    then show ?thesis by (simp add: builder_step_def Err)
  next
    case Panic
    then have "\<not> touched es ?a" using ids by (metis is_ok.simps(3))
    then have "bt_get builders ?a = None" using builders by (simp add: builder_of_def)
    then show ?thesis by (simp add: builder_step_def Panic)
  qed
qed

lemma builders_exist:
  assumes ok: "identities_ok generations src es"
  shows "\<exists>m. \<forall>a. bt_get m a = builder_of generations src es a"
proof -
  define f where "f = (\<lambda>(k, v :: reduced_variant). (key_address k, the (builder_of generations src es (key_address k))))"
  have "bt_get (bt_of_list (map f es)) a = builder_of generations src es a" for a
  proof -
    have get: "bt_get (bt_of_list (map f es)) a = map_of (rev (map f es)) a"
      unfolding bt_of_list_def by (subst bt.get_foldl_insert) (simp split: option.split)
    show ?thesis
    proof (cases "touched es a")
      case True
      then have "a \<in> fst ` set (rev (map f es))" by (force simp: touched_def list_ex_iff f_def)
      then obtain b where "map_of (rev (map f es)) a = Some b"
        by (metis map_of_eq_None_iff option.exhaust)
      moreover from this have "(a, b) \<in> set (rev (map f es))" by (rule map_of_SomeD)
      then have "b = the (builder_of generations src es a)" by (auto simp: f_def)
      ultimately show ?thesis
        using get True ok by (auto simp: builder_of_def is_ok_iff)
    next
      case False
      then have "a \<notin> fst ` set (rev (map f es))" by (auto simp: touched_def list_ex_iff f_def)
      then have "map_of (rev (map f es)) a = None" by (simp only: map_of_eq_None_iff not_False_eq_True)
      with get False show ?thesis by (simp add: builder_of_def)
    qed
  qed
  then show ?thesis by blast
qed

lemma builders_fold:
  "fold_res (builder_step generations src) bt_new es = Ok builders \<longleftrightarrow>
     identities_ok generations src es \<and> (\<forall>a. bt_get builders a = builder_of generations src es a)"
proof (induction es arbitrary: builders rule: rev_induct)
  case Nil
  have "bt_new = builders \<longleftrightarrow> (\<forall>a. bt_get builders a = None)"
    by (auto intro: bt.map_ext)
  then show ?case by (simp add: builder_of_def touched_def)
next
  case (snoc kv es)
  obtain k v where kv: "kv = (k, v)" by force
  have "fold_res (builder_step generations src) bt_new (es @ [kv]) = Ok builders \<longleftrightarrow>
      (\<exists>m. identities_ok generations src es \<and> (\<forall>a. bt_get m a = builder_of generations src es a)
        \<and> builder_step generations src m (k, v) = Ok builders)"
    by (simp add: fold_res_append kv snoc.IH)
  also have "\<dots> \<longleftrightarrow> identities_ok generations src es
      \<and> is_ok (resolve_identity generations src (key_address k))
      \<and> (\<forall>a. bt_get builders a = builder_of generations src (es @ [(k, v)]) a)"
    (is "?l \<longleftrightarrow> ?r")
  proof
    assume ?l
    then show ?r using builder_step_Ok by blast
  next
    assume ?r
    then obtain m where "\<forall>a. bt_get m a = builder_of generations src es a" using builders_exist by blast
    with \<open>?r\<close> show ?l using builder_step_Ok by blast
  qed
  also have "\<dots> \<longleftrightarrow> identities_ok generations src (es @ [kv])
      \<and> (\<forall>a. bt_get builders a = builder_of generations src (es @ [kv]) a)"
    by (auto simp: kv)
  finally show ?case .
qed

section \<open>The result\<close>

text \<open>In a typed table the collected fields are those of the three keys.\<close>

lemma collect_fields_general:
  assumes "distinct (map fst es)" and "list_all (\<lambda>(k, v). variant_fits k v) es"
  shows "foldl (\<lambda>f (k, v). if key_address k = a then set_field v f else f) f0 es =
    \<lparr>cf_nonce = (case map_of es (NonceKey a) of Some (NonceRt t) \<Rightarrow> Some (terminal t) | _ \<Rightarrow> cf_nonce f0),
     cf_balance = (case map_of es (BalanceKey a) of Some (BalanceRt t) \<Rightarrow> Some (terminal t) | _ \<Rightarrow> cf_balance f0),
     cf_code_hash = (case map_of es (CodeKey a) of Some (CodeRt t) \<Rightarrow> Some (terminal t) | _ \<Rightarrow> cf_code_hash f0)\<rparr>"
  using assms
proof (induction es arbitrary: f0)
  case (Cons kv es)
  obtain k v where kv: "kv = (k, v)" by force
  then have fits: "variant_fits k v" and new: "k \<notin> fst ` set es" using Cons.prems by auto
  have none: "map_of es k = None" using new by (simp add: map_of_eq_None_iff)
  have IH: "foldl (\<lambda>f (k, v). if key_address k = a then set_field v f else f) f es =
    \<lparr>cf_nonce = (case map_of es (NonceKey a) of Some (NonceRt t) \<Rightarrow> Some (terminal t) | _ \<Rightarrow> cf_nonce f),
     cf_balance = (case map_of es (BalanceKey a) of Some (BalanceRt t) \<Rightarrow> Some (terminal t) | _ \<Rightarrow> cf_balance f),
     cf_code_hash = (case map_of es (CodeKey a) of Some (CodeRt t) \<Rightarrow> Some (terminal t) | _ \<Rightarrow> cf_code_hash f)\<rparr>" for f
    using Cons by simp
  show ?case
    unfolding kv foldl_Cons IH prod.case using none fits
    by (cases "(k, v)" rule: variant_fits.cases) (auto cong: option.case_cong reduced_variant.case_cong)
qed simp

lemma collect_fields_table:
  assumes "typed_table table"
  shows "collect_fields a (entries table) = fields_after table a"
  using collect_fields_general [OF bt.iter_distinct, of table a no_fields] assms
  by (simp add: collect_fields_def typed_table_def fields_after_def nonce_after_def balance_after_def
      code_after_def bt_get_def no_fields_def cong: option.case_cong reduced_variant.case_cong)

lemma finish_builder_of:
  assumes "typed_table table" and "builder_of generations src (entries table) a = Some b"
  shows "finish_builder src a b = Ok c \<longleftrightarrow> certificate_for table generations src a = Ok c"
  using assms(2)
  by (auto simp: builder_of_def certificate_for_def collect_fields_table [OF assms(1)]
    split: if_splits result.splits)

text \<open>The second loop, entry by entry, from the state the first one leaves.\<close>

lemma finish_builders:
  assumes "typed_table table" and ids: "identities_ok generations src (entries table)"
    and m: "\<forall>a. bt_get m a = builder_of generations src (entries table) a"
  shows "bt_traverse (finish_builder src) m = Ok certs \<longleftrightarrow>
    (\<forall>a. if touched (entries table) a
         then \<exists>c. certificate_for table generations src a = Ok c \<and> bt_get certs a = Some c
         else bt_get certs a = None)"
proof -
  have "rel_option (\<lambda>b c. finish_builder src a b = Ok c) (bt_get m a) (bt_get certs a) \<longleftrightarrow>
      (if touched (entries table) a
       then \<exists>c. certificate_for table generations src a = Ok c \<and> bt_get certs a = Some c
       else bt_get certs a = None)" for a
  proof (cases "touched (entries table) a")
    case True
    with ids obtain b where b: "builder_of generations src (entries table) a = Some b"
      by (auto simp: builder_of_def is_ok_iff)
    with True m finish_builder_of [OF assms(1) b] show ?thesis by (auto simp: option_rel_Some1)
  next
    case False
    with m show ?thesis by (simp add: builder_of_def)
  qed
  then show ?thesis by (simp only: bt_traverse_Ok_iff)
qed

lemma build_certificates_Ok:
  assumes "typed_table table"
  shows "build_canonical_certificates table generations src = Ok certs \<longleftrightarrow>
    (\<forall>a. if touched (entries table) a
         then \<exists>c. certificate_for table generations src a = Ok c \<and> bt_get certs a = Some c
         else bt_get certs a = None)"
    (is "?l \<longleftrightarrow> ?r")
proof
  assume ?l
  then obtain m where "identities_ok generations src (entries table)"
    "\<forall>a. bt_get m a = builder_of generations src (entries table) a" "bt_traverse (finish_builder src) m = Ok certs"
    by (auto simp: build_canonical_certificates_def builders_fold)
  then show ?r using finish_builders [OF assms] by blast
next
  assume r: ?r
  have ids: "identities_ok generations src (entries table)"
  proof (intro allI impI)
    fix a assume "touched (entries table) a"
    then obtain c where "certificate_for table generations src a = Ok c" using r by (metis (full_types))
    then show "is_ok (resolve_identity generations src a)" by (auto simp: certificate_for_def is_ok_iff)
  qed
  obtain m where fold: "fold_res (builder_step generations src) bt_new (entries table) = Ok m"
    and m: "\<forall>a. bt_get m a = builder_of generations src (entries table) a"
    using builders_exist [OF ids] builders_fold ids by blast
  have "bt_traverse (finish_builder src) m = Ok certs"
    using finish_builders [OF assms ids m] r by blast
  with fold show ?l by (simp add: build_canonical_certificates_def)
qed

lemma certificate_for_Ok:
  "certificate_for table generations src a = Ok c \<longleftrightarrow> certificate_says table generations src a c"
proof -
  have identity: "resolve_identity generations src a = Ok g \<longleftrightarrow>
      (case resolve_generation_for_address generations a of
          Ok g' \<Rightarrow> g = g' | Err _ \<Rightarrow> resolve_identity_generation src a = Ok g | Panic \<Rightarrow> False)" for g
    by (cases "resolve_generation_for_address generations a") (auto simp: resolve_identity_def)
  have fields: "finish_builder src a \<lparr>cu_builder_address = a, cu_generation = g, cu_fields = fields_after table a\<rparr> = Ok c
    \<longleftrightarrow> ct_address c = a \<and> ct_storage_root c = AwaitingDerivation \<and> ct_generation c = g
      \<and> (nonce_after table a = Some (ct_nonce c) \<and> balance_after table a = Some (ct_balance c)
          \<and> code_after table a = Some (ct_code_hash c)
        \<or> (nonce_after table a = None \<or> balance_after table a = None \<or> code_after table a = None)
          \<and> (\<exists>snapshot. recover_account_snapshot src a = Ok snapshot
            \<and> ct_nonce c = (case nonce_after table a of Some n \<Rightarrow> n | None \<Rightarrow> as_nonce snapshot)
            \<and> ct_balance c = (case balance_after table a of Some b \<Rightarrow> b | None \<Rightarrow> as_balance snapshot)
            \<and> ct_code_hash c = (case code_after table a of Some h \<Rightarrow> h | None \<Rightarrow> as_code_hash snapshot)))" for g
    by (cases c; cases "nonce_after table a"; cases "balance_after table a"; cases "code_after table a";
        cases "recover_account_snapshot src a")
      (auto simp: finish_builder_def complete_fields_def fill_fields_def fields_after_def)
  show ?thesis
    by (cases "resolve_identity generations src a")
      (auto simp: certificate_for_def certificate_says_def fields identity [symmetric] dest: identity [THEN iffD2])
qed

section \<open>The generation lookup\<close>

definition generation_ids :: "canonical_generation list \<Rightarrow> address \<Rightarrow> u32 set" where
  "generation_ids gens a = gk_id ` {k \<in> cg_key ` set gens. gk_address k = a}"

lemma generation_lookup:
  assumes keys: "distinct (map cg_key gens)"
  shows "resolve_generation_for_address gens a =
    (if generation_ids gens a = {} then Err (IdentityAbsent a)
     else Ok \<lparr>vg_key = GenerationKey a (Max (generation_ids gens a)), vg_proof_root = arr_fill 0\<rparr>)"
proof -
  define ms where "ms = filter (\<lambda>g. gk_address (cg_key g) = a) gens"
  define m where "m = Max (set (map (\<lambda>g. gk_id (cg_key g)) ms))"
  have ids: "set (map (\<lambda>g. gk_id (cg_key g)) ms) = generation_ids gens a"
    by (auto simp: ms_def generation_ids_def)
  show ?thesis
  proof (cases "ms = []")
    case True
    with ids have "generation_ids gens a = {}" by simp
    with True show ?thesis by (simp add: resolve_generation_for_address_def ms_def [symmetric])
  next
    case False
    with ids have ne: "generation_ids gens a \<noteq> {}" by force
    then have "m \<in> set (map (\<lambda>g. gk_id (cg_key g)) ms)"
      using Max_in [of "set (map (\<lambda>g. gk_id (cg_key g)) ms)"] ids unfolding m_def by auto
    then obtain g where g: "g \<in> set ms" "gk_id (cg_key g) = m" by auto
    have key: "cg_key h = GenerationKey a m" if "h \<in> set ms" "gk_id (cg_key h) = m" for h
      using that by (cases "cg_key h") (auto simp: ms_def)
    have unique: "h = g" if "h \<in> set ms" "gk_id (cg_key h) = m" for h
      using that g key keys by (metis (no_types, lifting) distinct_map filter_is_subset inj_onD ms_def subsetD)
    have "distinct (filter (\<lambda>g. gk_id (cg_key g) = m) ms)"
      using keys by (simp add: ms_def distinct_map)
    moreover have "set (filter (\<lambda>g. gk_id (cg_key g) = m) ms) = {g}"
    proof (rule set_eqI)
      fix h
      show "h \<in> set (filter (\<lambda>g. gk_id (cg_key g) = m) ms) \<longleftrightarrow> h \<in> {g}"
        using g unique [of h] by auto
    qed
    ultimately have "filter (\<lambda>g. gk_id (cg_key g) = m) ms = [g]"
      by (rule distinct_singleton_set)
    then have "resolve_generation_for_address gens a = Ok \<lparr>vg_key = cg_key g, vg_proof_root = arr_fill 0\<rparr>"
      unfolding resolve_generation_for_address_def Let_def ms_def [symmetric] m_def [symmetric]
      using False by simp
    moreover have "m = Max (generation_ids gens a)" by (simp only: m_def ids)
    ultimately show ?thesis using ne key [OF g] by simp
  qed
qed

text \<open>In a transaction the terminal generation is the last lifetime of the address.\<close>

lemma lifetimes_nonempty: "opn \<Longrightarrow> lifetimes a n b opn obs \<noteq> []"
  by (induction a n b opn obs rule: lifetimes.induct) auto

lemma account_lifetimes_ids:
  assumes "in_order obs"
  shows "Max (gn_generation_id ` set (account_lifetimes (a, obs))) = gn_generation_id (last (account_lifetimes (a, obs)))"
proof -
  let ?l = "account_lifetimes (a, obs)"
  have ids: "map gn_generation_id ?l = map of_nat [0..<length ?l]"
    using lifetimes_ids [of a 0] by (simp add: account_lifetimes_def)
  have len: "length ?l \<le> 2 ^ 32"
    using length_lifetimes [of a 0 "case obs of o1 # _ \<Rightarrow> ol_provenance o1 | [] \<Rightarrow> default_provenance" True obs] assms
    unfolding account_lifetimes_def in_order_def prod.case by linarith
  have ne: "?l \<noteq> []" by (simp add: account_lifetimes_def lifetimes_nonempty)
  have id: "gn_generation_id (?l ! i) = of_nat i" if "i < length ?l" for i
    using arg_cong [OF ids, of "\<lambda>xs. xs ! i"] that by simp
  show ?thesis
  proof (rule Max_eqI)
    fix x assume "x \<in> gn_generation_id ` set ?l"
    then obtain i where i: "i < length ?l" "x = of_nat i" using id by (auto simp: in_set_conv_nth)
    show "x \<le> gn_generation_id (last ?l)"
    proof (cases "i = length ?l - 1")
      case True
      with i ne id show ?thesis by (simp add: last_conv_nth)
    next
      case False
      then have "(of_nat i :: u32) < of_nat (length ?l - 1)"
        using i(1) len by (intro word_of_nat_less_iff_bounded) auto
      with i ne id show ?thesis by (simp add: last_conv_nth)
    qed
  qed (use ne in auto)
qed

lemma table_generation_ids:
  assumes "distinct (map fst es)"
  shows "generation_ids (table_generations es) a =
    (case map_of es a of None \<Rightarrow> {} | Some obs \<Rightarrow> gn_generation_id ` set (account_lifetimes (a, obs)))"
proof -
  have key: "cg_key (canonical_generation_of g) = GenerationKey b (gn_generation_id g)"
    if "g \<in> set (account_lifetimes (b, obs))" for g b obs
    using that lifetimes_address by (auto simp: canonical_generation_of_def account_lifetimes_def)
  have "i \<in> generation_ids (table_generations es) a \<longleftrightarrow>
      (\<exists>obs. (a, obs) \<in> set es \<and> i \<in> gn_generation_id ` set (account_lifetimes (a, obs)))" for i
    unfolding generation_ids_def table_generations_def using key by (force simp: image_iff)
  moreover have "(a, obs) \<in> set es \<longleftrightarrow> map_of es a = Some obs" for obs
    using assms by simp
  ultimately show ?thesis by (auto split: option.split)
qed

lemma transaction_identity:
  assumes tx: "summarises rb tx" "sorted_wrt (<) (map seq_of (tx_inner tx))" "length (tx_inner tx) < 2 ^ 32"
  shows "resolve_generation_for_address (ci_generations (pass_value (process_bucket pre_states rb))) a =
    (if life_of (tx_inner tx) a = [] then Err (IdentityAbsent a)
     else Ok \<lparr>vg_key = GenerationKey a
         (gn_generation_id (last (account_lifetimes (a, life_of (tx_inner tx) a)))), vg_proof_root = arr_fill 0\<rparr>)"
proof -
  let ?es = "entries (rb_lifecycle_table rb)" and ?obs = "life_of (tx_inner tx) a"
  have gens: "ci_generations (pass_value (process_bucket pre_states rb)) = table_generations ?es"
    by (simp add: process_bucket_value [OF summarises_in_order [OF tx]])
  have ord: "\<forall>e \<in> set ?es. in_order (snd e)"
    using summarises_in_order [OF tx] by (simp add: bucket_in_order_def list_all_iff)
  have keys: "distinct (map cg_key (table_generations ?es))"
    using gen_before_keys table_generations_sorted [OF sorted_entries ord] by blast
  have "map_of ?es a = nonempty ?obs"
    using tx(1) by (simp add: summarises_def bt_get_def)
  then have ids: "generation_ids (table_generations ?es) a =
      (if ?obs = [] then {} else gn_generation_id ` set (account_lifetimes (a, ?obs)))"
    by (simp add: table_generation_ids bt.iter_distinct nonempty_def)
  show ?thesis
    using account_lifetimes_ids [OF life_of_in_order [OF tx(2,3)], of a]
    by (simp add: gens generation_lookup [OF keys] ids account_lifetimes_def lifetimes_nonempty)
qed

section \<open>Properties\<close>

text \<open>
  After the lifecycle pass over a transaction with increasing sequence numbers the
  lookup of an identity is never ambiguous: an address the transaction created or
  destroyed resolves to its last lifetime, and every other address is reported absent.
\<close>

lemma identity_is_last_lifetime:
  assumes "summarises rb tx" "sorted_wrt (<) (map seq_of (tx_inner tx))" "length (tx_inner tx) < 2 ^ 32"
  shows "resolve_generation_for_address (ci_generations (pass_value (process_bucket pre_states rb))) a =
    (if life_of (tx_inner tx) a = [] then Err (IdentityAbsent a)
     else Ok \<lparr>vg_key = GenerationKey a
         (gn_generation_id (last (account_lifetimes (a, life_of (tx_inner tx) a)))), vg_proof_root = arr_fill 0\<rparr>)"
  using assms by (rule transaction_identity)

lemma identity_is_last_lifetime_example:
  "\<exists>rb. summarises rb reborn_tx
     \<and> resolve_generation_for_address (ci_generations (pass_value (process_bucket bt_new rb))) (arr_fill 1)
       = Ok \<lparr>vg_key = GenerationKey (arr_fill 1) 1, vg_proof_root = arr_fill 0\<rparr>"
proof -
  obtain rb where rb: "summarises rb reborn_tx" using reborn_summarised by blast
  have "life_of (tx_inner reborn_tx) (arr_fill 1) \<noteq> []"
    "gn_generation_id (last (account_lifetimes (arr_fill 1, life_of (tx_inner reborn_tx) (arr_fill 1)))) = 1"
    by (simp_all add: reborn_tx_def sample_defs lifecycle_obs_def account_lifetimes_def is_created.simps)
  with identity_is_last_lifetime [OF rb reborn_increasing, of bt_new "arr_fill 1"] rb show ?thesis
    by (intro exI [of _ rb]) (simp only: if_False)
qed

text \<open>
  C15: certificates cover the transaction exactly: building succeeds when every touched
  address has an identity and, where the transaction did not write all three fields, a
  snapshot; then every touched address has its certificate and no other address has one.
  Each field is the value the transaction left; only fields it did not write come from
  the snapshot.
\<close>

theorem certificates_exact:
  assumes "typed_table table"
  shows "build_canonical_certificates table generations src = Ok certs \<longleftrightarrow>
    (\<forall>a. if touched (entries table) a
         then \<exists>c. certificate_says table generations src a c \<and> bt_get certs a = Some c
         else bt_get certs a = None)"
  unfolding certificate_for_Ok [symmetric] by (rule build_certificates_Ok [OF assms])

text \<open>A source that knows every account, with nonce 7; a table with one balance change.\<close>

definition sample_source :: snapshot_source where
  "sample_source =
     \<lparr>resolve_identity_generation = (\<lambda>a. Ok \<lparr>vg_key = GenerationKey a 0, vg_proof_root = arr_fill 0\<rparr>),
      recover_account_snapshot =
        (\<lambda>a. Ok \<lparr>as_nonce = 7, as_balance = arr_fill 3, as_code_hash = arr_fill 4\<rparr>)\<rparr>"

definition sample_table :: "(canonical_key, reduced_variant) btree_map" where
  "sample_table = bt_insert (BalanceKey (arr_fill 1))
     (BalanceRt \<lparr>initial = arr_fill 5, terminal = arr_fill 6, rt_provenance = Provenance {EventId 1}\<rparr>) bt_new"

definition sample_certificate :: certificate where
  "sample_certificate = \<lparr>ct_address = arr_fill 1,
     ct_generation = \<lparr>vg_key = GenerationKey (arr_fill 1) 0, vg_proof_root = arr_fill 0\<rparr>,
     ct_nonce = 7, ct_balance = arr_fill 6, ct_code_hash = arr_fill 4, ct_storage_root = AwaitingDerivation\<rparr>"

theorem certificates_exact_witness:
  "build_canonical_certificates sample_table [] sample_source
     = Ok (bt_insert (arr_fill 1) sample_certificate bt_new)"
proof -
  have typed: "typed_table sample_table" by (simp add: typed_table_def sample_table_def)
  have "certificate_says sample_table [] sample_source (arr_fill 1) sample_certificate"
    by (simp add: certificate_says_def sample_table_def sample_source_def sample_certificate_def
        resolve_generation_for_address_def nonce_after_def balance_after_def code_after_def)
  then show ?thesis
    unfolding certificates_exact [OF typed] by (auto simp: touched_def sample_table_def)
qed

end
