(* ===== verification/Hydration.thy ===== *)
theory Hydration
  imports Certificate
begin

text \<open>
  \<open>runtime/builder/src/lifecycle/hydration.rs\<close>: certificate building in two phases.
  Hydration gathers identity and base attributes of every touched address, assembly maps
  the hydrated states to certificates.  The two phases together are shown to be
  \<open>build_canonical_certificates\<close>, errors and their order included.
\<close>

section \<open>The phases as written\<close>

record hydrated_account =
  hy_address :: address
  hy_snapshot :: account_snapshot
  hy_generation :: verified_generation
  hy_storage_root :: storage_root_state

datatype assembly_error = IdentityMismatchedKey address address \<comment> \<open>address, key\<close>

type_synonym hydrate_state =
  "(address, verified_generation) btree_map \<times> (address, certificate_fields) btree_map"

text \<open>The struct \<open>PartialFields\<close> has the fields of \<open>CertificateFields\<close>.\<close>

definition hydrate_step ::
    "canonical_generation list \<Rightarrow> snapshot_source \<Rightarrow> hydrate_state \<Rightarrow> canonical_key \<times> reduced_variant
     \<Rightarrow> (hydrate_state, generation_error) result" where
  "hydrate_step generations src s entry =
     (case (s, entry) of ((generation_by_address, fields_by_address), (key, variant)) \<Rightarrow>
       let address = key_address key
       in bind_res
            (if \<not> bt_contains_key generation_by_address address
             then bind_res (resolve_identity generations src address) (\<lambda>generation.
               Ok (bt_insert address generation generation_by_address))
             else Ok generation_by_address)
            (\<lambda>generation_by_address.
               Ok (generation_by_address,
                   bt_entry address no_fields (set_field variant) fields_by_address)))"

text \<open>\<open>generation_by_address[&address]\<close> panics on a missing key.\<close>

definition hydrate_entry ::
    "snapshot_source \<Rightarrow> (address, verified_generation) btree_map \<Rightarrow> address \<Rightarrow> certificate_fields
     \<Rightarrow> (hydrated_account, generation_error) result" where
  "hydrate_entry src generation_by_address address fs =
     bind_res (complete_fields src address fs) (\<lambda>snapshot.
     case bt_get generation_by_address address of
       None \<Rightarrow> Panic
     | Some g \<Rightarrow> Ok \<lparr>hy_address = address, hy_snapshot = snapshot, hy_generation = g,
                    hy_storage_root = AwaitingDerivation\<rparr>)"

definition hydrate_accounts ::
    "(canonical_key, reduced_variant) btree_map \<Rightarrow> canonical_generation list \<Rightarrow> snapshot_source
     \<Rightarrow> ((address, hydrated_account) btree_map, generation_error) result" where
  "hydrate_accounts table generations src =
     bind_res (fold_res (hydrate_step generations src) (bt_new, bt_new) (entries table))
       (\<lambda>(generation_by_address, fields_by_address).
          bt_traverse (hydrate_entry src generation_by_address) fields_by_address)"

definition assemble_entry :: "address \<Rightarrow> hydrated_account \<Rightarrow> (certificate, assembly_error) result" where
  "assemble_entry key state =
     (if hy_address state \<noteq> key
      then Err (IdentityMismatchedKey (hy_address state) key)
      else Ok \<lparr>ct_address = hy_address state, ct_generation = hy_generation state,
               ct_nonce = as_nonce (hy_snapshot state), ct_balance = as_balance (hy_snapshot state),
               ct_code_hash = as_code_hash (hy_snapshot state),
               ct_storage_root = hy_storage_root state\<rparr>)"

definition assemble_certificates ::
    "(address, hydrated_account) btree_map \<Rightarrow> ((address, certificate) btree_map, assembly_error) result" where
  "assemble_certificates hydrated = bt_traverse assemble_entry hydrated"

section \<open>Simulation\<close>

text \<open>The builders of one loop are the generations and fields of the other.\<close>

definition split_state :: "(address, certificate_builder) btree_map \<Rightarrow> hydrate_state \<Rightarrow> bool" where
  "split_state builders s \<longleftrightarrow>
     (\<forall>a. bt_get (fst s) a = map_option cu_generation (bt_get builders a))
     \<and> (\<forall>a. bt_get (snd s) a = map_option cu_fields (bt_get builders a))
     \<and> (\<forall>a b. bt_get builders a = Some b \<longrightarrow> cu_builder_address b = a)"

lemma split_step:
  assumes "split_state builders s"
  shows "rel_res split_state (builder_step generations src builders kv) (hydrate_step generations src s kv)"
proof -
  obtain k v gs fs where kv: "kv = (k, v)" and s: "s = (gs, fs)" by (cases kv; cases s)
  show ?thesis
  proof (cases "bt_get builders (key_address k)")
    case None
    then show ?thesis
      using assms unfolding kv s
      by (cases "resolve_identity generations src (key_address k)")
        (auto simp: builder_step_def hydrate_step_def split_state_def Let_def bt_contains_key_def)
  next
    case (Some b)
    then show ?thesis
      using assms unfolding kv s
      by (auto simp: builder_step_def hydrate_step_def split_state_def Let_def bt_contains_key_def)
  qed
qed

lemma split_loops:
  "rel_res split_state (fold_res (builder_step generations src) bt_new es)
     (fold_res (hydrate_step generations src) (bt_new, bt_new) es)"
  by (rule fold_res_rel [OF split_step]) (simp_all add: split_state_def)

definition to_certificate :: "address \<Rightarrow> hydrated_account \<Rightarrow> certificate" where
  "to_certificate a h = \<lparr>ct_address = a, ct_generation = hy_generation h,
     ct_nonce = as_nonce (hy_snapshot h), ct_balance = as_balance (hy_snapshot h),
     ct_code_hash = as_code_hash (hy_snapshot h), ct_storage_root = hy_storage_root h\<rparr>"

lemma finish_builder_hydrate:
  assumes "split_state builders (gs, fs)" and "bt_get builders a = Some b"
  shows "finish_builder src a b = map_res (to_certificate a) (hydrate_entry src gs a (cu_fields b))"
  using assms
  by (cases "complete_fields src a (cu_fields b)")
    (auto simp: finish_builder_def hydrate_entry_def to_certificate_def split_state_def)

lemma finish_split:
  assumes "split_state builders (gs, fs)"
  shows "bt_traverse (finish_builder src) builders
    = map_res (bt_map to_certificate) (bt_traverse (hydrate_entry src gs) fs)"
proof (rule bt_traverse_fusion)
  show "bt_get fs k = map_option cu_fields (bt_get builders k)" for k
    using assms by (simp add: split_state_def)
qed (rule finish_builder_hydrate [OF assms])

lemma build_hydrate:
  "build_canonical_certificates table generations src
     = map_res (bt_map to_certificate) (hydrate_accounts table generations src)"
proof -
  have push: "map_res h (bind_res r f) = bind_res r (\<lambda>x. map_res h (f x))" for h r f
    by (cases r) auto
  show ?thesis
    unfolding build_canonical_certificates_def hydrate_accounts_def push
    by (rule rel_res_bind [OF split_loops]) (auto simp: finish_split split: prod.split)
qed

text \<open>Hydrated accounts are stored under their own address, so assembly succeeds on them.\<close>

lemma hydrated_addresses:
  assumes "hydrate_accounts table generations src = Ok h" and "bt_get h a = Some x"
  shows "hy_address x = a"
proof -
  obtain gs fs where "bt_traverse (hydrate_entry src gs) fs = Ok h"
    using assms(1) by (auto simp: hydrate_accounts_def split: prod.splits)
  from bt_traverse_get [OF this, of a] assms(2)
  show ?thesis by (auto simp: option_rel_Some2 hydrate_entry_def split: option.splits)
qed

lemma assemble_hydrated:
  assumes "hydrate_accounts table generations src = Ok h"
  shows "assemble_certificates h = Ok (bt_map to_certificate h)"
  unfolding assemble_certificates_def
  by (rule bt_traverse_map_Ok)
    (simp add: assemble_entry_def to_certificate_def hydrated_addresses [OF assms])

section \<open>Properties\<close>

text \<open>
  C26: the two phases are the direct construction: when hydration succeeds, assembly
  succeeds on its result and gives exactly the certificates of
  \<open>build_canonical_certificates\<close>, and when it fails, both fail with the same error.
\<close>

theorem hydrate_then_assemble_is_build:
  "case hydrate_accounts table generations src of
     Ok h \<Rightarrow> (\<exists>certs. assemble_certificates h = Ok certs
         \<and> build_canonical_certificates table generations src = Ok certs)
   | Err e \<Rightarrow> build_canonical_certificates table generations src = Err e
   | Panic \<Rightarrow> build_canonical_certificates table generations src = Panic"
  by (cases "hydrate_accounts table generations src")
    (simp_all add: build_hydrate assemble_hydrated)

end
