(* ===== verification/Merkle.thy ===== *)
theory Merkle
  imports Hash
begin

text \<open>
  The binary Merkle tree that \<open>runtime/ssz/src/lib.rs\<close> (\<open>merkleize\<close>) and
  \<open>runtime/builder/src/lifecycle/storage_root.rs\<close> (\<open>derive\<close>) each build with the
  same loops: pad the leaves with zero chunks to a power of two, then hash pairs
  layer by layer until one node is left.  The loops are here, over the pair hash;
  the locale \<open>merkle_profile\<close> states the tree they promise, and both users
  interpret it.
\<close>

section \<open>The loops\<close>

text \<open>
  \<open>while size < len { size <<= 1; }\<close>, on natural numbers.  The loop starts at 1,
  so the guard \<open>0 < size\<close>, which makes the definition total, never decides.
  \<open>pad_size_word\<close> below is the same loop on \<open>usize\<close> words.
\<close>

function pad_size :: "nat \<Rightarrow> nat \<Rightarrow> nat" where
  "pad_size width len = (if 0 < width \<and> width < len then pad_size (2 * width) len else width)"
  by pat_completeness auto
termination
  by (relation "measure (\<lambda>(width, len). len - width)") auto

declare pad_size.simps [simp del]

partial_function (option) pad_size_word :: "u64 \<Rightarrow> u64 \<Rightarrow> u64 option" where
  "pad_size_word width len =
     (if width < len then pad_size_word (push_bit 1 width) len else Some width)"

text \<open>\<open>while layer.len() < size { layer.push([0u8; 32]); }\<close>.\<close>

definition pad_leaves :: "b32 list \<Rightarrow> b32 list" where
  "pad_leaves leaves =
     leaves @ replicate (pad_size 1 (length leaves) - length leaves) (arr_fill 0)"

text \<open>One round over \<open>layer.chunks(2)\<close>: \<open>pair[1]\<close> panics on a chunk of one node.\<close>

fun hash_layer :: "(b32 \<Rightarrow> b32 \<Rightarrow> b32) \<Rightarrow> b32 list \<Rightarrow> (b32 list, 'e) result" where
  "hash_layer h [] = Ok []"
| "hash_layer h [a] = Panic"
| "hash_layer h (a # b # rest) =
     bind_res (hash_layer h rest) (\<lambda>next. Ok (h a b # next))"

lemma hash_layer_length: "hash_layer h xs = Ok ys \<Longrightarrow> length xs = 2 * length ys"
  by (induction h xs arbitrary: ys rule: hash_layer.induct) auto

text \<open>\<open>while layer.len() > 1 { .. } layer[0]\<close>.\<close>

function fold_layers :: "(b32 \<Rightarrow> b32 \<Rightarrow> b32) \<Rightarrow> b32 list \<Rightarrow> (b32, 'e) result" where
  "fold_layers h layer =
     (if 1 < length layer
      then bind_res (hash_layer h layer) (\<lambda>next. fold_layers h next)
      else (case layer of [] \<Rightarrow> Panic | root # _ \<Rightarrow> Ok root))"
  by pat_completeness auto
termination
  by (relation "measure (\<lambda>(h, layer). length layer)") (auto, drule hash_layer_length, linarith)

declare fold_layers.simps [simp del]

section \<open>The tree, recursively\<close>

text \<open>
  The reference: over \<open>2 ^ k\<close> leaves the root hashes the roots of the two halves.
\<close>

fun tree_root :: "(b32 \<Rightarrow> b32 \<Rightarrow> b32) \<Rightarrow> nat \<Rightarrow> b32 list \<Rightarrow> b32" where
  "tree_root h 0 xs = hd xs"
| "tree_root h (Suc k) xs =
     h (tree_root h k (take (2 ^ k) xs)) (tree_root h k (drop (2 ^ k) xs))"

lemma hash_layer_append:
  "even (length xs) \<Longrightarrow>
    hash_layer h (xs @ ys) = bind_res (hash_layer h xs) (\<lambda>us.
      bind_res (hash_layer h ys) (\<lambda>vs. Ok (us @ vs)))"
proof (induction h xs rule: hash_layer.induct)
  case (3 h a b rest)
  then show ?case by (simp add: bind_res_assoc)
qed auto

lemma hash_layer_even:
  "even (length xs) \<Longrightarrow> \<exists>ys. hash_layer h xs = Ok ys \<and> 2 * length ys = length xs"
  by (induction h xs rule: hash_layer.induct) auto

lemma length_2_pow_split:
  assumes "length xs = 2 ^ Suc k"
  obtains l r where "xs = l @ r" "length l = 2 ^ k" "length r = 2 ^ k"
    "take (2 ^ k) xs = l" "drop (2 ^ k) xs = r"
  using assms by (intro that [of "take (2 ^ k) xs" "drop (2 ^ k) xs"]) auto

lemma tree_root_layer:
  "length xs = 2 ^ Suc k \<Longrightarrow> hash_layer h xs = Ok ys \<Longrightarrow> tree_root h k ys = tree_root h (Suc k) xs"
proof (induction k arbitrary: xs ys)
  case 0
  then obtain a b where "xs = [a, b]"
    by (auto simp: length_Suc_conv numeral_2_eq_2)
  with 0 show ?case by auto
next
  case (Suc k)
  obtain l r where lr: "xs = l @ r" "length l = 2 ^ Suc k" "length r = 2 ^ Suc k"
    using length_2_pow_split [OF Suc.prems(1)] by metis
  obtain us vs where u: "hash_layer h l = (Ok us :: (b32 list, 'a) result)" "length us = 2 ^ k"
    and v: "hash_layer h r = (Ok vs :: (b32 list, 'a) result)" "length vs = 2 ^ k"
    using hash_layer_even [of l h] hash_layer_even [of r h] lr by auto
  have "ys = us @ vs"
    using Suc.prems(2) u v lr by (auto simp: hash_layer_append)
  moreover have "tree_root h k us = tree_root h (Suc k) l" "tree_root h k vs = tree_root h (Suc k) r"
    using Suc.IH [of l us] Suc.IH [of r vs] lr u v by auto
  ultimately show ?case
    using lr u v by simp
qed

text \<open>Layer by layer and recursively are the same root, and the loop never panics.\<close>

lemma fold_layers_tree_root: "length xs = 2 ^ k \<Longrightarrow> fold_layers h xs = Ok (tree_root h k xs)"
proof (induction k arbitrary: xs)
  case 0
  then obtain a where "xs = [a]" by (auto simp: length_Suc_conv)
  then show ?case by (subst fold_layers.simps) simp
next
  case (Suc k)
  obtain ys where ys: "hash_layer h xs = (Ok ys :: (b32 list, 'a) result)" "length ys = 2 ^ k"
    using hash_layer_even [of xs h] Suc.prems by auto
  have "fold_layers h ys = (Ok (tree_root h k ys) :: (b32, 'a) result)"
    by (rule Suc.IH [OF ys(2)])
  moreover have "1 < length xs"
    unfolding Suc.prems by (rule one_less_power) auto
  ultimately show ?case
    using ys tree_root_layer [OF Suc.prems ys(1)]
    by (subst fold_layers.simps) (simp del: tree_root.simps)
qed

text \<open>
  The pairs hashed on the way to the root, the root's own pair first.
\<close>

fun tree_queries :: "(b32 \<Rightarrow> b32 \<Rightarrow> b32) \<Rightarrow> nat \<Rightarrow> b32 list \<Rightarrow> (b32 \<times> b32) list" where
  "tree_queries h 0 xs = []"
| "tree_queries h (Suc k) xs =
     (tree_root h k (take (2 ^ k) xs), tree_root h k (drop (2 ^ k) xs))
       # tree_queries h k (take (2 ^ k) xs) @ tree_queries h k (drop (2 ^ k) xs)"

lemma length_tree_queries: "length (tree_queries h k xs) = 2 ^ k - 1"
proof (induction k arbitrary: xs)
  case (Suc k)
  have "length (tree_queries h (Suc k) xs) = Suc ((2 ^ k - 1) + (2 ^ k - 1))" by (simp add: Suc.IH)
  moreover have "(1::nat) \<le> 2 ^ k" by simp
  ultimately show ?case unfolding power_Suc by linarith
qed simp

text \<open>
  Binding: two leaf sequences of one width with one root agree, or two of the pairs
  that were actually hashed collide.  (That some collision exists is a triviality, as
  the hash is not injective; the statement is that the computation exhibits one.)
\<close>

definition collide_among :: "('a \<Rightarrow> 'b) \<Rightarrow> 'a list \<Rightarrow> 'a list \<Rightarrow> bool" where
  "collide_among h ps qs \<longleftrightarrow> (\<exists>p \<in> set ps. \<exists>q \<in> set qs. collision h p q)"

lemma collide_among_mono:
  "collide_among h ps qs \<Longrightarrow> set ps \<subseteq> set ps' \<Longrightarrow> set qs \<subseteq> set qs' \<Longrightarrow> collide_among h ps' qs'"
  by (auto simp: collide_among_def)

lemma tree_root_binding:
  "length xs = 2 ^ k \<Longrightarrow> length ys = 2 ^ k \<Longrightarrow> tree_root h k xs = tree_root h k ys \<Longrightarrow>
    xs = ys \<or> collide_among (case_prod h) (tree_queries h k xs) (tree_queries h k ys)"
proof (induction k arbitrary: xs ys)
  case 0
  then show ?case by (auto simp: length_Suc_conv)
next
  case (Suc k)
  obtain l r where lr: "xs = l @ r" "length l = 2 ^ k" "length r = 2 ^ k"
    "take (2 ^ k) xs = l" "drop (2 ^ k) xs = r"
    using length_2_pow_split [OF Suc.prems(1)] .
  obtain l' r' where lr': "ys = l' @ r'" "length l' = 2 ^ k" "length r' = 2 ^ k"
    "take (2 ^ k) ys = l'" "drop (2 ^ k) ys = r'"
    using length_2_pow_split [OF Suc.prems(2)] .
  have eq: "h (tree_root h k l) (tree_root h k r) = h (tree_root h k l') (tree_root h k r')"
    using Suc.prems(3) lr(4,5) lr'(4,5) by simp
  show ?case
  proof (cases "tree_root h k l = tree_root h k l' \<and> tree_root h k r = tree_root h k r'")
    case True
    then have "l = l' \<or> collide_among (case_prod h) (tree_queries h k l) (tree_queries h k l')"
      and "r = r' \<or> collide_among (case_prod h) (tree_queries h k r) (tree_queries h k r')"
      using Suc.IH [OF lr(2) lr'(2)] Suc.IH [OF lr(3) lr'(3)] by auto
    moreover have "set (tree_queries h k l) \<subseteq> set (tree_queries h (Suc k) xs)"
      "set (tree_queries h k r) \<subseteq> set (tree_queries h (Suc k) xs)"
      "set (tree_queries h k l') \<subseteq> set (tree_queries h (Suc k) ys)"
      "set (tree_queries h k r') \<subseteq> set (tree_queries h (Suc k) ys)"
      using lr(4,5) lr'(4,5) by auto
    ultimately show ?thesis unfolding lr(1) lr'(1) by (metis collide_among_mono)
  next
    case False
    with eq lr(4,5) lr'(4,5) show ?thesis
      by (auto simp: collide_among_def collision_def)
  qed
qed

section \<open>The padded width\<close>

lemma pad_size_ge: "0 < width \<Longrightarrow> len \<le> pad_size width len"
  by (induction width len rule: pad_size.induct) (subst pad_size.simps, auto)

lemma pad_size_pow2: "width = 2 ^ k \<Longrightarrow> \<exists>j. pad_size width len = 2 ^ j"
proof (induction width len arbitrary: k rule: pad_size.induct)
  case (1 width len)
  show ?case
  proof (cases "width < len")
    case True
    with 1 have "\<exists>j. pad_size (2 * width) len = 2 ^ j"
      by (intro "1.IH" [of "Suc k"]) auto
    with True "1.prems" show ?thesis by (subst pad_size.simps) auto
  next
    case False
    with "1.prems" show ?thesis by (subst pad_size.simps) auto
  qed
qed

text \<open>Least: the loop stops as soon as the width suffices.\<close>

lemma pad_size_less: "0 < width \<Longrightarrow> width < len \<Longrightarrow> pad_size width len < 2 * len"
proof (induction width len rule: pad_size.induct)
  case (1 width len)
  show ?case
  proof (cases "2 * width < len")
    case True
    with 1 show ?thesis by (subst pad_size.simps) auto
  next
    case False
    with "1.prems" have "pad_size width len = 2 * width"
      by (subst pad_size.simps, subst pad_size.simps) auto
    with "1.prems" show ?thesis by simp
  qed
qed

lemma pad_size_1 [simp]: "n \<le> Suc 0 \<Longrightarrow> pad_size (Suc 0) n = Suc 0"
  by (subst pad_size.simps) auto

lemma pad_size_le_pow2: "width \<le> 2 ^ j \<Longrightarrow> len \<le> 2 ^ j \<Longrightarrow> width = 2 ^ i \<Longrightarrow> pad_size width len \<le> 2 ^ j"
proof (induction width len arbitrary: i rule: pad_size.induct)
  case (1 width len)
  show ?case
  proof (cases "width < len")
    case True
    then have "(2::nat) ^ i < 2 ^ j" using "1.prems" by linarith
    then have "i < j" by simp
    then have "2 * width \<le> 2 ^ j" using "1.prems"(3)
      by (metis Suc_leI one_le_numeral power_Suc power_increasing)
    with True 1 have "pad_size (2 * width) len \<le> 2 ^ j"
      by (intro "1.IH" [of "Suc i"]) auto
    with True "1.prems" show ?thesis by (subst pad_size.simps) auto
  next
    case False
    with "1.prems" show ?thesis by (subst pad_size.simps) auto
  qed
qed


text \<open>
  The loop on \<open>usize\<close> words: for at most \<open>2 ^ 63\<close> leaves the doubling never shifts
  a bit out, the loop returns, and it returns the width of the natural-number loop.
  (A longer list would shift \<open>size\<close> to 0 and loop for ever; a Rust \<open>Vec\<close> of
  32-byte leaves holds fewer than \<open>2 ^ 59\<close>.)
\<close>

lemma unat_double: "unat (w :: u64) < 2 ^ 63 \<Longrightarrow> unat (push_bit 1 w) = 2 * unat w"
  by (simp add: push_bit_eq_mult unat_word_ariths)

lemma pad_size_word_returns:
  "unat w = 2 ^ i \<Longrightarrow> unat len \<le> 2 ^ 63 \<Longrightarrow>
    \<exists>r. pad_size_word w len = Some r \<and> unat r = pad_size (unat w) (unat len)"
proof (induction "unat w" "unat len" arbitrary: w i rule: pad_size.induct)
  case 1
  show ?case
  proof (cases "w < len")
    case True
    then have lt: "unat w < unat len" by (simp add: word_less_nat_alt)
    then have small: "unat w < 2 ^ 63" using "1.prems"(2) by simp
    have dbl: "unat (push_bit 1 w) = 2 * unat w" by (rule unat_double [OF small])
    have pos: "0 < unat w" using "1.prems"(1) by simp
    have "\<exists>r. pad_size_word (push_bit 1 w) len = Some r
        \<and> unat r = pad_size (unat (push_bit 1 w)) (unat len)"
      using lt pos dbl "1.prems" by (intro "1.hyps" [of "push_bit 1 w" "Suc i"]) simp_all
    then show ?thesis
      using True lt pos dbl by (subst pad_size_word.simps, subst pad_size.simps) auto
  next
    case False
    then have "\<not> unat w < unat len" by (simp add: word_less_nat_alt)
    then show ?thesis
      using False by (subst pad_size_word.simps, subst pad_size.simps) auto
  qed
qed

section \<open>The profile\<close>

text \<open>
  What the two users promise of their root function: leaves padded to the least power
  of two at or above their number, one zero leaf for no leaves, and the tree over them.
\<close>

definition profile_width :: "nat \<Rightarrow> nat" where
  "profile_width len = pad_size 1 (max 1 len)"

definition profile_leaves :: "b32 list \<Rightarrow> b32 list" where
  "profile_leaves xs = pad_leaves (if xs = [] then [arr_fill 0] else xs)"

text \<open>The depth of a tree with a power of two of leaves.\<close>

fun tree_depth :: "nat \<Rightarrow> nat" where
  "tree_depth n = (if n \<le> 1 then 0 else Suc (tree_depth (n div 2)))"

declare tree_depth.simps [simp del]

definition profile_queries :: "(b32 \<Rightarrow> b32 \<Rightarrow> b32) \<Rightarrow> b32 list \<Rightarrow> (b32 \<times> b32) list" where
  "profile_queries h xs = tree_queries h (tree_depth (profile_width (length xs))) (profile_leaves xs)"

lemma tree_depth_power [simp]: "tree_depth (2 ^ k) = k"
proof (induction k)
  case (Suc k)
  have "1 < (2::nat) ^ Suc k" by (rule one_less_power) auto
  with Suc show ?case by (subst tree_depth.simps) auto
qed (simp add: tree_depth.simps)

lemma length_profile_leaves: "length (profile_leaves xs) = profile_width (length xs)"
  using pad_size_ge [of 1 "length xs"]
  by (cases xs) (auto simp: profile_leaves_def pad_leaves_def profile_width_def max_def)

lemma profile_leaves_padding:
  "xs \<noteq> [] \<Longrightarrow> profile_leaves xs = xs @ replicate (profile_width (length xs) - length xs) (arr_fill 0)"
  by (cases xs) (auto simp: profile_leaves_def pad_leaves_def profile_width_def max_def)

lemma profile_width_pow2: "profile_width n = 2 ^ tree_depth (profile_width n)"
proof -
  obtain j where "profile_width n = 2 ^ j"
    using pad_size_pow2 [of 1 0 "max 1 n"] by (auto simp: profile_width_def)
  then show ?thesis by simp
qed

lemma length_profile_queries: "length (profile_queries h xs) = profile_width (length xs) - 1"
  by (simp add: profile_queries_def length_tree_queries flip: profile_width_pow2)

locale merkle_profile =
  fixes h :: "b32 \<Rightarrow> b32 \<Rightarrow> b32"
    and root :: "b32 list \<Rightarrow> (b32, 'e) result"
  assumes root_empty: "root [] = root [arr_fill 0]"
    and root_padded: "xs \<noteq> [] \<Longrightarrow> root xs = fold_layers h (pad_leaves xs)"
begin

lemma root_eq_tree:
  "root xs = Ok (tree_root h (tree_depth (profile_width (length xs))) (profile_leaves xs))"
proof -
  have "root xs = fold_layers h (profile_leaves xs)"
    by (cases "xs = []") (simp_all add: profile_leaves_def root_empty root_padded)
  also have "\<dots> = Ok (tree_root h (tree_depth (profile_width (length xs))) (profile_leaves xs))"
    by (rule fold_layers_tree_root) (subst length_profile_leaves, rule profile_width_pow2)
  finally show ?thesis .
qed

lemma root_total: "\<exists>r. root xs = Ok r"
  using root_eq_tree by blast

lemma root_single: "root [x] = Ok x"
  using root_padded [of "[x]"] by (simp add: pad_leaves_def fold_layers.simps)

lemma root_congruent: "profile_leaves xs = profile_leaves ys \<Longrightarrow> root xs = root ys"
  unfolding root_eq_tree by (metis length_profile_leaves)

lemma root_binding:
  assumes w: "profile_width (length xs) = profile_width (length ys)" and eq: "root xs = root ys"
  shows "profile_leaves xs = profile_leaves ys
    \<or> collide_among (case_prod h) (profile_queries h xs) (profile_queries h ys)"
  unfolding profile_queries_def w
proof (rule tree_root_binding)
  show "length (profile_leaves xs) = 2 ^ tree_depth (profile_width (length ys))"
    by (simp add: length_profile_leaves w flip: profile_width_pow2)
  show "length (profile_leaves ys) = 2 ^ tree_depth (profile_width (length ys))"
    by (simp add: length_profile_leaves flip: profile_width_pow2)
  show "tree_root h (tree_depth (profile_width (length ys))) (profile_leaves xs)
      = tree_root h (tree_depth (profile_width (length ys))) (profile_leaves ys)"
    using eq unfolding root_eq_tree w by simp
qed

text \<open>Sequences of one length: the leaves themselves are bound.\<close>

lemma root_binding_same_length:
  assumes len: "length xs = length ys" and eq: "root xs = root ys"
  shows "xs = ys \<or> collide_among (case_prod h) (profile_queries h xs) (profile_queries h ys)"
proof (cases "xs = []")
  case True
  then show ?thesis using len by simp
next
  case False
  moreover have "ys \<noteq> []" using False len by auto
  ultimately show ?thesis
    using root_binding [OF _ eq] len by (auto simp: profile_leaves_padding)
qed

end

section \<open>Properties\<close>

text \<open>
  C40: the padding loop on 64-bit words returns for every list of at most \<open>2 ^ 63\<close>
  leaves, without overflow, and its result is the least power of two that holds them.
\<close>

theorem padding_loop_returns:
  assumes "unat len \<le> 2 ^ 63"
  shows "\<exists>r k. pad_size_word 1 len = Some r \<and> unat r = 2 ^ k \<and> unat len \<le> 2 ^ k
    \<and> (unat r = 1 \<or> unat r < 2 * unat len)"
proof -
  obtain r where r: "pad_size_word 1 len = Some r" "unat r = pad_size 1 (unat len)"
    using pad_size_word_returns [of 1 0 len] assms by auto
  obtain k where "pad_size 1 (unat len) = 2 ^ k" using pad_size_pow2 [of 1 0] by auto
  moreover have "unat len \<le> pad_size 1 (unat len)" by (rule pad_size_ge) simp
  moreover have "pad_size 1 (unat len) = 1 \<or> pad_size 1 (unat len) < 2 * unat len"
    using pad_size_less [of 1 "unat len"] by (cases "1 < unat len") auto
  ultimately show ?thesis using r by auto
qed

theorem padding_loop_returns_witness:
  "\<exists>r k. pad_size_word 1 5 = Some r \<and> unat r = 2 ^ k \<and> (5::nat) \<le> 2 ^ k
    \<and> (unat r = 1 \<or> unat r < 10)"
  using padding_loop_returns [of 5] by simp

end
