(* ===== verification/Storage_Root.thy ===== *)
theory Storage_Root
  imports Hydration Merkle Sample
begin

text \<open>
  \<open>runtime/builder/src/lifecycle/storage_root.rs\<close>: the storage root of an account, a
  Merkle root over the persistent slots the transaction wrote, and the pass that puts
  it into the certificates.  The error types of the deriver trait
  (\<open>hydration.rs\<close>) are here; their payloads, boxed errors of other crates, are
  strings.
\<close>

section \<open>The deriver\<close>

datatype backend_error = Database string | TrieCorruption string | Io string

datatype storage_derivation_error = MissingBaseState | InvalidMutation | CorruptSnapshot

datatype derivation_error = Domain_Error storage_derivation_error | Infrastructure backend_error

type_synonym slot_map = "(b32, b32) btree_map"

definition slot_leaf :: "hash_fn \<Rightarrow> b32 \<times> b32 \<Rightarrow> b32" where
  "slot_leaf blake3 entry =
     (case entry of (slot, v) \<Rightarrow> to_bytes (derive_commitment blake3 TrieLeaf (as_slice slot @ as_slice v)))"

definition branch_node :: "hash_fn \<Rightarrow> b32 \<Rightarrow> b32 \<Rightarrow> b32" where
  "branch_node blake3 l r = to_bytes (derive_commitment blake3 TrieBranch (as_slice l @ as_slice r))"

definition derive_leaves :: "hash_fn \<Rightarrow> b32 list \<Rightarrow> (b32, derivation_error) result" where
  "derive_leaves blake3 leaves =
     (let leaves = (if leaves = [] then [arr_fill 0] else leaves)
      in fold_layers (branch_node blake3) (pad_leaves leaves))"

text \<open>\<open>SimpleStorageRootDeriver::derive\<close>.\<close>

definition derive :: "hash_fn \<Rightarrow> slot_map \<Rightarrow> (b32, derivation_error) result" where
  "derive blake3 terminal_slots = derive_leaves blake3 (map (slot_leaf blake3) (entries terminal_slots))"

interpretation trie: merkle_profile "branch_node blake3" "derive_leaves blake3" for blake3
  by unfold_locales (simp_all add: derive_leaves_def)

section \<open>Resolving the roots\<close>

text \<open>The slots by address: persistent storage only.\<close>

definition collect_slot ::
    "(address, slot_map) btree_map \<Rightarrow> canonical_key \<times> reduced_variant \<Rightarrow> (address, slot_map) btree_map" where
  "collect_slot slots_by_address entry =
     (case entry of
        (StorageKey a slot, StorageRt t) \<Rightarrow> bt_entry a bt_new (bt_insert slot (terminal t)) slots_by_address
      | _ \<Rightarrow> slots_by_address)"

definition slots_by_address :: "(canonical_key, reduced_variant) btree_map \<Rightarrow> (address, slot_map) btree_map" where
  "slots_by_address table = foldl collect_slot bt_new (entries table)"

text \<open>
  The certificates are updated in place and the loop stops at the first error, so the
  result is the map as it then stands, with the outcome.
\<close>

fun resolve_loop ::
    "(slot_map \<Rightarrow> (b32, derivation_error) result) \<Rightarrow> (address, slot_map) btree_map
     \<Rightarrow> (address, certificate) btree_map \<Rightarrow> (address \<times> certificate) list
     \<Rightarrow> (address, certificate) btree_map \<times> (unit, derivation_error) result" where
  "resolve_loop deriver slots certs [] = (certs, Ok ())"
| "resolve_loop deriver slots certs ((a, cert) # rest) =
     (case deriver (case bt_get slots a of Some s \<Rightarrow> s | None \<Rightarrow> bt_new) of
        Ok root \<Rightarrow>
          resolve_loop deriver slots (bt_insert a (cert\<lparr>ct_storage_root := Verified root\<rparr>) certs) rest
      | Err e \<Rightarrow> (certs, Err e)
      | Panic \<Rightarrow> (certs, Panic))"

definition resolve_storage_roots ::
    "(slot_map \<Rightarrow> (b32, derivation_error) result) \<Rightarrow> (address, certificate) btree_map
     \<Rightarrow> (canonical_key, reduced_variant) btree_map
     \<Rightarrow> (address, certificate) btree_map \<times> (unit, derivation_error) result" where
  "resolve_storage_roots deriver certs table =
     resolve_loop deriver (slots_by_address table) certs (entries certs)"

section \<open>The slots of an address\<close>

definition slot_after :: "(canonical_key, reduced_variant) btree_map \<Rightarrow> address \<Rightarrow> b32 \<Rightarrow> b32 option" where
  "slot_after table a slot =
     (case bt_get table (StorageKey a slot) of Some (StorageRt t) \<Rightarrow> Some (terminal t) | _ \<Rightarrow> None)"

abbreviation slots_of :: "(address, slot_map) btree_map \<Rightarrow> address \<Rightarrow> slot_map" where
  "slots_of m a \<equiv> (case bt_get m a of Some s \<Rightarrow> s | None \<Rightarrow> bt_new)"

lemma collect_slot_get:
  "bt_get (slots_of (collect_slot m (k, v)) a) slot =
     (case (k, v) of
        (StorageKey b s, StorageRt t) \<Rightarrow> if b = a \<and> s = slot then Some (terminal t) else bt_get (slots_of m a) slot
      | _ \<Rightarrow> bt_get (slots_of m a) slot)"
  by (cases k; cases v) (auto simp: collect_slot_def)

lemma slots_by_address_get: "bt_get (slots_of (slots_by_address table) a) slot = slot_after table a slot"
proof -
  have "distinct (map fst es) \<Longrightarrow>
      bt_get (slots_of (foldl collect_slot m es) a) slot =
        (case map_of es (StorageKey a slot) of
           Some (StorageRt t) \<Rightarrow> Some (terminal t) | _ \<Rightarrow> bt_get (slots_of m a) slot)" for es m
  proof (induction es arbitrary: m)
    case (Cons kv es)
    obtain k v where kv: "kv = (k, v)" by force
    have none: "map_of es k = None" using Cons.prems by (simp add: kv map_of_eq_None_iff)
    have IH: "bt_get (slots_of (foldl collect_slot (collect_slot m (k, v)) es) a) slot =
        (case map_of es (StorageKey a slot) of
           Some (StorageRt t) \<Rightarrow> Some (terminal t)
         | _ \<Rightarrow> bt_get (slots_of (collect_slot m (k, v)) a) slot)"
      using Cons by simp
    show ?case
      unfolding kv foldl_Cons IH collect_slot_get using none
      by (cases k; cases v) (auto cong: option.case_cong reduced_variant.case_cong)
  qed simp
  from this [OF bt.iter_distinct, of bt_new table] show ?thesis
    by (simp add: slots_by_address_def slot_after_def bt_get_def cong: option.case_cong reduced_variant.case_cong)
qed

section \<open>Derivers that always answer\<close>

locale total_deriver =
  fixes deriver :: "slot_map \<Rightarrow> (b32, derivation_error) result"
  assumes total: "\<exists>root. deriver slots = Ok root"
begin

lemma resolve_loop_total:
  assumes "\<And>a c. (a, c) \<in> set es \<Longrightarrow> bt_get certs a = Some c" and "distinct (map fst es)"
  shows "\<exists>certs'. resolve_loop deriver slots certs es = (certs', Ok ())
    \<and> (\<forall>a. bt_get certs' a =
        (if a \<in> fst ` set es
         then map_option (\<lambda>c. c\<lparr>ct_storage_root := Verified (case deriver (slots_of slots a) of Ok r \<Rightarrow> r)\<rparr>)
           (bt_get certs a)
         else bt_get certs a))"
  using assms
proof (induction es arbitrary: certs)
  case (Cons ac es)
  obtain a c where ac: "ac = (a, c)" by force
  obtain root where root: "deriver (slots_of slots a) = Ok root" using total by blast
  let ?certs = "bt_insert a (c\<lparr>ct_storage_root := Verified root\<rparr>) certs"
  have "a \<notin> fst ` set es" "distinct (map fst es)" using Cons.prems(2) by (auto simp: ac)
  then have "\<exists>certs'. resolve_loop deriver slots ?certs es = (certs', Ok ())
    \<and> (\<forall>a. bt_get certs' a =
        (if a \<in> fst ` set es
         then map_option (\<lambda>c. c\<lparr>ct_storage_root := Verified (case deriver (slots_of slots a) of Ok r \<Rightarrow> r)\<rparr>)
           (bt_get ?certs a)
         else bt_get ?certs a))"
    using Cons.prems(1) by (intro Cons.IH) (force simp: ac)+
  moreover have "bt_get certs a = Some c" using Cons.prems(1) by (simp add: ac)
  ultimately show ?case
    using \<open>a \<notin> fst ` set es\<close> root by (auto simp: ac)
qed simp

lemma resolve_total:
  "\<exists>certs'. resolve_storage_roots deriver certs table = (certs', Ok ())
    \<and> (\<forall>a. bt_get certs' a =
        map_option (\<lambda>c. c\<lparr>ct_storage_root := Verified (case deriver (slots_of (slots_by_address table) a) of Ok r \<Rightarrow> r)\<rparr>)
          (bt_get certs a))"
proof -
  have "bt_get certs a = None" if "a \<notin> fst ` set (entries certs)" for a
    using that bt.in_keys_iff by metis
  then show ?thesis
    using resolve_loop_total [of "entries certs" certs "slots_by_address table"] bt.iter_distinct [of certs]
    unfolding resolve_storage_roots_def by (force simp: bt.in_iter_iff)
qed

end

interpretation simple: total_deriver "derive blake3" for blake3
  by unfold_locales (simp add: derive_def trie.root_total)

lemma resolved_roots:
  "\<exists>certs'. resolve_storage_roots (derive blake3) certs table = (certs', Ok ())
    \<and> (\<forall>a. \<exists>slots root. (\<forall>s. bt_get slots s = slot_after table a s) \<and> derive blake3 slots = Ok root
        \<and> bt_get certs' a = map_option (\<lambda>c. c\<lparr>ct_storage_root := Verified root\<rparr>) (bt_get certs a))"
proof -
  obtain certs' where *: "resolve_storage_roots (derive blake3) certs table = (certs', Ok ())"
    "\<forall>a. bt_get certs' a = map_option (\<lambda>c. c\<lparr>ct_storage_root := Verified
        (case derive blake3 (slots_of (slots_by_address table) a) of Ok r \<Rightarrow> r)\<rparr>) (bt_get certs a)"
    using simple.resolve_total by blast
  have "\<exists>slots root. (\<forall>s. bt_get slots s = slot_after table a s) \<and> derive blake3 slots = Ok root
      \<and> bt_get certs' a = map_option (\<lambda>c. c\<lparr>ct_storage_root := Verified root\<rparr>) (bt_get certs a)" for a
  proof -
    obtain root where "derive blake3 (slots_of (slots_by_address table) a) = Ok root"
      using simple.total by blast
    then show ?thesis
      using *(2) by (intro exI [of _ "slots_of (slots_by_address table) a"] exI [of _ root])
        (simp add: slots_by_address_get)
  qed
  with *(1) show ?thesis by blast
qed

section \<open>Binding\<close>

text \<open>The strings hashed for a root: one per slot and one per branch.\<close>

definition leaf_input :: "b32 \<times> b32 \<Rightarrow> u8 list" where
  "leaf_input e = as_bytes TrieLeaf @ as_slice (fst e) @ as_slice (snd e)"

definition branch_input :: "b32 \<times> b32 \<Rightarrow> u8 list" where
  "branch_input p = as_bytes TrieBranch @ as_slice (fst p) @ as_slice (snd p)"

definition storage_inputs :: "hash_fn \<Rightarrow> slot_map \<Rightarrow> u8 list list" where
  "storage_inputs blake3 slots =
     map leaf_input (entries slots)
     @ map branch_input (profile_queries (branch_node blake3) (map (slot_leaf blake3) (entries slots)))"

lemma to_bytes_eq_iff: "to_bytes x = to_bytes y \<longleftrightarrow> x = y"
  by (cases x; cases y) simp

lemma branch_node_collision:
  "collision (case_prod (branch_node blake3)) p q \<Longrightarrow> collision blake3 (branch_input p) (branch_input q)"
  by (cases p; cases q)
    (auto simp: collision_def branch_node_def branch_input_def derive_commitment_eq_iff to_bytes_eq_iff)

lemma slot_leaf_eq:
  "slot_leaf blake3 e = slot_leaf blake3 f \<Longrightarrow> e = f \<or> collision blake3 (leaf_input e) (leaf_input f)"
  by (cases e; cases f)
    (auto simp: slot_leaf_def leaf_input_def derive_commitment_eq_iff to_bytes_eq_iff append_eq_append_conv)

lemma map_slot_leaf_inject:
  "map (slot_leaf blake3) es = map (slot_leaf blake3) fs \<Longrightarrow> es = fs \<or>
     collide_among blake3 (map leaf_input es) (map leaf_input fs)"
proof (induction es arbitrary: fs)
  case (Cons e es)
  then obtain f fs' where fs: "fs = f # fs'" "slot_leaf blake3 e = slot_leaf blake3 f"
    "map (slot_leaf blake3) es = map (slot_leaf blake3) fs'" by (cases fs) auto
  from slot_leaf_eq [OF fs(2)] Cons.IH [OF fs(3)] show ?case
    unfolding fs(1) by (auto simp: collide_among_def)
qed simp

lemma storage_root_binding:
  assumes len: "length (entries s) = length (entries t)" and eq: "derive blake3 s = derive blake3 t"
  shows "s = t \<or> collide_among blake3 (storage_inputs blake3 s) (storage_inputs blake3 t)"
proof -
  let ?ls = "map (slot_leaf blake3) (entries s)" and ?lt = "map (slot_leaf blake3) (entries t)"
  have "?ls = ?lt \<or> collide_among (case_prod (branch_node blake3))
      (profile_queries (branch_node blake3) ?ls) (profile_queries (branch_node blake3) ?lt)"
    using trie.root_binding_same_length [of ?ls ?lt blake3] len eq by (simp add: derive_def)
  then consider "entries s = entries t"
    | "collide_among blake3 (map leaf_input (entries s)) (map leaf_input (entries t))"
    | "collide_among (case_prod (branch_node blake3))
        (profile_queries (branch_node blake3) ?ls) (profile_queries (branch_node blake3) ?lt)"
    using map_slot_leaf_inject by blast
  then show ?thesis
  proof cases
    case 1
    then show ?thesis by (simp add: entries_inject)
  next
    case 2
    then have "collide_among blake3 (storage_inputs blake3 s) (storage_inputs blake3 t)"
      by (rule collide_among_mono) (auto simp: storage_inputs_def)
    then show ?thesis ..
  next
    case 3
    then obtain p q where "p \<in> set (profile_queries (branch_node blake3) ?ls)"
      "q \<in> set (profile_queries (branch_node blake3) ?lt)" "collision blake3 (branch_input p) (branch_input q)"
      using branch_node_collision by (auto simp: collide_among_def)
    then have "collide_among blake3 (storage_inputs blake3 s) (storage_inputs blake3 t)"
      unfolding collide_among_def
      by (intro bexI [of _ "branch_input p"] bexI [of _ "branch_input q"]) (auto simp: storage_inputs_def)
    then show ?thesis ..
  qed
qed

text \<open>
  Maps of different sizes: the trees may have different depths, and the shorter one is padded
  with zero leaves.  Then a leaf meets a branch, whose strings differ in their domain, or a
  zero leaf meets a hash.
\<close>

lemma node_hashes:
  "slot_leaf blake3 e = blake3 (leaf_input e)" "branch_node blake3 l r = blake3 (branch_input (l, r))"
  by (simp_all add: slot_leaf_def branch_node_def leaf_input_def branch_input_def derive_commitment_def split: prod.split)

lemma leaf_not_branch: "leaf_input e \<noteq> branch_input q"
  unfolding leaf_input_def branch_input_def as_bytes_prefix_free by simp

lemma uneven_roots:
  "length xs = 2 ^ k \<Longrightarrow> length ys = 2 ^ (k + Suc d) \<Longrightarrow> set xs \<subseteq> insert (arr_fill 0) (slot_leaf blake3 ` E) \<Longrightarrow>
    tree_root (branch_node blake3) k xs = tree_root (branch_node blake3) (k + Suc d) ys \<Longrightarrow>
    (\<exists>e \<in> E. \<exists>q \<in> set (tree_queries (branch_node blake3) (k + Suc d) ys). collision blake3 (leaf_input e) (branch_input q))
    \<or> collide_among (case_prod (branch_node blake3)) (tree_queries (branch_node blake3) k xs) (tree_queries (branch_node blake3) (k + Suc d) ys)
    \<or> (\<exists>q \<in> set (tree_queries (branch_node blake3) (k + Suc d) ys). blake3 (branch_input q) = arr_fill 0)"
proof (induction k arbitrary: xs ys)
  case 0
  then obtain x where x: "xs = [x]" by (auto simp: length_Suc_conv)
  let ?q = "(tree_root (branch_node blake3) d (take (2 ^ d) ys), tree_root (branch_node blake3) d (drop (2 ^ d) ys))"
  have "x = case_prod (branch_node blake3) ?q" using 0 x by simp
  then have q: "?q \<in> set (tree_queries (branch_node blake3) (0 + Suc d) ys)" "blake3 (branch_input ?q) = x"
    by (simp_all only: prod.case node_hashes(2) [symmetric] tree_queries.simps add_0 list.set_intros)
  consider "x = arr_fill 0" | e where "e \<in> E" "x = slot_leaf blake3 e" using 0 x by auto
  then show ?case
  proof cases
    case 1
    with q show ?thesis by blast
  next
    case 2
    then have "collision blake3 (leaf_input e) (branch_input ?q)"
      using q(2) leaf_not_branch by (simp add: collision_def node_hashes)
    with q(1) 2(1) show ?thesis by blast
  qed
next
  case (Suc k)
  let ?h = "branch_node blake3"
  obtain l r where lr: "xs = l @ r" "length l = 2 ^ k" "take (2 ^ k) xs = l" "drop (2 ^ k) xs = r"
    using length_2_pow_split [OF Suc.prems(1)] by metis
  have len: "length ys = 2 ^ Suc (k + Suc d)" using Suc.prems(2) by simp
  obtain l' r' where lr': "ys = l' @ r'" "length l' = 2 ^ (k + Suc d)"
    "take (2 ^ (k + Suc d)) ys = l'" "drop (2 ^ (k + Suc d)) ys = r'"
    using length_2_pow_split [OF len] by metis
  have root: "tree_root ?h (Suc k + Suc d) ys = ?h (tree_root ?h (k + Suc d) l') (tree_root ?h (k + Suc d) r')"
    and below: "set (tree_queries ?h (k + Suc d) l') \<subseteq> set (tree_queries ?h (Suc k + Suc d) ys)"
    and top: "(tree_root ?h (k + Suc d) l', tree_root ?h (k + Suc d) r') \<in> set (tree_queries ?h (Suc k + Suc d) ys)"
    by (simp only: add_Suc tree_root.simps lr'(3,4),
        simp only: add_Suc tree_queries.simps lr'(3,4) list.set set_append, blast,
        simp only: add_Suc tree_queries.simps lr'(3,4) list.set, blast)
  show ?case
  proof (cases "tree_root ?h k l = tree_root ?h (k + Suc d) l'")
    case True
    have "set l \<subseteq> insert (arr_fill 0) (slot_leaf blake3 ` E)" using Suc.prems(3) lr(1) by auto
    from Suc.IH [OF lr(2) lr'(2) this True] show ?thesis
      using below collide_among_mono [of "case_prod ?h" "tree_queries ?h k l" _ "tree_queries ?h (Suc k) xs"] lr(3)
      by (elim disjE) (blast, fastforce, blast)
  next
    case False
    have "(tree_root ?h k l, tree_root ?h k r) \<in> set (tree_queries ?h (Suc k) xs)" using lr by simp
    moreover have "collision (case_prod ?h) (tree_root ?h k l, tree_root ?h k r)
        (tree_root ?h (k + Suc d) l', tree_root ?h (k + Suc d) r')"
      using Suc.prems(4) False lr unfolding root by (simp add: collision_def)
    ultimately show ?thesis using top unfolding collide_among_def by blast
  qed
qed

definition zero_hashed :: "hash_fn \<Rightarrow> u8 list list \<Rightarrow> bool" where
  "zero_hashed blake3 inputs \<longleftrightarrow> list_ex (\<lambda>x. blake3 x = arr_fill 0) inputs"

lemma profile_leaves_set: "set (profile_leaves xs) \<subseteq> insert (arr_fill 0) (set xs)"
  by (auto simp: profile_leaves_def pad_leaves_def split: if_splits)

lemma profile_leaves_filter:
  "arr_fill 0 \<notin> set xs \<Longrightarrow> filter (\<lambda>x. x \<noteq> arr_fill 0) (profile_leaves xs) = xs"
  by (auto simp: profile_leaves_def pad_leaves_def filter_id_conv)

lemma branch_inputs_collide:
  assumes "collide_among (case_prod (branch_node blake3))
      (profile_queries (branch_node blake3) (map (slot_leaf blake3) (entries s)))
      (profile_queries (branch_node blake3) (map (slot_leaf blake3) (entries t)))"
  shows "collide_among blake3 (storage_inputs blake3 s) (storage_inputs blake3 t)"
proof -
  from assms obtain p q where "p \<in> set (profile_queries (branch_node blake3) (map (slot_leaf blake3) (entries s)))"
    "q \<in> set (profile_queries (branch_node blake3) (map (slot_leaf blake3) (entries t)))"
    "collision blake3 (branch_input p) (branch_input q)"
    using branch_node_collision by (auto simp: collide_among_def)
  then show ?thesis
    unfolding collide_among_def
    by (intro bexI [of _ "branch_input p"] bexI [of _ "branch_input q"]) (auto simp: storage_inputs_def)
qed

lemma collide_among_sym: "collide_among h ps qs \<longleftrightarrow> collide_among h qs ps"
  unfolding collide_among_def collision_def by metis

lemma uneven_maps:
  assumes eq: "derive blake3 s = derive blake3 t"
    and less: "profile_width (length (entries s)) < profile_width (length (entries t))"
  shows "collide_among blake3 (storage_inputs blake3 s) (storage_inputs blake3 t) \<or> zero_hashed blake3 (storage_inputs blake3 t)"
proof -
  let ?h = "branch_node blake3"
  let ?ls = "map (slot_leaf blake3) (entries s)" and ?lt = "map (slot_leaf blake3) (entries t)"
  let ?j = "tree_depth (profile_width (length ?ls))" and ?k = "tree_depth (profile_width (length ?lt))"
  have width: "length (profile_leaves ?ls) = 2 ^ ?j" "length (profile_leaves ?lt) = 2 ^ ?k"
    unfolding length_profile_leaves by (simp_all flip: profile_width_pow2)
  then have "(2::nat) ^ ?j < 2 ^ ?k" using less by (simp add: length_profile_leaves)
  then have "?j < ?k" by simp
  then obtain d where d: "?k = ?j + Suc d" using less_iff_Suc_add by auto
  have root: "tree_root ?h ?j (profile_leaves ?ls) = tree_root ?h ?k (profile_leaves ?lt)"
    using eq unfolding derive_def trie.root_eq_tree by simp
  have leaves: "set (profile_leaves ?ls) \<subseteq> insert (arr_fill 0) (slot_leaf blake3 ` set (entries s))"
    using profile_leaves_set [of ?ls] by simp
  have queries: "tree_queries ?h ?j (profile_leaves ?ls) = profile_queries ?h ?ls"
    "tree_queries ?h ?k (profile_leaves ?lt) = profile_queries ?h ?lt"
    by (simp_all add: profile_queries_def)
  consider e q where "e \<in> set (entries s)" "q \<in> set (profile_queries ?h ?lt)" "collision blake3 (leaf_input e) (branch_input q)"
    | "collide_among (case_prod ?h) (profile_queries ?h ?ls) (profile_queries ?h ?lt)"
    | q where "q \<in> set (profile_queries ?h ?lt)" "blake3 (branch_input q) = arr_fill 0"
    using uneven_roots [OF width(1) width(2) [unfolded d] leaves root [unfolded d]]
    unfolding d [symmetric] queries by blast
  then show ?thesis
  proof cases
    case 1
    then have "collide_among blake3 (storage_inputs blake3 s) (storage_inputs blake3 t)"
      unfolding collide_among_def
      by (intro bexI [of _ "leaf_input e"] bexI [of _ "branch_input q"]) (auto simp: storage_inputs_def)
    then show ?thesis ..
  next
    case 2
    then show ?thesis using branch_inputs_collide by blast
  next
    case 3
    then have "zero_hashed blake3 (storage_inputs blake3 t)" by (auto simp: zero_hashed_def list_ex_iff storage_inputs_def)
    then show ?thesis ..
  qed
qed

lemma storage_root_binding_any:
  assumes eq: "derive blake3 s = derive blake3 t"
  shows "s = t \<or> collide_among blake3 (storage_inputs blake3 s) (storage_inputs blake3 t)
    \<or> zero_hashed blake3 (storage_inputs blake3 s) \<or> zero_hashed blake3 (storage_inputs blake3 t)"
proof -
  let ?ls = "map (slot_leaf blake3) (entries s)" and ?lt = "map (slot_leaf blake3) (entries t)"
  consider "profile_width (length (entries s)) = profile_width (length (entries t))"
    | "profile_width (length (entries s)) < profile_width (length (entries t))"
    | "profile_width (length (entries t)) < profile_width (length (entries s))" by linarith
  then show ?thesis
  proof cases
    case 1
    then consider "profile_leaves ?ls = profile_leaves ?lt"
      | "collide_among blake3 (storage_inputs blake3 s) (storage_inputs blake3 t)"
      using trie.root_binding [of ?ls ?lt blake3] eq branch_inputs_collide by (auto simp: derive_def)
    then show ?thesis
    proof cases
      case 1
      have "zero_hashed blake3 (storage_inputs blake3 m)" if "arr_fill 0 \<in> set (map (slot_leaf blake3) (entries m))" for m
        using that by (auto simp: zero_hashed_def list_ex_iff storage_inputs_def node_hashes)
      then consider "?ls = ?lt" | "zero_hashed blake3 (storage_inputs blake3 s)" | "zero_hashed blake3 (storage_inputs blake3 t)"
        using profile_leaves_filter 1 by metis
      then show ?thesis
      proof cases
        case 1
        then have "derive blake3 s = derive blake3 t" "length (entries s) = length (entries t)"
          using eq map_eq_imp_length_eq by blast+
        then show ?thesis using storage_root_binding by blast
      qed simp_all
    qed simp
  next
    case 2
    then show ?thesis using uneven_maps [OF eq] by blast
  next
    case 3
    then show ?thesis using uneven_maps [OF eq [symmetric]] collide_among_sym by metis
  qed
qed

section \<open>Properties\<close>

text \<open>
  C24: resolving storage roots succeeds and changes nothing but the root: every certificate
  gets the root of exactly the persistent slots its account was left with, whatever the
  transient slots, and no certificate is added or removed.
\<close>

theorem storage_roots_resolved:
  "\<exists>certs'. resolve_storage_roots (derive blake3) certs table = (certs', Ok ())
    \<and> (\<forall>a. \<exists>slots root. (\<forall>s. bt_get slots s = slot_after table a s) \<and> derive blake3 slots = Ok root
        \<and> bt_get certs' a = map_option (\<lambda>c. c\<lparr>ct_storage_root := Verified root\<rparr>) (bt_get certs a))"
  by (rule resolved_roots)

text \<open>
  C25: the storage root binds the slots: two slot maps of one size with one root are equal,
  or two of the leaf and branch strings hashed for them collide under BLAKE3.
\<close>

theorem storage_root_binds_slots:
  assumes "length (entries s) = length (entries t)" and "derive blake3 s = derive blake3 t"
  shows "s = t \<or> collide_among blake3 (storage_inputs blake3 s) (storage_inputs blake3 t)"
  using assms by (rule storage_root_binding)

theorem storage_root_binds_slots_witness:
  "collide_among zero_hash (storage_inputs zero_hash (bt_insert (arr_fill 1) (arr_fill 2) bt_new))
     (storage_inputs zero_hash (bt_insert (arr_fill 1) (arr_fill 3) bt_new))"
proof -
  let ?s = "\<lambda>v. bt_insert (arr_fill 1) (arr_fill v) bt_new :: slot_map"
  have leaf: "slot_leaf zero_hash e = arr_fill 0" for e
    by (cases e) (simp add: slot_leaf_def derive_commitment_def zero_hash_def)
  have "derive zero_hash (?s 2) = derive zero_hash (?s 3)" by (simp add: derive_def leaf)
  moreover have "bt_get (?s 2) (arr_fill 1) \<noteq> bt_get (?s 3) (arr_fill 1)" by simp
  then have "?s 2 \<noteq> ?s 3" by metis
  ultimately show ?thesis
    using storage_root_binds_slots [of "?s 2" "?s 3" zero_hash] by simp
qed

end
