(* ===== verification/Verify.thy ===== *)
theory Verify
  imports Storage_Root
begin

text \<open>
  \<open>runtime/verify/src/lib.rs\<close>: Gate 2.  A batch of payload traces is replayed against an
  in-memory account state, and the certificates that come with it are compared with the
  outcome.  The replay is specified on the trace alone: the value a field ends with is
  the last one written, and a trace is consistent when each previous value it states
  agrees with the writes before it.
\<close>

section \<open>The verifier as written\<close>

record execution_batch =
  account_certificates :: "certificate list"
  execution_traces :: "cse_payload list"

definition verify_envelope_integrity :: "hash_fn \<Rightarrow> u8 list \<Rightarrow> digest \<Rightarrow> bool" where
  "verify_envelope_integrity blake3 raw_ssz_bytes expected_commitment \<longleftrightarrow>
     derive_commitment blake3 Gate2Replay raw_ssz_bytes = expected_commitment"

datatype field_mismatch =
    Nonce_Mismatch u64 u64 \<comment> \<open>expected, found\<close>
  | Balance_Mismatch b32 b32
  | Code_Hash_Mismatch b32 b32
  | Storage_Root_Mismatch b32 storage_root_state

datatype replay_error =
    TraceInconsistency address string
  | MissingCertificate address
  | UntouchedCertificate address
  | CertificateMismatch address "field_mismatch list"
  | UnresolvedStorageRoot address

record account_state =
  ac_nonce :: u64
  ac_balance :: b32
  ac_code_hash :: b32
  ac_storage :: slot_map
  ac_touched :: bool

definition default_account :: account_state where
  "default_account = \<lparr>ac_nonce = 0, ac_balance = arr_fill 0, ac_code_hash = arr_fill 0,
     ac_storage = bt_new, ac_touched = False\<rparr>"

text \<open>The texts of the errors; \<open>{:?}\<close> prints a byte array as a list of decimals.\<close>

definition balance_detail :: string where
  "balance_detail = ''BalanceChanged.previous_balance did not match prior state''"

definition nonce_detail :: string where
  "nonce_detail = ''NonceUpdated.previous_nonce did not match prior state''"

definition code_detail :: string where
  "code_detail = ''CodeUpdated.previous_code_hash did not match prior state''"

definition slot_detail :: "b32 \<Rightarrow> string" where
  "slot_detail slot = ''StorageSlotUpdated.previous_value mismatch at slot '' @ debug_arr slot"

type_synonym replay_state = "(address, account_state) btree_map \<times> replay_error list"

text \<open>\<open>entry(a).or_default()\<close>, and the change of the entry it refers to.\<close>

definition account_of :: "(address, account_state) btree_map \<Rightarrow> address \<Rightarrow> account_state" where
  "account_of state a = (case bt_get state a of Some acct \<Rightarrow> acct | None \<Rightarrow> default_account)"

text \<open>The error of one arm: only an account touched before is checked.\<close>

definition check_previous :: "account_state \<Rightarrow> bool \<Rightarrow> address \<Rightarrow> string \<Rightarrow> replay_error list" where
  "check_previous acct differs a detail =
     (if ac_touched acct \<and> differs then [TraceInconsistency a detail] else [])"

fun replay_step :: "replay_state \<Rightarrow> cse_payload \<Rightarrow> replay_state" where
  "replay_step (state, errs) (BalanceChanged p) =
     (let acct = account_of state (bc_address p)
      in (bt_insert (bc_address p) (acct\<lparr>ac_balance := bc_current_balance p, ac_touched := True\<rparr>) state,
          errs @ check_previous acct (ac_balance acct \<noteq> bc_previous_balance p) (bc_address p) balance_detail))"
| "replay_step (state, errs) (NonceUpdated p) =
     (let acct = account_of state (nu_address p)
      in (bt_insert (nu_address p) (acct\<lparr>ac_nonce := nu_current_nonce p, ac_touched := True\<rparr>) state,
          errs @ check_previous acct (ac_nonce acct \<noteq> nu_previous_nonce p) (nu_address p) nonce_detail))"
| "replay_step (state, errs) (CodeUpdated p) =
     (let acct = account_of state (cu_address p)
      in (bt_insert (cu_address p) (acct\<lparr>ac_code_hash := cu_current_code_hash p, ac_touched := True\<rparr>) state,
          errs @ check_previous acct (ac_code_hash acct \<noteq> cu_previous_code_hash p) (cu_address p) code_detail))"
| "replay_step (state, errs) (StorageSlotUpdated p) =
     (let acct = account_of state (su_address p);
          current = (case bt_get (ac_storage acct) (su_slot p) of Some v \<Rightarrow> v | None \<Rightarrow> arr_fill 0)
      in (bt_insert (su_address p)
            (acct\<lparr>ac_storage := bt_insert (su_slot p) (su_current_value p) (ac_storage acct), ac_touched := True\<rparr>) state,
          errs @ check_previous acct (current \<noteq> su_previous_value p) (su_address p) (slot_detail (su_slot p))))"
| "replay_step (state, errs) (ContractCreated p) =
     (bt_insert (cc_address p) ((account_of state (cc_address p))\<lparr>ac_touched := True\<rparr>) state, errs)"
| "replay_step (state, errs) (ContractDestroyed p) =
     (bt_insert (cd_address p) ((account_of state (cd_address p))\<lparr>ac_touched := True\<rparr>) state, errs)"
| "replay_step s (TransientStorageUpdated p) = s"
| "replay_step s BeginTransaction = s"
| "replay_step s EndTransaction = s"
| "replay_step s (LogEmitted p) = s"
| "replay_step s (GasRefundChanged p) = s"
| "replay_step s (AccessListTouched p) = s"

definition touched_addresses :: "(address, account_state) btree_map \<Rightarrow> address list" where
  "touched_addresses state = map fst (filter (\<lambda>(_, s). ac_touched s) (entries state))"

text \<open>A \<open>BTreeSet\<close> of addresses, as a map to unit; \<open>difference\<close> iterates in order.\<close>

definition address_set :: "address list \<Rightarrow> address list" where
  "address_set as = bt_keys (bt_of_list (map (\<lambda>a. (a, ())) as))"

definition set_difference :: "address list \<Rightarrow> address list \<Rightarrow> address list" where
  "set_difference xs ys = filter (\<lambda>a. a \<notin> set ys) (address_set xs)"

definition field_mismatches :: "account_state \<Rightarrow> certificate \<Rightarrow> field_mismatch list" where
  "field_mismatches derived cert =
     (if ac_nonce derived \<noteq> ct_nonce cert then [Nonce_Mismatch (ac_nonce derived) (ct_nonce cert)] else [])
     @ (if ac_balance derived \<noteq> ct_balance cert then [Balance_Mismatch (ac_balance derived) (ct_balance cert)] else [])
     @ (if ac_code_hash derived \<noteq> ct_code_hash cert
        then [Code_Hash_Mismatch (ac_code_hash derived) (ct_code_hash cert)] else [])"

text \<open>One certificate; \<open>expect\<close> on the deriver's result panics on an error.\<close>

definition check_certificate ::
    "hash_fn \<Rightarrow> (address, account_state) btree_map \<Rightarrow> replay_error list \<Rightarrow> certificate
     \<Rightarrow> (replay_error list, replay_error list) result" where
  "check_certificate blake3 state errs cert =
     (case bt_get state (ct_address cert) of
        None \<Rightarrow> Ok errs
      | Some derived \<Rightarrow>
          bind_res
            (case ct_storage_root cert of
               AwaitingDerivation \<Rightarrow>
                 Ok (errs @ [UnresolvedStorageRoot (ct_address cert)], field_mismatches derived cert)
             | Verified claimed_root \<Rightarrow>
                 (case derive blake3 (ac_storage derived) of
                    Ok expected_root \<Rightarrow>
                      Ok (errs, field_mismatches derived cert
                        @ (if expected_root \<noteq> claimed_root
                           then [Storage_Root_Mismatch expected_root (ct_storage_root cert)] else []))
                  | Err _ \<Rightarrow> Panic
                  | Panic \<Rightarrow> Panic))
            (\<lambda>(errs, mismatches).
               Ok (if mismatches \<noteq> [] then errs @ [CertificateMismatch (ct_address cert) mismatches] else errs)))"

definition replay_and_verify :: "hash_fn \<Rightarrow> execution_batch \<Rightarrow> (unit, replay_error list) result" where
  "replay_and_verify blake3 batch =
     (case foldl replay_step (bt_new, []) (execution_traces batch) of (state, trace_errors) \<Rightarrow>
       if trace_errors \<noteq> [] then Err trace_errors
       else
         let touched = touched_addresses state;
             certified = map ct_address (account_certificates batch);
             errs = map MissingCertificate (set_difference touched certified)
               @ map UntouchedCertificate (set_difference certified touched)
         in bind_res (fold_res (check_certificate blake3 state) errs (account_certificates batch)) (\<lambda>errs.
              if errs = [] then Ok () else Err errs))"

section \<open>Specification\<close>

text \<open>What a payload writes, and which account it touches.\<close>

definition balance_writes :: "address \<Rightarrow> cse_payload \<Rightarrow> b32 list" where
  "balance_writes a p =
     (case p of BalanceChanged d \<Rightarrow> if bc_address d = a then [bc_current_balance d] else [] | _ \<Rightarrow> [])"

definition nonce_writes :: "address \<Rightarrow> cse_payload \<Rightarrow> u64 list" where
  "nonce_writes a p =
     (case p of NonceUpdated d \<Rightarrow> if nu_address d = a then [nu_current_nonce d] else [] | _ \<Rightarrow> [])"

definition code_writes :: "address \<Rightarrow> cse_payload \<Rightarrow> b32 list" where
  "code_writes a p =
     (case p of CodeUpdated d \<Rightarrow> if cu_address d = a then [cu_current_code_hash d] else [] | _ \<Rightarrow> [])"

definition slot_writes :: "address \<Rightarrow> b32 \<Rightarrow> cse_payload \<Rightarrow> b32 list" where
  "slot_writes a slot p =
     (case p of
        StorageSlotUpdated d \<Rightarrow> if su_address d = a \<and> su_slot d = slot then [su_current_value d] else []
      | _ \<Rightarrow> [])"

fun touches :: "address \<Rightarrow> cse_payload \<Rightarrow> bool" where
  "touches a (BalanceChanged d) = (bc_address d = a)"
| "touches a (NonceUpdated d) = (nu_address d = a)"
| "touches a (CodeUpdated d) = (cu_address d = a)"
| "touches a (StorageSlotUpdated d) = (su_address d = a)"
| "touches a (ContractCreated d) = (cc_address d = a)"
| "touches a (ContractDestroyed d) = (cd_address d = a)"
| "touches a p = False"

definition touched_by :: "cse_payload list \<Rightarrow> address \<Rightarrow> bool" where
  "touched_by ps a \<longleftrightarrow> list_ex (touches a) ps"

definition last_write :: "'v \<Rightarrow> (cse_payload \<Rightarrow> 'v list) \<Rightarrow> cse_payload list \<Rightarrow> 'v" where
  "last_write d f ps = last (d # concat (map f ps))"

text \<open>A payload agrees with the trace before it; an account not touched yet may be anything.\<close>

fun agrees :: "cse_payload list \<Rightarrow> cse_payload \<Rightarrow> bool" where
  "agrees ps (BalanceChanged d) \<longleftrightarrow> (touched_by ps (bc_address d) \<longrightarrow>
     bc_previous_balance d = last_write (arr_fill 0) (balance_writes (bc_address d)) ps)"
| "agrees ps (NonceUpdated d) \<longleftrightarrow> (touched_by ps (nu_address d) \<longrightarrow>
     nu_previous_nonce d = last_write 0 (nonce_writes (nu_address d)) ps)"
| "agrees ps (CodeUpdated d) \<longleftrightarrow> (touched_by ps (cu_address d) \<longrightarrow>
     cu_previous_code_hash d = last_write (arr_fill 0) (code_writes (cu_address d)) ps)"
| "agrees ps (StorageSlotUpdated d) \<longleftrightarrow> (touched_by ps (su_address d) \<longrightarrow>
     su_previous_value d = last_write (arr_fill 0) (slot_writes (su_address d) (su_slot d)) ps)"
| "agrees ps p \<longleftrightarrow> True"

definition trace_ok :: "cse_payload list \<Rightarrow> bool" where
  "trace_ok ps \<longleftrightarrow> (\<forall>i < length ps. agrees (take i ps) (ps ! i))"

fun write_slot :: "address \<Rightarrow> slot_map \<Rightarrow> cse_payload \<Rightarrow> slot_map" where
  "write_slot a m (StorageSlotUpdated d) = (if su_address d = a then bt_insert (su_slot d) (su_current_value d) m else m)"
| "write_slot a m p = m"

definition storage_after :: "cse_payload list \<Rightarrow> address \<Rightarrow> slot_map" where
  "storage_after ps a = foldl (write_slot a) bt_new ps"

definition account_after :: "cse_payload list \<Rightarrow> address \<Rightarrow> account_state" where
  "account_after ps a =
     \<lparr>ac_nonce = last_write 0 (nonce_writes a) ps,
      ac_balance = last_write (arr_fill 0) (balance_writes a) ps,
      ac_code_hash = last_write (arr_fill 0) (code_writes a) ps,
      ac_storage = storage_after ps a,
      ac_touched = touched_by ps a\<rparr>"

section \<open>The replay loop\<close>

lemmas write_defs = balance_writes_def nonce_writes_def code_writes_def slot_writes_def

lemma trace_ok_snoc: "trace_ok (ps @ [p]) \<longleftrightarrow> trace_ok ps \<and> agrees ps p"
  by (auto simp: trace_ok_def nth_append less_Suc_eq)

lemma last_write_snoc: "last_write d f (ps @ [p]) = (if f p = [] then last_write d f ps else last (f p))"
  by (simp add: last_write_def)

lemma last_write_none: "\<forall>p \<in> set ps. f p = [] \<Longrightarrow> last_write d f ps = d"
  by (simp add: last_write_def)

lemma touched_by_snoc [simp]: "touched_by (ps @ [p]) a \<longleftrightarrow> touched_by ps a \<or> touches a p"
  by (auto simp: touched_by_def)

lemma storage_after_snoc: "storage_after (ps @ [p]) a = write_slot a (storage_after ps a) p"
  by (simp add: storage_after_def)

lemma storage_after_get:
  "(case bt_get (storage_after ps a) slot of Some v \<Rightarrow> v | None \<Rightarrow> arr_fill 0)
     = last_write (arr_fill 0) (slot_writes a slot) ps"
proof (induction ps rule: rev_induct)
  case Nil
  then show ?case by (simp add: storage_after_def last_write_def)
next
  case (snoc p ps)
  then show ?case
    by (cases p) (auto simp: storage_after_snoc last_write_snoc slot_writes_def)
qed

lemma storage_after_untouched: "\<not> touched_by ps a \<Longrightarrow> storage_after ps a = bt_new"
proof (induction ps rule: rev_induct)
  case (snoc p ps)
  then show ?case by (cases p) (auto simp: storage_after_snoc)
qed (simp add: storage_after_def)

lemma untouched_writes:
  assumes "\<not> touches a p"
  shows "balance_writes a p = []" "nonce_writes a p = []" "code_writes a p = []" "slot_writes a slot p = []"
  using assms by (cases p; simp add: write_defs)+

lemma account_after_untouched: "\<not> touched_by ps a \<Longrightarrow> account_after ps a = default_account"
proof -
  assume untouched: "\<not> touched_by ps a"
  then have "\<forall>p \<in> set ps. \<not> touches a p" by (simp add: touched_by_def list_ex_iff)
  then have "\<forall>p \<in> set ps. nonce_writes a p = []" "\<forall>p \<in> set ps. balance_writes a p = []"
    "\<forall>p \<in> set ps. code_writes a p = []"
    using untouched_writes by blast+
  with untouched show ?thesis
    by (simp add: account_after_def default_account_def last_write_none storage_after_untouched)
qed

definition replay_map :: "cse_payload list \<Rightarrow> (address, account_state) btree_map \<Rightarrow> bool" where
  "replay_map ps state \<longleftrightarrow>
     (\<forall>a. bt_get state a = (if touched_by ps a then Some (account_after ps a) else None))"

lemma account_of_replay: "replay_map ps state \<Longrightarrow> account_of state a = account_after ps a"
  by (simp add: account_of_def replay_map_def account_after_untouched)

lemma account_after_snoc:
  "account_after (ps @ [p]) a =
     (if touches a p then
        (case p of
           BalanceChanged d \<Rightarrow> (account_after ps a)\<lparr>ac_balance := bc_current_balance d, ac_touched := True\<rparr>
         | NonceUpdated d \<Rightarrow> (account_after ps a)\<lparr>ac_nonce := nu_current_nonce d, ac_touched := True\<rparr>
         | CodeUpdated d \<Rightarrow> (account_after ps a)\<lparr>ac_code_hash := cu_current_code_hash d, ac_touched := True\<rparr>
         | StorageSlotUpdated d \<Rightarrow> (account_after ps a)\<lparr>ac_storage :=
             bt_insert (su_slot d) (su_current_value d) (ac_storage (account_after ps a)), ac_touched := True\<rparr>
         | _ \<Rightarrow> (account_after ps a)\<lparr>ac_touched := True\<rparr>)
      else account_after ps a)"
  by (cases p) (auto simp: account_after_def last_write_snoc storage_after_snoc write_defs)

lemma check_previous_empty [simp]: "check_previous acct d a t = [] \<longleftrightarrow> \<not> (ac_touched acct \<and> d)"
  by (simp add: check_previous_def)

lemma replay_step_sound:
  assumes map: "replay_map ps state" and step: "replay_step (state, errs) p = (state', errs')"
  shows "replay_map (ps @ [p]) state'" and "errs' = [] \<longleftrightarrow> errs = [] \<and> agrees ps p"
proof -
  have touched: "ac_touched (account_after ps a) = touched_by ps a" for a
    by (simp add: account_after_def)
  have fields: "ac_nonce (account_after ps a) = last_write 0 (nonce_writes a) ps"
    "ac_balance (account_after ps a) = last_write (arr_fill 0) (balance_writes a) ps"
    "ac_code_hash (account_after ps a) = last_write (arr_fill 0) (code_writes a) ps"
    "(case bt_get (ac_storage (account_after ps a)) slot of Some v \<Rightarrow> v | None \<Rightarrow> arr_fill 0)
       = last_write (arr_fill 0) (slot_writes a slot) ps" for a slot
    using storage_after_get by (simp_all add: account_after_def)
  have get: "bt_get state a = (if touched_by ps a then Some (account_after ps a) else None)" for a
    using map by (simp add: replay_map_def)
  show "replay_map (ps @ [p]) state'"
    using step get unfolding replay_map_def
    by (cases p) (auto simp: Let_def account_of_replay [OF map] account_after_snoc)
  show "errs' = [] \<longleftrightarrow> errs = [] \<and> agrees ps p"
    using step by (cases p) (auto simp: Let_def account_of_replay [OF map] touched fields)
qed

lemma replay_loop:
  "foldl replay_step (bt_new, []) ps = (state, errs) \<Longrightarrow> replay_map ps state \<and> (errs = [] \<longleftrightarrow> trace_ok ps)"
proof (induction ps arbitrary: state errs rule: rev_induct)
  case Nil
  then show ?case by (auto simp: replay_map_def touched_by_def trace_ok_def)
next
  case (snoc p ps)
  obtain state1 errs1 where before: "foldl replay_step (bt_new, []) ps = (state1, errs1)" by force
  with snoc.prems have "replay_step (state1, errs1) p = (state, errs)" by simp
  with snoc.IH [OF before] show ?case
    using replay_step_sound [of ps state1 errs1 p state errs] by (simp add: trace_ok_snoc)
qed

section \<open>The comparison\<close>

text \<open>What a certificate has to say of its account, and what is reported of it.\<close>

definition certifies :: "hash_fn \<Rightarrow> account_state \<Rightarrow> certificate \<Rightarrow> bool" where
  "certifies blake3 s c \<longleftrightarrow> ct_nonce c = ac_nonce s \<and> ct_balance c = ac_balance s
     \<and> ct_code_hash c = ac_code_hash s
     \<and> (\<exists>root. derive blake3 (ac_storage s) = Ok root \<and> ct_storage_root c = Verified root)"

definition certificate_errors :: "hash_fn \<Rightarrow> account_state \<Rightarrow> certificate \<Rightarrow> replay_error list" where
  "certificate_errors blake3 s c =
     (let mismatches = field_mismatches s c @
        (case (ct_storage_root c, derive blake3 (ac_storage s)) of
           (Verified r, Ok root) \<Rightarrow> if root \<noteq> r then [Storage_Root_Mismatch root (Verified r)] else []
         | _ \<Rightarrow> [])
      in (if ct_storage_root c = AwaitingDerivation then [UnresolvedStorageRoot (ct_address c)] else [])
         @ (if mismatches \<noteq> [] then [CertificateMismatch (ct_address c) mismatches] else []))"

definition errors_of :: "hash_fn \<Rightarrow> (address, account_state) btree_map \<Rightarrow> certificate \<Rightarrow> replay_error list" where
  "errors_of blake3 state c =
     (case bt_get state (ct_address c) of None \<Rightarrow> [] | Some s \<Rightarrow> certificate_errors blake3 s c)"

definition contradicts :: "hash_fn \<Rightarrow> account_state \<Rightarrow> certificate \<Rightarrow> bool" where
  "contradicts blake3 s c \<longleftrightarrow> ct_nonce c \<noteq> ac_nonce s \<or> ct_balance c \<noteq> ac_balance s
     \<or> ct_code_hash c \<noteq> ac_code_hash s
     \<or> (\<exists>r. ct_storage_root c = Verified r \<and> derive blake3 (ac_storage s) \<noteq> Ok r)"

lemma field_mismatches_empty:
  "field_mismatches s c = [] \<longleftrightarrow> ct_nonce c = ac_nonce s \<and> ct_balance c = ac_balance s \<and> ct_code_hash c = ac_code_hash s"
  by (auto simp: field_mismatches_def)

lemma certificate_errors_empty: "certificate_errors blake3 s c = [] \<longleftrightarrow> certifies blake3 s c"
proof -
  obtain root where "derive blake3 (ac_storage s) = Ok root" using simple.total by blast
  then show ?thesis
    by (cases "ct_storage_root c") (auto simp: certificate_errors_def certifies_def field_mismatches_empty Let_def)
qed

lemma certificate_errors_mismatch:
  "(\<exists>ms. CertificateMismatch a ms \<in> set (certificate_errors blake3 s c)) \<longleftrightarrow> ct_address c = a \<and> contradicts blake3 s c"
proof -
  obtain root where "derive blake3 (ac_storage s) = Ok root" using simple.total by blast
  then show ?thesis
    using field_mismatches_empty [of s c]
    by (cases "ct_storage_root c") (auto simp: certificate_errors_def contradicts_def Let_def)
qed

lemma check_certificate_Ok: "check_certificate blake3 state errs c = Ok (errs @ errors_of blake3 state c)"
proof (cases "bt_get state (ct_address c)")
  case (Some s)
  obtain root where "derive blake3 (ac_storage s) = Ok root" using simple.total by blast
  with Some show ?thesis
    by (cases "ct_storage_root c")
      (simp_all add: check_certificate_def errors_of_def certificate_errors_def Let_def)
qed (simp add: check_certificate_def errors_of_def)

lemma check_all: "fold_res (check_certificate blake3 state) errs cs = Ok (errs @ concat (map (errors_of blake3 state) cs))"
  using fold_res_Ok_fold [of "check_certificate blake3 state" "\<lambda>errs c. errs @ errors_of blake3 state c"]
  by (simp add: check_certificate_Ok foldl_append_concat)

lemma set_address_set [simp]: "set (address_set as) = set as"
proof -
  have "bt_get (bt_of_list (map (\<lambda>a. (a, ())) as)) a \<noteq> None \<longleftrightarrow> a \<in> set as" for a
  proof -
    have "map_of (rev (map (\<lambda>a. (a, ())) as)) a = None \<longleftrightarrow> a \<notin> set as"
      by (simp add: map_of_eq_None_iff image_image)
    then show ?thesis
      unfolding bt_of_list_def by (subst bt.get_foldl_insert) (auto split: option.split)
  qed
  then show ?thesis by (auto simp: address_set_def set_bt_keys)
qed

lemma set_set_difference [simp]: "set (set_difference xs ys) = set xs - set ys"
  by (auto simp: set_difference_def)

lemma set_touched_addresses:
  assumes "replay_map ps state"
  shows "set (touched_addresses state) = {a. touched_by ps a}"
proof (rule set_eqI)
  fix a
  have "a \<in> set (touched_addresses state) \<longleftrightarrow> (\<exists>s. bt_get state a = Some s \<and> ac_touched s)"
    unfolding touched_addresses_def by (force simp: bt.in_iter_iff)
  also have "\<dots> \<longleftrightarrow> touched_by ps a"
    using assms by (auto simp: replay_map_def account_after_def split: if_splits)
  finally show "a \<in> set (touched_addresses state) \<longleftrightarrow> a \<in> {a. touched_by ps a}" by simp
qed

lemma replay_result:
  assumes "trace_ok (execution_traces batch)"
  obtains state where "replay_map (execution_traces batch) state"
    and "replay_and_verify blake3 batch =
      (let errs = map MissingCertificate
             (set_difference (touched_addresses state) (map ct_address (account_certificates batch)))
           @ map UntouchedCertificate
             (set_difference (map ct_address (account_certificates batch)) (touched_addresses state))
           @ concat (map (errors_of blake3 state) (account_certificates batch))
       in if errs = [] then Ok () else Err errs)"
proof -
  obtain state errs where loop: "foldl replay_step (bt_new, []) (execution_traces batch) = (state, errs)" by force
  with assms have "replay_map (execution_traces batch) state" "errs = []" using replay_loop by blast+
  with loop that show ?thesis by (simp add: replay_and_verify_def check_all Let_def)
qed

lemma errors_of_replay:
  "replay_map ps state \<Longrightarrow> errors_of blake3 state c =
     (if touched_by ps (ct_address c) then certificate_errors blake3 (account_after ps (ct_address c)) c else [])"
  by (simp add: errors_of_def replay_map_def)

text \<open>Trace errors carry nothing but trace errors of touched accounts.\<close>

lemma replay_step_errors:
  assumes "replay_step (state, errs) p = (state', errs')"
    and "\<forall>e \<in> set errs. \<exists>a t. e = TraceInconsistency a t \<and> P a" and "\<And>a. touches a p \<Longrightarrow> P a"
  shows "\<forall>e \<in> set errs'. \<exists>a t. e = TraceInconsistency a t \<and> P a"
  using assms by (cases p) (auto simp: Let_def check_previous_def split: if_splits)

lemma replay_loop_errors:
  "foldl replay_step (bt_new, []) ps = (state, errs) \<Longrightarrow>
     \<forall>e \<in> set errs. \<exists>a t. e = TraceInconsistency a t \<and> touched_by ps a"
proof (induction ps arbitrary: state errs rule: rev_induct)
  case (snoc p ps)
  obtain state1 errs1 where before: "foldl replay_step (bt_new, []) ps = (state1, errs1)" by force
  with snoc.prems have "replay_step (state1, errs1) p = (state, errs)" by simp
  then show ?case
    by (rule replay_step_errors) (use snoc.IH [OF before] in auto)
qed simp

lemma replay_trace_errors:
  assumes "\<not> trace_ok (execution_traces batch)"
  obtains errs where "replay_and_verify blake3 batch = Err errs" "errs \<noteq> []"
    "\<forall>e \<in> set errs. \<exists>a t. e = TraceInconsistency a t \<and> touched_by (execution_traces batch) a"
proof -
  obtain state errs where loop: "foldl replay_step (bt_new, []) (execution_traces batch) = (state, errs)" by force
  with assms have "errs \<noteq> []" using replay_loop by blast
  with loop that show ?thesis using replay_loop_errors [OF loop] by (simp add: replay_and_verify_def)
qed

abbreviation matching_addresses :: "execution_batch \<Rightarrow> bool" where
  "matching_addresses batch \<equiv>
     (\<forall>a. touched_by (execution_traces batch) a \<longleftrightarrow> a \<in> ct_address ` set (account_certificates batch))"

lemma replay_Ok:
  "replay_and_verify blake3 batch = Ok () \<longleftrightarrow>
     trace_ok (execution_traces batch) \<and> matching_addresses batch
     \<and> (\<forall>c \<in> set (account_certificates batch).
          certifies blake3 (account_after (execution_traces batch) (ct_address c)) c)"
proof (cases "trace_ok (execution_traces batch)")
  case True
  then obtain state where map: "replay_map (execution_traces batch) state"
    and res: "replay_and_verify blake3 batch =
      (let errs = map MissingCertificate
             (set_difference (touched_addresses state) (map ct_address (account_certificates batch)))
           @ map UntouchedCertificate
             (set_difference (map ct_address (account_certificates batch)) (touched_addresses state))
           @ concat (map (errors_of blake3 state) (account_certificates batch))
       in if errs = [] then Ok () else Err errs)"
    by (rule replay_result)
  have empty: "set_difference xs ys = [] \<longleftrightarrow> set xs \<subseteq> set ys" for xs ys
    using set_set_difference [of xs ys] by (metis Diff_eq_empty_iff set_empty2)
  have "replay_and_verify blake3 batch = Ok () \<longleftrightarrow> matching_addresses batch
      \<and> (\<forall>c \<in> set (account_certificates batch). errors_of blake3 state c = [])"
    unfolding res Let_def by (auto simp: empty set_touched_addresses [OF map])
  then show ?thesis
    by (auto simp: True errors_of_replay [OF map] certificate_errors_empty split: if_splits)
next
  case False
  then show ?thesis by (metis replay_trace_errors result.distinct(1))
qed

lemma replay_error_sets:
  assumes "trace_ok (execution_traces batch)"
  obtains errs where "replay_and_verify blake3 batch = (if errs = [] then Ok () else Err errs)"
    "{a. MissingCertificate a \<in> set errs}
      = {a. touched_by (execution_traces batch) a} - ct_address ` set (account_certificates batch)"
    "{a. UntouchedCertificate a \<in> set errs}
      = ct_address ` set (account_certificates batch) - {a. touched_by (execution_traces batch) a}"
    "{a. UnresolvedStorageRoot a \<in> set errs} = {ct_address c | c. c \<in> set (account_certificates batch)
        \<and> touched_by (execution_traces batch) (ct_address c) \<and> ct_storage_root c = AwaitingDerivation}"
    "{a. \<exists>ms. CertificateMismatch a ms \<in> set errs} = {ct_address c | c. c \<in> set (account_certificates batch)
        \<and> touched_by (execution_traces batch) (ct_address c)
        \<and> contradicts blake3 (account_after (execution_traces batch) (ct_address c)) c}"
proof -
  obtain state where map: "replay_map (execution_traces batch) state"
    and res: "replay_and_verify blake3 batch =
      (let errs = map MissingCertificate
             (set_difference (touched_addresses state) (map ct_address (account_certificates batch)))
           @ map UntouchedCertificate
             (set_difference (map ct_address (account_certificates batch)) (touched_addresses state))
           @ concat (map (errors_of blake3 state) (account_certificates batch))
       in if errs = [] then Ok () else Err errs)"
    using assms by (rule replay_result)
  have kinds: "MissingCertificate a \<notin> set (errors_of blake3 state c)" "UntouchedCertificate a \<notin> set (errors_of blake3 state c)"
    "UnresolvedStorageRoot a \<in> set (errors_of blake3 state c) \<longleftrightarrow>
      touched_by (execution_traces batch) (ct_address c) \<and> ct_address c = a \<and> ct_storage_root c = AwaitingDerivation"
    for a c
    by (auto simp: errors_of_replay [OF map] certificate_errors_def Let_def)
  have mismatch: "(\<exists>ms. CertificateMismatch a ms \<in> set (errors_of blake3 state c)) \<longleftrightarrow>
      touched_by (execution_traces batch) (ct_address c) \<and> ct_address c = a
        \<and> contradicts blake3 (account_after (execution_traces batch) (ct_address c)) c" for a c
    by (simp add: errors_of_replay [OF map] certificate_errors_mismatch)
  let ?cs = "account_certificates batch"
  define errs where "errs = map MissingCertificate (set_difference (touched_addresses state) (map ct_address ?cs))
    @ map UntouchedCertificate (set_difference (map ct_address ?cs) (touched_addresses state))
    @ concat (map (errors_of blake3 state) ?cs)"
  have "(\<exists>ms. CertificateMismatch a ms \<in> set errs) \<longleftrightarrow>
      (\<exists>c \<in> set ?cs. \<exists>ms. CertificateMismatch a ms \<in> set (errors_of blake3 state c))" for a
    by (auto simp: errs_def)
  then have mismatches: "{a. \<exists>ms. CertificateMismatch a ms \<in> set errs}
      = {ct_address c | c. c \<in> set ?cs \<and> touched_by (execution_traces batch) (ct_address c)
          \<and> contradicts blake3 (account_after (execution_traces batch) (ct_address c)) c}"
    unfolding mismatch by auto
  have others: "{a. MissingCertificate a \<in> set errs} = {a. touched_by (execution_traces batch) a} - ct_address ` set ?cs"
    "{a. UntouchedCertificate a \<in> set errs} = ct_address ` set ?cs - {a. touched_by (execution_traces batch) a}"
    "{a. UnresolvedStorageRoot a \<in> set errs} = {ct_address c | c. c \<in> set ?cs
        \<and> touched_by (execution_traces batch) (ct_address c) \<and> ct_storage_root c = AwaitingDerivation}"
    by (auto simp: errs_def set_touched_addresses [OF map] kinds)
  have run: "replay_and_verify blake3 batch = (if errs = [] then Ok () else Err errs)"
    unfolding res Let_def errs_def ..
  show ?thesis by (rule that [OF run others mismatches])
qed

section \<open>Properties\<close>

text \<open>
  C14: Gate 2 accepts exactly: the replay of a batch succeeds when, and only when, every
  previous value stated in the trace agrees with the writes before it, the touched
  accounts are the certified ones, and every certificate states the last nonce, balance
  and code hash written (or zero) and the root of exactly the slots written.
\<close>

theorem replay_accepts_exactly:
  "replay_and_verify blake3 batch = Ok () \<longleftrightarrow>
     trace_ok (execution_traces batch)
     \<and> (\<forall>a. touched_by (execution_traces batch) a \<longleftrightarrow> a \<in> ct_address ` set (account_certificates batch))
     \<and> (\<forall>c \<in> set (account_certificates batch).
          certifies blake3 (account_after (execution_traces batch) (ct_address c)) c)"
  by (rule replay_Ok)

theorem replay_accepts_exactly_witness:
  "replay_and_verify zero_hash \<lparr>account_certificates = [\<lparr>ct_address = arr_fill 1,
       ct_generation = \<lparr>vg_key = GenerationKey (arr_fill 1) 0, vg_proof_root = arr_fill 0\<rparr>,
       ct_nonce = 2, ct_balance = arr_fill 0, ct_code_hash = arr_fill 0, ct_storage_root = Verified (arr_fill 0)\<rparr>],
     execution_traces = [sample_nonce 1 0 1, sample_nonce 1 1 2]\<rparr> = Ok ()"
proof -
  have "derive zero_hash bt_new = Ok (arr_fill 0)"
    using trie.root_single [of zero_hash "arr_fill 0"] by (simp add: derive_def derive_leaves_def)
  then show ?thesis
    by (subst replay_accepts_exactly)
      (auto simp: trace_ok_def less_Suc_eq sample_nonce_def touched_by_def certifies_def account_after_def
        last_write_def write_defs storage_after_def)
qed

text \<open>
  C33: what Gate 2 reports.  It never panics.  On an inconsistent trace it stops there: all it
  reports are trace inconsistencies, of touched accounts, and no certificate is looked
  at.  On a consistent trace a rejection names exactly the touched accounts without a certificate, the certificates without a touched account, the
  touched accounts whose certificate has no root, and those whose certificate disagrees.
\<close>

theorem replay_errors_exact:
  "case replay_and_verify blake3 batch of
     Ok _ \<Rightarrow> True
   | Err errs \<Rightarrow> errs \<noteq> [] \<and>
       (if trace_ok (execution_traces batch) then
          {a. MissingCertificate a \<in> set errs}
            = {a. touched_by (execution_traces batch) a} - ct_address ` set (account_certificates batch)
        \<and> {a. UntouchedCertificate a \<in> set errs}
            = ct_address ` set (account_certificates batch) - {a. touched_by (execution_traces batch) a}
        \<and> {a. UnresolvedStorageRoot a \<in> set errs}
            = {ct_address c | c. c \<in> set (account_certificates batch)
                \<and> touched_by (execution_traces batch) (ct_address c) \<and> ct_storage_root c = AwaitingDerivation}
        \<and> {a. \<exists>ms. CertificateMismatch a ms \<in> set errs}
            = {ct_address c | c. c \<in> set (account_certificates batch)
                \<and> touched_by (execution_traces batch) (ct_address c)
                \<and> contradicts blake3 (account_after (execution_traces batch) (ct_address c)) c}
        else list_all (\<lambda>e. \<exists>a t. e = TraceInconsistency a t \<and> touched_by (execution_traces batch) a) errs)
   | Panic \<Rightarrow> False"
proof (cases "trace_ok (execution_traces batch)")
  case True
  then obtain errs where "replay_and_verify blake3 batch = (if errs = [] then Ok () else Err errs)"
    "{a. MissingCertificate a \<in> set errs}
      = {a. touched_by (execution_traces batch) a} - ct_address ` set (account_certificates batch)"
    "{a. UntouchedCertificate a \<in> set errs}
      = ct_address ` set (account_certificates batch) - {a. touched_by (execution_traces batch) a}"
    "{a. UnresolvedStorageRoot a \<in> set errs} = {ct_address c | c. c \<in> set (account_certificates batch)
        \<and> touched_by (execution_traces batch) (ct_address c) \<and> ct_storage_root c = AwaitingDerivation}"
    "{a. \<exists>ms. CertificateMismatch a ms \<in> set errs} = {ct_address c | c. c \<in> set (account_certificates batch)
        \<and> touched_by (execution_traces batch) (ct_address c)
        \<and> contradicts blake3 (account_after (execution_traces batch) (ct_address c)) c}"
    by (rule replay_error_sets)
  with True show ?thesis by simp
next
  case False
  then obtain errs where "replay_and_verify blake3 batch = Err errs" "errs \<noteq> []"
    "\<forall>e \<in> set errs. \<exists>a t. e = TraceInconsistency a t \<and> touched_by (execution_traces batch) a"
    by (rule replay_trace_errors)
  with False show ?thesis by (simp add: list_all_iff)
qed

text \<open>
  The envelope check accepts, among all commitments, exactly the one made of the same
  bytes under the Gate 2 domain; any other commitment it accepts exhibits a BLAKE3
  collision of the two tagged strings.
\<close>

lemma envelope_integrity_exact:
  "verify_envelope_integrity blake3 bs (derive_commitment blake3 d xs) \<longleftrightarrow>
     (d = Gate2Replay \<and> xs = bs) \<or> collision blake3 (as_bytes Gate2Replay @ bs) (as_bytes d @ xs)"
  by (auto simp: verify_envelope_integrity_def derive_commitment_eq_iff)

text \<open>
  The flag \<open>touched\<close> is one per account, not one per field: once a balance change has
  touched an account, its first nonce change is compared with nonce zero, so an honest
  trace of an account whose nonce was not zero is rejected as inconsistent, whatever its
  certificates.
\<close>

lemma replay_rejects_second_field:
  assumes "previous \<noteq> 0"
  shows "replay_and_verify blake3 \<lparr>account_certificates = cs, execution_traces =
      [BalanceChanged \<lparr>bc_address = a, bc_previous_balance = b, bc_current_balance = b'\<rparr>,
       NonceUpdated \<lparr>nu_address = a, nu_previous_nonce = previous, nu_current_nonce = previous + 1\<rparr>]\<rparr>
    = Err [TraceInconsistency a nonce_detail]"
  using assms by (simp add: replay_and_verify_def account_of_def check_previous_def default_account_def)

lemma replay_rejects_second_field_example:
  "replay_and_verify blake3 \<lparr>account_certificates = [], execution_traces =
      [BalanceChanged \<lparr>bc_address = arr_fill 1, bc_previous_balance = arr_fill 4, bc_current_balance = arr_fill 3\<rparr>,
       NonceUpdated \<lparr>nu_address = arr_fill 1, nu_previous_nonce = 5, nu_current_nonce = 5 + 1\<rparr>]\<rparr>
    = Err [TraceInconsistency (arr_fill 1) nonce_detail]"
  by (rule replay_rejects_second_field) simp

text \<open>
  The replay starts every account from zero, so a certificate that carries a nonce from
  before the transaction is rejected when the transaction does not write the nonce.
\<close>

lemma replay_rejects_prior_nonce:
  assumes "ct_nonce c \<noteq> 0"
  shows "replay_and_verify blake3 \<lparr>account_certificates = [c], execution_traces =
      [BalanceChanged \<lparr>bc_address = ct_address c, bc_previous_balance = b, bc_current_balance = b'\<rparr>]\<rparr> \<noteq> Ok ()"
  using assms by (simp add: replay_Ok certifies_def account_after_def last_write_def write_defs)

end
