(* ===== verification/Gate2.thy ===== *)
theory Gate2
  imports Verify
begin

text \<open>
  The builder against the verifier: what \<open>runtime/builder\<close> certifies of a transaction is
  what \<open>runtime/verify\<close> replays from it.  Both are described on the events of the
  transaction, the builder by net transitions per key, the verifier by last writes per
  field; here the two descriptions are related.
\<close>

section \<open>Fields\<close>

definition net_value :: "'v observed_transition list \<Rightarrow> 'v option" where
  "net_value h = map_option terminal (net h)"

lemma net_value_last: "(case net_value h of None \<Rightarrow> d | Some v \<Rightarrow> v) = last (d # map after h)"
  by (cases h) (simp_all add: net_value_def net_def last_map)

lemma writes_observed:
  "nonce_writes a (payload e) = map after (nonce_obs (NonceKey a) e)"
  "balance_writes a (payload e) = map after (value_obs (BalanceKey a) e)"
  "code_writes a (payload e) = map after (value_obs (CodeKey a) e)"
  "slot_writes a s (payload e) = map after (value_obs (StorageKey a s) e)"
  by (cases "payload e"; auto simp: write_defs obs_simps)+

lemma last_write_observed:
  assumes "\<And>e. f (payload e) = map after (obs e)"
  shows "last_write d f (map payload es) = last (d # map after (history_of obs es))"
  by (simp add: last_write_def map_concat comp_def assms)

lemma last_write_fields:
  "last_write n (nonce_writes a) (map payload es) = last (n # map after (history_of (nonce_obs (NonceKey a)) es))"
  "last_write d (balance_writes a) (map payload es) = last (d # map after (history_of (value_obs (BalanceKey a)) es))"
  "last_write d (code_writes a) (map payload es) = last (d # map after (history_of (value_obs (CodeKey a)) es))"
  "last_write d (slot_writes a s) (map payload es) = last (d # map after (history_of (value_obs (StorageKey a s)) es))"
  by (rule last_write_observed, rule writes_observed)+

definition table_of :: "cse_event list \<Rightarrow> (canonical_key, reduced_variant) btree_map \<Rightarrow> bool" where
  "table_of es table \<longleftrightarrow> (\<forall>k. bt_get table k = net_of es k)"

lemma table_fields:
  assumes "table_of es table"
  shows "nonce_after table a = net_value (history_of (nonce_obs (NonceKey a)) es)"
    and "balance_after table a = net_value (history_of (value_obs (BalanceKey a)) es)"
    and "code_after table a = net_value (history_of (value_obs (CodeKey a)) es)"
    and "slot_after table a s = net_value (history_of (value_obs (StorageKey a s)) es)"
  using assms
  by (simp_all add: table_of_def nonce_after_def balance_after_def code_after_def slot_after_def
      net_value_def option.case_eq_if map_option_case)

lemma net_of_fits: "net_of es k = Some v \<Longrightarrow> variant_fits k v"
  by (cases k) auto

lemma table_typed: "table_of es table \<Longrightarrow> typed_table table"
  using net_of_fits by (auto simp: typed_table_def table_of_def list_all_iff bt.in_iter_iff)

section \<open>Slots\<close>

lemma storage_after_slots:
  "bt_get (storage_after (map payload es) a) s = net_value (history_of (value_obs (StorageKey a s)) es)"
proof (induction es rule: rev_induct)
  case Nil
  then show ?case by (simp add: storage_after_def net_value_def)
next
  case (snoc e es)
  then show ?case
    by (cases "payload e")
      (auto simp: storage_after_snoc value_obs_def net_value_def net_def)
qed

section \<open>Touched accounts\<close>

text \<open>
  The builder certifies the accounts with an entry in the state table, transient storage
  included; the verifier expects certificates of the accounts it replays, lifecycle events
  included.  The two sets can differ, and then the batch is rejected.
\<close>

fun builder_touches :: "address \<Rightarrow> cse_payload \<Rightarrow> bool" where
  "builder_touches a (BalanceChanged d) = (bc_address d = a)"
| "builder_touches a (NonceUpdated d) = (nu_address d = a)"
| "builder_touches a (CodeUpdated d) = (cu_address d = a)"
| "builder_touches a (StorageSlotUpdated d) = (su_address d = a)"
| "builder_touches a (TransientStorageUpdated d) = (ts_address d = a)"
| "builder_touches a p = False"

definition certified_by :: "cse_payload list \<Rightarrow> address \<Rightarrow> bool" where
  "certified_by ps a \<longleftrightarrow> list_ex (builder_touches a) ps"

lemma observed_builder_touches:
  "builder_touches a (payload e) \<longleftrightarrow> (\<exists>k. key_address k = a \<and> (value_obs k e \<noteq> [] \<or> nonce_obs k e \<noteq> []))"
  by (cases "payload e") (auto simp: obs_simps split: if_splits intro: key_address.simps)

lemma net_of_exists: "net_of es k \<noteq> None \<longleftrightarrow> (\<exists>e \<in> set es. value_obs k e \<noteq> [] \<or> nonce_obs k e \<noteq> [])"
  by (cases k) (auto simp: nonce_obs_other)

lemma touched_certified:
  assumes "table_of es table"
  shows "touched (entries table) a \<longleftrightarrow> certified_by (map payload es) a"
proof -
  have "touched (entries table) a \<longleftrightarrow> (\<exists>k. key_address k = a \<and> net_of es k \<noteq> None)"
    using assms by (auto simp: touched_def list_ex_iff bt.in_iter_iff table_of_def)
  also have "\<dots> \<longleftrightarrow> certified_by (map payload es) a"
    unfolding net_of_exists certified_by_def by (auto simp: list_ex_iff observed_builder_touches)
  finally show ?thesis .
qed

section \<open>Consistency of the trace\<close>

text \<open>
  The one difference between the two notions of consistency: the builder lets each key
  start anywhere, the verifier lets only the first event of an account do so; later first
  observations of a field or slot must start from zero.
\<close>

fun fresh_at :: "cse_event list \<Rightarrow> cse_payload \<Rightarrow> bool" where
  "fresh_at es (BalanceChanged d) \<longleftrightarrow>
     (touched_by (map payload es) (bc_address d) \<and> history_of (value_obs (BalanceKey (bc_address d))) es = []
       \<longrightarrow> bc_previous_balance d = arr_fill 0)"
| "fresh_at es (NonceUpdated d) \<longleftrightarrow>
     (touched_by (map payload es) (nu_address d) \<and> history_of (nonce_obs (NonceKey (nu_address d))) es = []
       \<longrightarrow> nu_previous_nonce d = 0)"
| "fresh_at es (CodeUpdated d) \<longleftrightarrow>
     (touched_by (map payload es) (cu_address d) \<and> history_of (value_obs (CodeKey (cu_address d))) es = []
       \<longrightarrow> cu_previous_code_hash d = arr_fill 0)"
| "fresh_at es (StorageSlotUpdated d) \<longleftrightarrow>
     (touched_by (map payload es) (su_address d)
        \<and> history_of (value_obs (StorageKey (su_address d) (su_slot d))) es = []
       \<longrightarrow> su_previous_value d = arr_fill 0)"
| "fresh_at es p \<longleftrightarrow> True"

definition starts_fresh :: "cse_event list \<Rightarrow> bool" where
  "starts_fresh es \<longleftrightarrow> (\<forall>i < length es. fresh_at (take i es) (payload (es ! i)))"

text \<open>In a chained history an observation continues the one before it.\<close>

lemma history_continues:
  assumes "obs e = [ob]" and "chained (history_of obs (es @ e # es'))"
  shows "before ob = last (d # map after (history_of obs es)) \<longleftrightarrow> history_of obs es = [] \<longrightarrow> before ob = d"
proof (cases "history_of obs es" rule: rev_cases)
  case Nil
  then show ?thesis by simp
next
  case (snoc h0 o1)
  have "chained (history_of obs es @ ob # history_of obs es')" using assms by simp
  then have "chained (h0 @ [o1, ob] @ history_of obs es')" unfolding snoc by simp
  then have "before ob = after o1" by (simp add: chained_def successively_append_iff)
  with snoc show ?thesis by simp
qed

lemma agrees_fresh:
  assumes "consistent (es @ e # es')"
  shows "agrees (map payload es) (payload e) \<longleftrightarrow> fresh_at es (payload e)"
proof -
  note c = assms [unfolded consistent_def]
  show ?thesis
  proof (cases "payload e")
    case (BalanceChanged d)
    then have "value_obs (BalanceKey (bc_address d)) e
        = [observation (bc_previous_balance d) (bc_current_balance d) e]" by (simp add: obs_simps)
    from history_continues [where obs = "value_obs (BalanceKey (bc_address d))", OF this, of es es' "arr_fill 0"]
    show ?thesis using c BalanceChanged by (simp only: agrees.simps fresh_at.simps last_write_fields) auto
  next
    case (NonceUpdated d)
    then have "nonce_obs (NonceKey (nu_address d)) e
        = [observation (nu_previous_nonce d) (nu_current_nonce d) e]" by (simp add: obs_simps)
    from history_continues [where obs = "nonce_obs (NonceKey (nu_address d))", OF this, of es es' 0]
    show ?thesis using c NonceUpdated by (simp only: agrees.simps fresh_at.simps last_write_fields) auto
  next
    case (CodeUpdated d)
    then have "value_obs (CodeKey (cu_address d)) e
        = [observation (cu_previous_code_hash d) (cu_current_code_hash d) e]" by (simp add: obs_simps)
    from history_continues [where obs = "value_obs (CodeKey (cu_address d))", OF this, of es es' "arr_fill 0"]
    show ?thesis using c CodeUpdated by (simp only: agrees.simps fresh_at.simps last_write_fields) auto
  next
    case (StorageSlotUpdated d)
    then have "value_obs (StorageKey (su_address d) (su_slot d)) e
        = [observation (su_previous_value d) (su_current_value d) e]" by (simp add: obs_simps)
    from history_continues [where obs = "value_obs (StorageKey (su_address d) (su_slot d))", OF this, of es es' "arr_fill 0"]
    show ?thesis using c StorageSlotUpdated by (simp only: agrees.simps fresh_at.simps last_write_fields) auto
  qed simp_all
qed

lemma trace_ok_fresh:
  assumes "consistent es"
  shows "trace_ok (map payload es) \<longleftrightarrow> starts_fresh es"
proof -
  have "agrees (take i (map payload es)) (map payload es ! i) \<longleftrightarrow> fresh_at (take i es) (payload (es ! i))"
    if "i < length es" for i
  proof -
    have "es = take i es @ es ! i # drop (Suc i) es" using that by (simp add: id_take_nth_drop)
    then have "agrees (map payload (take i es)) (payload (es ! i)) \<longleftrightarrow> fresh_at (take i es) (payload (es ! i))"
      using agrees_fresh assms by metis
    with that show ?thesis by (simp add: take_map)
  qed
  then show ?thesis by (simp add: trace_ok_def starts_fresh_def)
qed

section \<open>Certificates of a fresh state\<close>

definition empty_account :: account_snapshot where
  "empty_account = \<lparr>as_nonce = 0, as_balance = arr_fill 0, as_code_hash = arr_fill 0\<rparr>"

lemma certificate_from_empty:
  assumes "recover_account_snapshot src a = Ok empty_account"
    and "certificate_for table generations src a = Ok c"
  shows "ct_address c = a" "ct_nonce c = (case nonce_after table a of None \<Rightarrow> 0 | Some v \<Rightarrow> v)"
    "ct_balance c = (case balance_after table a of None \<Rightarrow> arr_fill 0 | Some v \<Rightarrow> v)"
    "ct_code_hash c = (case code_after table a of None \<Rightarrow> arr_fill 0 | Some v \<Rightarrow> v)"
  using assms
  by (cases "nonce_after table a"; cases "balance_after table a"; cases "code_after table a";
      auto simp: certificate_for_def finish_builder_def complete_fields_def fill_fields_def fields_after_def
        empty_account_def)+

lemma set_bt_values: "c \<in> set (bt_values m) \<longleftrightarrow> (\<exists>a. bt_get m a = Some c)"
  by (force simp: bt_values_def bt.in_iter_iff [symmetric])

text \<open>The boundary events write nothing.\<close>

lemma boundary_obs:
  assumes "event_boundary e \<noteq> Inside"
  shows "value_obs k e = []" "nonce_obs k e = []" "refund_obs e = []"
  using assms by (cases "payload e"; simp add: obs_simps)+

lemma tx_histories:
  assumes "tx_wf tx"
  shows "history_of (value_obs k) (tx_events tx) = history_of (value_obs k) (tx_inner tx)"
    "history_of (nonce_obs k) (tx_events tx) = history_of (nonce_obs k) (tx_inner tx)"
    "history_of refund_obs (tx_events tx) = history_of refund_obs (tx_inner tx)"
  using assms by (simp_all add: tx_events_def tx_wf_def boundary_obs)

lemma tx_net_of: "tx_wf tx \<Longrightarrow> net_of (tx_events tx) k = net_of (tx_inner tx) k"
  by (cases k) (simp_all add: tx_histories del: concat.simps map_append concat_append)

lemma tx_consistent: "tx_wf tx \<Longrightarrow> consistent (tx_events tx) \<longleftrightarrow> consistent (tx_inner tx)"
  by (simp add: consistent_def tx_histories)

lemma certified_account:
  assumes table: "table_of es table" and c: "certificate_for table generations src a = Ok c"
    and src: "recover_account_snapshot src a = Ok empty_account"
    and slots: "\<forall>s. bt_get slots s = slot_after table a s" and root: "derive blake3 slots = Ok root"
  shows "certifies blake3 (account_after (map payload es) a) (c\<lparr>ct_storage_root := Verified root\<rparr>)"
proof -
  have "storage_after (map payload es) a = slots"
    by (rule bt.map_ext) (simp add: slots storage_after_slots table_fields [OF table])
  then show ?thesis
    using certificate_from_empty [OF src c] root
    by (simp add: certifies_def account_after_def table_fields [OF table] last_write_fields net_value_last)
qed

lemma resolved_certificates:
  assumes table: "table_of es table" and src: "\<And>a. recover_account_snapshot src a = Ok empty_account"
    and build: "build_canonical_certificates table generations src = Ok certs"
    and resolve: "\<And>a. \<exists>slots root. (\<forall>s. bt_get slots s = slot_after table a s) \<and> derive blake3 slots = Ok root
        \<and> bt_get certs' a = map_option (\<lambda>c. c\<lparr>ct_storage_root := Verified root\<rparr>) (bt_get certs a)"
  shows "if certified_by (map payload es) a
      then \<exists>c. bt_get certs' a = Some c \<and> ct_address c = a \<and> certifies blake3 (account_after (map payload es) a) c
      else bt_get certs' a = None"
proof -
  have certs: "if certified_by (map payload es) a
      then \<exists>c. certificate_for table generations src a = Ok c \<and> bt_get certs a = Some c
      else bt_get certs a = None"
    using build build_certificates_Ok [OF table_typed [OF table]] touched_certified [OF table] by simp
  show ?thesis
  proof (cases "certified_by (map payload es) a")
    case True
    with certs obtain c where c: "certificate_for table generations src a = Ok c" "bt_get certs a = Some c"
      by auto
    obtain slots root where "\<forall>s. bt_get slots s = slot_after table a s" "derive blake3 slots = Ok root"
      "bt_get certs' a = Some (c\<lparr>ct_storage_root := Verified root\<rparr>)"
      using resolve [of a] c(2) by auto
    with True show ?thesis
      using certified_account [OF table c(1) src] certificate_from_empty(1) [OF src c(1)] by simp
  next
    case False
    with certs have "bt_get certs a = None" by simp
    with resolve [of a] have "bt_get certs' a = None" by auto
    with False show ?thesis by simp
  qed
qed

lemma gate2_accepts:
  assumes table: "table_of es table" and consistent: "consistent es"
    and src: "\<And>a. recover_account_snapshot src a = Ok empty_account"
    and build: "build_canonical_certificates table generations src = Ok certs"
    and resolve: "\<And>a. \<exists>slots root. (\<forall>s. bt_get slots s = slot_after table a s) \<and> derive blake3 slots = Ok root
        \<and> bt_get certs' a = map_option (\<lambda>c. c\<lparr>ct_storage_root := Verified root\<rparr>) (bt_get certs a)"
  shows "replay_and_verify blake3
      \<lparr>account_certificates = bt_values certs', execution_traces = map payload es\<rparr> = Ok ()
    \<longleftrightarrow> starts_fresh es \<and> (\<forall>a. touched_by (map payload es) a \<longleftrightarrow> certified_by (map payload es) a)"
proof -
  note each = resolved_certificates [OF table src build resolve]
  have sound: "certified_by (map payload es) (ct_address c)
      \<and> certifies blake3 (account_after (map payload es) (ct_address c)) c"
    if "c \<in> set (bt_values certs')" for c
  proof -
    from that obtain a where a: "bt_get certs' a = Some c" by (auto simp: set_bt_values)
    with each [of a] show ?thesis by (cases "certified_by (map payload es) a") auto
  qed
  have "a \<in> ct_address ` set (bt_values certs')" if "certified_by (map payload es) a" for a
  proof -
    from each [of a] that obtain c where "bt_get certs' a = Some c" "ct_address c = a" by auto
    then show ?thesis using set_bt_values [of c certs'] by blast
  qed
  with sound have "a \<in> ct_address ` set (bt_values certs') \<longleftrightarrow> certified_by (map payload es) a" for a
    by blast
  then show ?thesis
    using sound trace_ok_fresh [OF consistent] unfolding replay_Ok by simp
qed

end
