(* ===== verification/Cse_Validator.thy ===== *)
theory Cse_Validator
  imports Envelope
begin

text \<open>
  \<open>runtime/cse/src/validator.rs\<close>: the stream validator, a state machine that checks
  each event's structure, the continuity of the sequence numbers and the transaction
  envelope, in this order.  \<open>validate_and_advance\<close> changes the validator only when
  it accepts, so the model returns the new state on success.
\<close>

record cse_validator =
  expected_sequence :: u64
  in_transaction :: bool

text \<open>\<open>CseValidator::new\<close> and \<open>reset\<close>.\<close>

definition new_validator :: cse_validator where
  "new_validator = \<lparr>expected_sequence = 0, in_transaction = False\<rparr>"

definition reset :: "cse_validator \<Rightarrow> cse_validator" where
  "reset v = v\<lparr>expected_sequence := 0, in_transaction := False\<rparr>"

text \<open>The envelope check: the new value of \<open>in_transaction\<close>, or the boundary error.\<close>

definition check_boundary :: "cse_validator \<Rightarrow> cse_payload \<Rightarrow> (cse_validator, validation_error) result" where
  "check_boundary v pl =
     (case pl of
        BeginTransaction \<Rightarrow>
          if in_transaction v
          then Err (InvalidBoundaryCondition ''Nested transaction boundary initiated'')
          else Ok (v\<lparr>in_transaction := True\<rparr>)
      | EndTransaction \<Rightarrow>
          if \<not> in_transaction v
          then Err (InvalidBoundaryCondition ''Termination signature without active envelope'')
          else Ok (v\<lparr>in_transaction := False\<rparr>)
      | _ \<Rightarrow>
          if \<not> in_transaction v
          then Err (InvalidBoundaryCondition ''Semantic event occurring outside active envelope'')
          else Ok v)"

text \<open>
  \<open>self.expected_sequence += 1\<close> is the addition of \<open>u64\<close>: it wraps at \<open>2^64\<close>, as
  it does in a release build (a debug build panics there).
\<close>

definition validate_and_advance ::
    "cse_validator \<Rightarrow> cse_event \<Rightarrow> (cse_validator, validation_error) result" where
  "validate_and_advance v e =
     bind_res (validate e) (\<lambda>_.
       if seq_of e \<noteq> expected_sequence v
       then Err (SequenceBreakage (expected_sequence v) (seq_of e))
       else bind_res (check_boundary v (payload e)) (\<lambda>v'.
         Ok (v'\<lparr>expected_sequence := expected_sequence v' + 1\<rparr>)))"

text \<open>A stream is validated event by event, stopping at the first error.\<close>

definition validate_stream ::
    "cse_validator \<Rightarrow> cse_event list \<Rightarrow> (cse_validator, validation_error) result" where
  "validate_stream v es = fold_res validate_and_advance v es"

section \<open>The step, as a conjunction of its three checks\<close>

lemma check_boundary_Ok:
  "check_boundary v pl = Ok v' \<longleftrightarrow>
     envelope_step (in_transaction v) (boundary pl) (in_transaction v')
       \<and> expected_sequence v' = expected_sequence v"
  by (cases pl) (auto simp: check_boundary_def)

lemma check_boundary_expected: "check_boundary v pl = Ok v' \<Longrightarrow> expected_sequence v' = expected_sequence v"
  by (simp add: check_boundary_Ok)

lemma validate_and_advance_Ok:
  "validate_and_advance v e = Ok v' \<longleftrightarrow>
     payload_meaningful (payload e)
       \<and> seq_of e = expected_sequence v
       \<and> envelope_step (in_transaction v) (event_boundary e) (in_transaction v')
       \<and> expected_sequence v' = expected_sequence v + 1"
proof -
  have "(\<exists>w. check_boundary v (payload e) = Ok w \<and> w\<lparr>expected_sequence := expected_sequence w + 1\<rparr> = v')
    \<longleftrightarrow> envelope_step (in_transaction v) (event_boundary e) (in_transaction v')
       \<and> expected_sequence v' = expected_sequence v + 1"
    by (auto simp: check_boundary_Ok intro!: exI [of _ "v'\<lparr>expected_sequence := expected_sequence v\<rparr>"])
  then show ?thesis
    by (auto simp: validate_and_advance_def validate_payload_Ok split: if_splits)
qed

interpretation validator: envelope_checker validate_and_advance in_transaction event_boundary
  by unfold_locales (simp add: validate_and_advance_Ok)

text \<open>
  What an accepted stream is: every payload is meaningful, the sequence numbers count
  up from the expected one, and the envelope runs.
\<close>

lemma validate_stream_Ok:
  "validate_stream v es = Ok v' \<longleftrightarrow>
     list_all (\<lambda>e. payload_meaningful (payload e)) es
       \<and> (\<forall>i < length es. seq_of (es ! i) = expected_sequence v + of_nat i)
       \<and> envelope_run (in_transaction v) (map event_boundary es) (in_transaction v')
       \<and> expected_sequence v' = expected_sequence v + of_nat (length es)"
proof (induction es arbitrary: v)
  case Nil
  show ?case by (auto simp: validate_stream_def)
next
  case (Cons e es)
  have "validate_stream v (e # es) = Ok v' \<longleftrightarrow>
      (\<exists>w. validate_and_advance v e = Ok w \<and> validate_stream w es = Ok v')"
    by (simp add: validate_stream_def)
  also have "\<dots> \<longleftrightarrow> payload_meaningful (payload e) \<and> seq_of e = expected_sequence v \<and>
      list_all (\<lambda>e. payload_meaningful (payload e)) es \<and>
      (\<forall>i < length es. seq_of (es ! i) = expected_sequence v + 1 + of_nat i) \<and>
      (\<exists>b. envelope_step (in_transaction v) (event_boundary e) b \<and>
        envelope_run b (map event_boundary es) (in_transaction v')) \<and>
      expected_sequence v' = expected_sequence v + 1 + of_nat (length es)"
    (is "?l \<longleftrightarrow> ?r")
  proof
    assume ?r
    then obtain b where "envelope_step (in_transaction v) (event_boundary e) b"
      "envelope_run b (map event_boundary es) (in_transaction v')" by blast
    with \<open>?r\<close> show ?l
      by (intro exI [of _ "\<lparr>expected_sequence = expected_sequence v + 1, in_transaction = b\<rparr>"])
        (simp add: validate_and_advance_Ok Cons.IH)
  qed (auto simp: validate_and_advance_Ok Cons.IH)
  finally show ?case
    by (auto simp: All_less_Suc2 add.assoc)
qed

section \<open>Properties\<close>

text \<open>
  C18: the validator accepts a stream exactly when every payload is meaningful (no no-op
  balance or storage change, no deployment at the null address), the sequence numbers
  count up from the expected one without a gap, and the transaction envelope runs; it
  then expects the number after the last one.
\<close>

theorem validator_accepts_exactly:
  "validate_stream v es = Ok v' \<longleftrightarrow>
     list_all (\<lambda>e. payload_meaningful (payload e)) es
       \<and> map seq_of es = map (\<lambda>i. expected_sequence v + of_nat i) [0..<length es]
       \<and> envelope_run (in_transaction v) (map event_boundary es) (in_transaction v')
       \<and> expected_sequence v' = expected_sequence v + of_nat (length es)"
proof -
  have "map seq_of es = map (\<lambda>i. expected_sequence v + of_nat i) [0..<length es]
      \<longleftrightarrow> (\<forall>i < length es. seq_of (es ! i) = expected_sequence v + of_nat i)"
    by (subst list_eq_iff_nth_eq) (simp cong: conj_cong)
  then show ?thesis by (simp only: validate_stream_Ok)
qed

end
