(* ===== verification/Isolation.thy ===== *)
theory Isolation
  imports Reduce
begin

text \<open>
  Diagnostic isolation: the trace context of an event (\<open>call_frame_id\<close>, \<open>call_depth\<close>,
  \<open>runtime/cse/src/context.rs\<close>) is informational.  Here two runs of the builder are
  compared, one on a stream and one on the same stream with other trace contexts.
\<close>

section \<open>The two runs\<close>

definition retrace :: "(cse_event \<Rightarrow> trace_context) \<Rightarrow> cse_event \<Rightarrow> cse_event" where
  "retrace f e = e\<lparr>event_context := (event_context e)\<lparr>trace := f e\<rparr>\<rparr>"

lemma retrace_simps [simp]:
  "payload (retrace f e) = payload e" "seq_of (retrace f e) = seq_of e"
  "provisional (event_context (retrace f e)) = provisional (event_context e)"
  by (simp_all add: retrace_def)

text \<open>
  Buckets that agree in everything but the provenance of lifecycle observations, which
  repeats the trace context.
\<close>

definition same_observation :: "observed_lifecycle \<Rightarrow> observed_lifecycle \<Rightarrow> bool" where
  "same_observation x y \<longleftrightarrow> lifecycle_payload x = lifecycle_payload y \<and> ol_event_id x = ol_event_id y
     \<and> trace_ordinal (ol_provenance x) = trace_ordinal (ol_provenance y)"

definition same_lives ::
    "(address, observed_lifecycle list) btree_map \<Rightarrow> (address, observed_lifecycle list) btree_map \<Rightarrow> bool" where
  "same_lives t u \<longleftrightarrow> (\<forall>a. rel_option (list_all2 same_observation) (bt_get t a) (bt_get u a))"

definition same_raw :: "transaction_bucket \<Rightarrow> transaction_bucket \<Rightarrow> bool" where
  "same_raw b c \<longleftrightarrow> metadata b = metadata c \<and> state_tables b = state_tables c \<and> log_table b = log_table c
     \<and> gas_refund_timeline b = gas_refund_timeline c \<and> same_lives (lifecycle_table b) (lifecycle_table c)"

definition same_reduced :: "reduced_bucket \<Rightarrow> reduced_bucket \<Rightarrow> bool" where
  "same_reduced b c \<longleftrightarrow> rb_metadata b = rb_metadata c \<and> state_table b = state_table c
     \<and> rb_log_table b = rb_log_table c \<and> gas_refund b = gas_refund c
     \<and> same_lives (rb_lifecycle_table b) (rb_lifecycle_table c)"

lemma same_lives_push:
  assumes "same_lives t u" and "same_observation x y"
  shows "same_lives (bt_entry a [] (\<lambda>v. v @ [x]) t) (bt_entry a [] (\<lambda>v. v @ [y]) u)"
proof -
  have "rel_option (list_all2 same_observation) (bt_get t a) (bt_get u a)"
    using assms(1) by (simp add: same_lives_def)
  then have "list_all2 same_observation (case bt_get t a of Some v \<Rightarrow> v | None \<Rightarrow> [])
      (case bt_get u a of Some v \<Rightarrow> v | None \<Rightarrow> [])"
    by (auto simp: rel_option_iff split: option.splits)
  then show ?thesis
    using assms by (simp add: same_lives_def list_all2_appendI)
qed

lemma new_bucket_retrace: "same_raw (new_bucket (event_context e)) (new_bucket (event_context (retrace f e)))"
  by (simp add: same_raw_def same_lives_def new_bucket_def)

lemma record_payload_retrace:
  assumes "same_raw b c"
  shows "rel_res same_raw (record_payload (event_context e) i pl b)
    (record_payload (event_context (retrace f e)) i pl c)"
  using assms
  by (cases pl) (auto simp: same_raw_def same_observation_def trace_provenance_from_def retrace_def
      intro!: same_lives_push)

abbreviation same_partition :: "partition_state \<Rightarrow> partition_state \<Rightarrow> bool" where
  "same_partition s t \<equiv> list_all2 same_raw (fst s) (fst t) \<and> rel_option same_raw (snd s) (snd t)"

lemma partition_step_retrace:
  assumes "same_partition s t"
  shows "rel_res same_partition (partition_step s e) (partition_step t (retrace f e))"
proof -
  obtain ds c where s: "s = (ds, c)" by force
  obtain ds' c' where t: "t = (ds', c')" by force
  have rel: "list_all2 same_raw ds ds'" "rel_option same_raw c c'" using assms by (simp_all add: s t)
  show ?thesis
  proof (cases "event_boundary e")
    case Inside
    then have retraced: "event_boundary (retrace f e) = Inside" by simp
    show ?thesis
      unfolding s t partition_step_inside [OF Inside] partition_step_inside [OF retraced]
      using rel by (cases c; cases c') (auto intro!: rel_res_bind2 [OF record_payload_retrace])
  next
    case Opens
    then have "payload e = BeginTransaction" by (cases "payload e") auto
    then show ?thesis
      unfolding s t using rel by (cases c; cases c') (simp_all add: partition_step.simps new_bucket_retrace)
  next
    case Closes
    then have "payload e = EndTransaction" by (cases "payload e") auto
    then show ?thesis
      unfolding s t using rel
      by (cases c; cases c') (simp_all add: partition_step.simps list_all2_appendI)
  qed
qed

lemma reduce_bucket_retrace: "same_raw b c \<Longrightarrow> rel_res same_reduced (reduce_bucket b) (reduce_bucket c)"
  unfolding reduce_bucket_def same_raw_def
  by (auto intro!: rel_res_bind2 [where R = "(=)"] simp: same_reduced_def rel_res_refl)

lemma partition_retrace:
  "rel_res (\<lambda>r r'. list_all2 same_raw (raw_buckets r) (raw_buckets r'))
     (partition_events es) (partition_events (map (retrace f) es))"
proof -
  have "rel_res same_partition (fold_res partition_step ([], None) es)
      (fold_res partition_step ([], None) (map (retrace f) es))"
    by (rule fold_res_rel2 [where S = "\<lambda>e e'. e' = retrace f e"])
      (auto simp: partition_step_retrace list.rel_map list.rel_refl simp del: partition_step.simps)
  then show ?thesis
    unfolding partition_events_def
    by (rule rel_res_bind2) (auto simp: rel_option_iff split: option.splits prod.splits)
qed

section \<open>The reduced buckets\<close>

abbreviation same_ir :: "reduced_ir \<Rightarrow> reduced_ir \<Rightarrow> bool" where
  "same_ir r r' \<equiv> list_all2 same_reduced (reduced_buckets r) (reduced_buckets r')"

text \<open>
  The trace context is diagnostic only.  Replacing the call frame and depth of every
  event, in whatever way, changes neither the success nor the error of the first two
  builder stages, nor any table, log, refund or metadata they produce; lifecycle
  observations keep their payload, event and ordinal.
\<close>

lemma build_reduced_retrace:
  "rel_res same_ir (build_reduced es) (build_reduced (map (retrace f) es))"
  unfolding build_reduced_def
proof (rule rel_res_bind2 [OF partition_retrace])
  fix r r' :: raw_ir
  assume "list_all2 same_raw (raw_buckets r) (raw_buckets r')"
  then have "rel_res (list_all2 same_reduced) (collect_res reduce_bucket (raw_buckets r))
      (collect_res reduce_bucket (raw_buckets r'))"
    by (rule collect_res_rel [where S = same_raw, rotated]) (rule reduce_bucket_retrace)
  then show "rel_res same_ir (reduce_timelines r) (reduce_timelines r')"
    unfolding reduce_timelines_def by (rule rel_res_bind2) simp
qed

end
