(* ===== verification/Ssz.thy ===== *)
theory Ssz
  imports Merkle Sample
begin

text \<open>
  \<open>runtime/ssz/src/lib.rs\<close>: the two SSZ containers \<open>CanonicalEventSummary\<close> (68
  bytes) and \<open>EpochStateSnapshot\<close> (12 header bytes and a list of summaries), their
  wire encoding, and the Merkle Profile MP1 (\<open>chunkify\<close>, \<open>hash_pair\<close>,
  \<open>merkleize\<close>, \<open>ssr_root\<close>).
\<close>

section \<open>Containers and their encoding\<close>

definition MAX_EVENT_SUMMARIES :: nat where
  "MAX_EVENT_SUMMARIES = 16384"

datatype ssz_error =
    ListTooLong nat nat \<comment> \<open>max, actual\<close>
  | UnresolvedStorageRoot

record event_summary =
  block_timestamp :: u64
  sequence_nonce :: u64
  actor_address :: address
  payload_digest :: b32

definition SUMMARY_ENCODED_LEN :: nat where
  "SUMMARY_ENCODED_LEN = 8 + 8 + 20 + 32"

definition encode_summary :: "event_summary \<Rightarrow> u8 list" where
  "encode_summary s =
     u64_to_le_bytes (block_timestamp s) @ u64_to_le_bytes (sequence_nonce s)
       @ as_slice (actor_address s) @ as_slice (payload_digest s)"

record epoch_snapshot =
  epoch_index :: u64
  event_summaries :: "event_summary list"

definition FIXED_HEADER_LEN :: nat where
  "FIXED_HEADER_LEN = 8 + 4"

definition encode_snapshot :: "epoch_snapshot \<Rightarrow> (u8 list, ssz_error) result" where
  "encode_snapshot s =
     (if length (event_summaries s) > MAX_EVENT_SUMMARIES
      then Err (ListTooLong MAX_EVENT_SUMMARIES (length (event_summaries s)))
      else Ok (u64_to_le_bytes (epoch_index s) @ u32_to_le_bytes (of_nat FIXED_HEADER_LEN)
             @ concat (map encode_summary (event_summaries s))))"

lemma length_encode_summary [simp, codec_simps]: "length (encode_summary s) = 68"
  by (simp add: encode_summary_def)

lemma length_concat_summaries [simp]: "length (concat (map encode_summary ss)) = 68 * length ss"
  by (induction ss) auto

section \<open>Merkle Profile MP1\<close>

text \<open>
  \<open>chunkify\<close>: the loop over \<open>i = 0, 32, ..\<close>, on the rest of the bytes; the last chunk
  is padded with zeros on the right.
\<close>

function chunk_loop :: "u8 list \<Rightarrow> b32 list" where
  "chunk_loop bytes =
     (if bytes = [] then [] else arr_of (take 32 bytes) # chunk_loop (drop 32 bytes))"
  by pat_completeness auto
termination
  by (relation "measure length") auto

declare chunk_loop.simps [simp del]

definition chunkify :: "u8 list \<Rightarrow> b32 list" where
  "chunkify bytes = (if bytes = [] then [arr_fill 0] else chunk_loop bytes)"

definition hash_pair :: "hash_fn \<Rightarrow> b32 \<Rightarrow> b32 \<Rightarrow> b32" where
  "hash_pair blake3 left right =
     to_bytes (derive_commitment blake3 SsrRoot (as_slice left @ as_slice right))"

definition merkleize :: "hash_fn \<Rightarrow> b32 list \<Rightarrow> (b32, 'e) result" where
  "merkleize blake3 chunks =
     (let layer = (if chunks = [] then [arr_fill 0] else chunks)
      in fold_layers (hash_pair blake3) (pad_leaves layer))"

definition ssr_root :: "hash_fn \<Rightarrow> u8 list \<Rightarrow> (b32, 'e) result" where
  "ssr_root blake3 serialized_bytes = merkleize blake3 (chunkify serialized_bytes)"

interpretation mp1: merkle_profile "hash_pair blake3" "merkleize blake3" for blake3
  by unfold_locales (simp_all add: merkleize_def)

section \<open>Chunks determine the bytes, up to the final padding\<close>

lemma chunk_loop_bytes:
  "\<exists>n < 32. concat (map as_slice (chunk_loop bytes)) = bytes @ replicate n 0"
proof (induction bytes rule: chunk_loop.induct)
  case (1 bytes)
  show ?case
  proof (cases "bytes = []")
    case True
    then show ?thesis by (intro exI [of _ 0]) (simp add: chunk_loop.simps)
  next
    case False
    then obtain n where n: "n < 32"
      "concat (map as_slice (chunk_loop (drop 32 bytes))) = drop 32 bytes @ replicate n 0"
      using "1.IH" by blast
    show ?thesis
    proof (cases "32 \<le> length bytes")
      case True
      with n False show ?thesis
        by (subst chunk_loop.simps) (auto intro!: exI [of _ n])
    next
      case short: False
      then have "chunk_loop (drop 32 bytes) = []" by (simp add: chunk_loop.simps)
      with short False show ?thesis
        by (subst chunk_loop.simps)
          (auto simp: as_slice_arr_of_raw intro!: exI [of _ "32 - length bytes"])
    qed
  qed
qed

lemma chunk_count_step: "0 < n \<Longrightarrow> Suc ((n - 32 + 31) div 32) = (n + 31) div (32 :: nat)"
proof (cases "n \<le> 32")
  case True
  moreover assume "0 < n"
  ultimately have "(n + 31) div 32 = 1" by (intro div_nat_eqI) auto
  with True show ?thesis by simp
next
  case False
  then have "n + 31 = (n - 32 + 31) + 32" by simp
  then show ?thesis by (simp only: div_add_self2)
qed

lemma length_chunk_loop: "length (chunk_loop bytes) = (length bytes + 31) div 32"
proof (induction bytes rule: chunk_loop.induct)
  case (1 bytes)
  show ?case
  proof (cases "bytes = []")
    case False
    then have "length bytes > 0" by simp
    with 1 False show ?thesis by (subst chunk_loop.simps) (simp add: chunk_count_step)
  qed (simp add: chunk_loop.simps)
qed

lemma length_chunkify: "length (chunkify bytes) = max 1 ((length bytes + 31) div 32)"
  by (auto simp: chunkify_def length_chunk_loop max_def Suc_le_eq div_greater_zero_iff)

lemma chunkify_prefix: "take (length bytes) (concat (map as_slice (chunkify bytes))) = bytes"
  using chunk_loop_bytes [of bytes] by (auto simp: chunkify_def)

lemma chunkify_inject:
  "length bs = length cs \<Longrightarrow> chunkify bs = chunkify cs \<Longrightarrow> bs = cs"
  by (metis chunkify_prefix)

text \<open>
  The BLAKE3 inputs of a Merkle computation; a collision of the pair hash is a
  collision of BLAKE3 on two of them.
\<close>

definition mp1_inputs :: "hash_fn \<Rightarrow> b32 list \<Rightarrow> u8 list list" where
  "mp1_inputs blake3 chunks =
     map (\<lambda>(l, r). as_bytes SsrRoot @ as_slice l @ as_slice r) (profile_queries (hash_pair blake3) chunks)"

lemma to_bytes_inject [simp]: "to_bytes x = to_bytes y \<longleftrightarrow> x = y"
  by (cases x; cases y) simp

lemma hash_pair_collision:
  "collision (case_prod (hash_pair blake3)) (a, b) (c, d) \<longleftrightarrow>
     collision blake3 (as_bytes SsrRoot @ as_slice a @ as_slice b) (as_bytes SsrRoot @ as_slice c @ as_slice d)"
  by (auto simp: collision_def hash_pair_def derive_commitment_eq_iff)

lemma mp1_inputs_collide:
  "collide_among (case_prod (hash_pair blake3)) (profile_queries (hash_pair blake3) xs)
      (profile_queries (hash_pair blake3) ys)
    \<Longrightarrow> collide_among blake3 (mp1_inputs blake3 xs) (mp1_inputs blake3 ys)"
  by (force simp: collide_among_def mp1_inputs_def hash_pair_collision)

lemma merkleize_total: "\<exists>r. merkleize blake3 chunks = Ok r"
  by (rule mp1.root_total)

lemma ssr_root_total: "\<exists>r. ssr_root blake3 bytes = Ok r"
  by (simp add: ssr_root_def merkleize_total)

lemma merkleize_binding:
  "length xs = length ys \<Longrightarrow> merkleize blake3 xs = (merkleize blake3 ys :: (b32, 'e) result) \<Longrightarrow>
    xs = ys \<or> collide_among blake3 (mp1_inputs blake3 xs) (mp1_inputs blake3 ys)"
  using mp1.root_binding_same_length mp1_inputs_collide by blast

text \<open>Byte strings of one length: the root binds the bytes.\<close>

lemma ssr_root_binding:
  assumes "length bs = length cs" and "ssr_root blake3 bs = (ssr_root blake3 cs :: (b32, 'e) result)"
  shows "bs = cs \<or> collide_among blake3 (mp1_inputs blake3 (chunkify bs)) (mp1_inputs blake3 (chunkify cs))"
proof -
  have "length (chunkify bs) = length (chunkify cs)" using assms(1) by (simp add: length_chunkify)
  from merkleize_binding [OF this assms(2) [unfolded ssr_root_def]] show ?thesis
    using chunkify_inject [OF assms(1)] by blast
qed

text \<open>
  Without a common length it does not: the root carries no length, so zero bytes that
  fill the last chunks up to the padded width leave it unchanged.
\<close>

lemma ssr_root_congruent:
  "profile_leaves (chunkify bs) = profile_leaves (chunkify cs) \<Longrightarrow> ssr_root blake3 bs = ssr_root blake3 cs"
  unfolding ssr_root_def by (rule mp1.root_congruent)

lemma chunkify_padded:
  "concat (map as_slice (chunkify bs)) = bs @ replicate (32 * length (chunkify bs) - length bs) 0"
proof -
  obtain n where n: "concat (map as_slice (chunkify bs)) = bs @ replicate n 0"
    using chunk_loop_bytes [of bs] by (cases "bs = []") (auto simp: chunkify_def)
  have "length (concat (map as_slice cs)) = 32 * length cs" for cs :: "b32 list"
    by (induction cs) auto
  from this [of "chunkify bs"] n have "32 * length (chunkify bs) = length bs + n" by simp
  with n show ?thesis by simp
qed

lemma chunkify_nonempty [simp]: "chunkify bs \<noteq> []"
proof -
  have "1 \<le> length (chunkify bs)" by (simp add: length_chunkify)
  then show ?thesis by auto
qed

lemma leaves_padded:
  "concat (map as_slice (profile_leaves (chunkify bs)))
     = bs @ replicate (32 * profile_width (length (chunkify bs)) - length bs) 0"
proof -
  let ?l = "length (chunkify bs)" and ?w = "profile_width (length (chunkify bs))"
  have zeros: "concat (replicate k (replicate 32 (0 :: u8))) = replicate (32 * k) 0" for k
    by (induction k) (simp_all add: replicate_add [symmetric])
  have "?l \<le> ?w"
    using length_profile_leaves [of "chunkify bs"] profile_leaves_padding [of "chunkify bs"]
    by (metis chunkify_nonempty le_add1 length_append)
  moreover have "length bs \<le> 32 * ?l" using length_chunkify [of bs] by linarith
  ultimately have "32 * ?l - length bs + 32 * (?w - ?l) = 32 * ?w - length bs"
    by (simp add: diff_mult_distrib2)
  then show ?thesis
    by (simp add: profile_leaves_padding chunkify_padded zeros replicate_add [symmetric])
qed

lemma leaves_of_zero_tail:
  assumes "profile_width (length (chunkify (bs @ replicate n 0))) = profile_width (length (chunkify bs))"
    and "length bs + n \<le> 32 * profile_width (length (chunkify bs))"
  shows "profile_leaves (chunkify (bs @ replicate n 0)) = profile_leaves (chunkify bs)"
proof -
  let ?x = "map as_slice (profile_leaves (chunkify (bs @ replicate n 0)))"
  let ?y = "map as_slice (profile_leaves (chunkify bs))"
  have "concat ?x = concat ?y"
    using assms by (simp add: leaves_padded replicate_add [symmetric])
  moreover have "length ?x = length ?y" using assms(1) by (simp add: length_profile_leaves)
  moreover have "\<forall>(x, y) \<in> set (zip ?x ?y). length x = length y"
    by (auto simp: set_zip)
  ultimately have "?x = ?y" by (rule concat_injective)
  moreover have "inj (as_slice :: b32 \<Rightarrow> u8 list)" by (simp add: inj_def as_slice_inject)
  ultimately show ?thesis by (simp add: inj_map_eq_map)
qed

section \<open>Properties\<close>

text \<open>
  C27: the SSR root of a byte string is total (the indexing \<open>pair[1]\<close> and \<open>layer[0]\<close> never
  panics) and is the root of the complete binary tree over the zero-padded chunks.
\<close>

theorem ssr_root_is_tree_root:
  "ssr_root blake3 bs = Ok (tree_root (hash_pair blake3)
     (tree_depth (profile_width (length (chunkify bs)))) (profile_leaves (chunkify bs)))"
  unfolding ssr_root_def by (rule mp1.root_eq_tree)

text \<open>
  C28: the SSR root binds byte strings of one length: equal roots mean equal bytes, or
  two of the strings hashed in the two computations collide under BLAKE3.
\<close>

theorem ssr_root_binds_bytes:
  assumes "length bs = length cs" and "ssr_root blake3 bs = (ssr_root blake3 cs :: (b32, 'e) result)"
  shows "bs = cs \<or> collide_among blake3 (mp1_inputs blake3 (chunkify bs)) (mp1_inputs blake3 (chunkify cs))"
  using assms by (rule ssr_root_binding)

theorem ssr_root_binds_bytes_witness:
  "collide_among zero_hash (mp1_inputs zero_hash (chunkify (replicate 33 1)))
     (mp1_inputs zero_hash (chunkify (replicate 33 2)))"
proof -
  have "ssr_root zero_hash (replicate 33 1)
      = (ssr_root zero_hash (replicate 33 2) :: (b32, ssz_error) result)"
    by code_simp
  then show ?thesis
    using ssr_root_binds_bytes [where 'e = ssz_error,
        of "replicate 33 1" "replicate 33 2" zero_hash] by auto
qed

text \<open>The summary whose fields are all zero; its encoding is 68 zero bytes.\<close>

definition zero_summary :: event_summary where
  "zero_summary = \<lparr>block_timestamp = 0, sequence_nonce = 0, actor_address = arr_fill 0, payload_digest = arr_fill 0\<rparr>"

lemma encode_zero_summary: "encode_summary zero_summary = replicate 68 0"
  by code_simp

text \<open>
  The SSR root does not bind the length.  Whatever two summaries a snapshot holds,
  appending a third one that is all zero gives a different encoding with the same root,
  for every hash function: the root has no length in it, and the zero bytes only fill
  chunks that padding fills anyway.
\<close>

lemma ssr_root_omits_length:
  "\<exists>bs cs. encode_snapshot \<lparr>epoch_index = e, event_summaries = [a, b]\<rparr> = Ok bs
     \<and> encode_snapshot \<lparr>epoch_index = e, event_summaries = [a, b, zero_summary]\<rparr> = Ok cs
     \<and> bs \<noteq> cs \<and> ssr_root blake3 bs = ssr_root blake3 cs"
proof -
  define bs where "bs = u64_to_le_bytes e @ u32_to_le_bytes (of_nat FIXED_HEADER_LEN)
    @ encode_summary a @ encode_summary b"
  have len: "length bs = 148" by (simp add: bs_def)
  have width: "profile_width 5 = 8" "profile_width 7 = 8" by code_simp+
  have "profile_leaves (chunkify (bs @ replicate 68 0)) = profile_leaves (chunkify bs)"
    by (rule leaves_of_zero_tail) (simp_all add: length_chunkify len width)
  then have "ssr_root blake3 bs = ssr_root blake3 (bs @ replicate 68 0)"
    by (rule ssr_root_congruent [OF sym])
  moreover have "encode_snapshot \<lparr>epoch_index = e, event_summaries = [a, b]\<rparr> = Ok bs"
    "encode_snapshot \<lparr>epoch_index = e, event_summaries = [a, b, zero_summary]\<rparr> = Ok (bs @ replicate 68 0)"
    by (simp_all add: encode_snapshot_def bs_def MAX_EVENT_SUMMARIES_def encode_zero_summary)
  ultimately show ?thesis by (intro exI [of _ bs] exI [of _ "bs @ replicate 68 0"]) simp
qed

lemma length_pad_leaves: "xs \<noteq> [] \<Longrightarrow> length (pad_leaves xs) = profile_width (length xs)"
  using length_profile_leaves [of xs] by (simp add: profile_leaves_def)

text \<open>
  C32: the size of the computation.  An encoded snapshot has 12 bytes and 68 for each
  summary, at most 1114124 in all; it makes at most 34817 chunks, the padding less than
  doubles them and ends at most at 65536 leaves, and the root takes one hash less than
  there are leaves.  So no length, offset or padded width comes near its machine word.
\<close>

theorem snapshot_root_bounds:
  assumes "encode_snapshot s = Ok bytes"
  shows "length bytes = 12 + 68 * length (event_summaries s) \<and> length bytes \<le> 1114124
    \<and> length (chunkify bytes) \<le> 34817
    \<and> length (pad_leaves (chunkify bytes)) < 2 * length (chunkify bytes)
    \<and> length (pad_leaves (chunkify bytes)) \<le> 65536
    \<and> length (mp1_inputs blake3 (chunkify bytes)) = length (pad_leaves (chunkify bytes)) - 1"
proof -
  let ?chunks = "chunkify bytes"
  have few: "length (event_summaries s) \<le> 16384" and len: "length bytes = 12 + 68 * length (event_summaries s)"
    using assms by (auto simp: encode_snapshot_def MAX_EVENT_SUMMARIES_def split: if_splits)
  have chunks: "length ?chunks \<le> 34817" "0 < length ?chunks"
    using few by (simp_all add: length_chunkify len)
  have padded: "length (pad_leaves ?chunks) = pad_size 1 (length ?chunks)"
    using chunks(2) by (simp add: length_pad_leaves profile_width_def max_def Suc_leI)
  have "pad_size 1 (length ?chunks) \<le> 2 ^ 16"
    by (rule pad_size_le_pow2 [where i = 0]) (use chunks(1) in simp_all)
  moreover have "pad_size 1 (length ?chunks) < 2 * length ?chunks"
  proof (cases "1 < length ?chunks")
    case True
    then show ?thesis by (intro pad_size_less) simp_all
  next
    case False
    then have "length ?chunks = 1" using chunks(2) by linarith
    then show ?thesis by simp
  qed
  ultimately show ?thesis
    using few chunks by (simp add: len padded mp1_inputs_def length_profile_queries length_pad_leaves [symmetric])
qed

theorem snapshot_root_bounds_witness:
  "\<exists>bytes. encode_snapshot \<lparr>epoch_index = 7, event_summaries = replicate 3 zero_summary\<rparr> = Ok bytes
     \<and> length bytes = 216 \<and> length (pad_leaves (chunkify bytes)) \<le> 65536"
proof -
  obtain bytes where bytes: "encode_snapshot \<lparr>epoch_index = 7, event_summaries = replicate 3 zero_summary\<rparr> = Ok bytes"
    by (simp add: encode_snapshot_def MAX_EVENT_SUMMARIES_def)
  from snapshot_root_bounds [OF bytes] bytes show ?thesis by auto
qed

end
