(* ===== verification/Codec.thy ===== *)
theory Codec
  imports Ssz
begin

text \<open>
  \<open>runtime/ssz/src/decode.rs\<close>: the decoders of the two SSZ containers, and the
  contract of a canonical codec.  The contract says that encoding and decoding are
  inverse in both directions; from it follow that no two byte strings decode to one
  value (the reason the decoders reject trailing bytes) and that no two values share
  an encoding.
\<close>

section \<open>The contract\<close>

locale codec =
  fixes encode :: "'a \<Rightarrow> (u8 list, 'e) result"
    and decode :: "u8 list \<Rightarrow> ('a, 'd) result"
  assumes decode_encode: "encode x = Ok bs \<Longrightarrow> decode bs = Ok x"
    and encode_decode: "decode bs = Ok x \<Longrightarrow> encode x = Ok bs"
begin

lemma decode_iff: "decode bs = Ok x \<longleftrightarrow> encode x = Ok bs"
  using decode_encode encode_decode by blast

lemma decode_unique: "decode bs = Ok x \<Longrightarrow> decode cs = Ok x \<Longrightarrow> bs = cs"
  by (simp add: decode_iff)

lemma encode_unique: "encode x = Ok bs \<Longrightarrow> encode y = Ok bs \<Longrightarrow> x = y"
  by (metis decode_encode result.inject(1))

end

section \<open>The decoders\<close>

datatype ssz_decode_error =
    Truncated nat nat \<comment> \<open>expected at least, actual\<close>
  | TrailingBytes nat nat \<comment> \<open>consumed, actual\<close>
  | InvalidOffset u32 u32 \<comment> \<open>expected, found\<close>
  | MisalignedList nat nat \<comment> \<open>body length, element length\<close>
  | DecodeListTooLong nat nat \<comment> \<open>max, actual\<close>

text \<open>\<open>&bytes[a..b]\<close>; every use is behind a check of the total length.\<close>

definition slice :: "nat \<Rightarrow> nat \<Rightarrow> 'a list \<Rightarrow> 'a list" where
  "slice a b xs = take (b - a) (drop a xs)"

definition read_u64_le :: "u8 list \<Rightarrow> u64" where
  "read_u64_le bytes = u64_from_le_bytes (take 8 bytes)"

definition read_u32_le :: "u8 list \<Rightarrow> u32" where
  "read_u32_le bytes = u32_from_le_bytes (take 4 bytes)"

definition decode_summary :: "u8 list \<Rightarrow> (event_summary, ssz_decode_error) result" where
  "decode_summary bytes =
     (if length bytes < SUMMARY_ENCODED_LEN
      then Err (Truncated SUMMARY_ENCODED_LEN (length bytes))
      else if length bytes > SUMMARY_ENCODED_LEN
      then Err (TrailingBytes SUMMARY_ENCODED_LEN (length bytes))
      else Ok \<lparr>block_timestamp = read_u64_le (slice 0 8 bytes),
               sequence_nonce = read_u64_le (slice 8 16 bytes),
               actor_address = arr_of (slice 16 36 bytes),
               payload_digest = arr_of (slice 36 68 bytes)\<rparr>)"

text \<open>\<open>slice::chunks_exact(n)\<close>: the full chunks; a shorter rest is left out.\<close>

function chunks_exact :: "nat \<Rightarrow> 'a list \<Rightarrow> 'a list list" where
  "chunks_exact n xs =
     (if n = 0 \<or> length xs < n then [] else take n xs # chunks_exact n (drop n xs))"
  by pat_completeness auto
termination
  by (relation "measure (\<lambda>(n, xs). length xs)") auto

declare chunks_exact.simps [simp del]

definition decode_snapshot :: "u8 list \<Rightarrow> (epoch_snapshot, ssz_decode_error) result" where
  "decode_snapshot bytes =
     (if length bytes < FIXED_HEADER_LEN
      then Err (Truncated FIXED_HEADER_LEN (length bytes))
      else
        let epoch_index = read_u64_le (slice 0 8 bytes);
            offset = read_u32_le (slice 8 12 bytes)
        in if offset \<noteq> of_nat FIXED_HEADER_LEN
           then Err (InvalidOffset (of_nat FIXED_HEADER_LEN) offset)
           else
             let body = drop FIXED_HEADER_LEN bytes;
                 elem = SUMMARY_ENCODED_LEN
             in if length body mod elem \<noteq> 0
                then Err (MisalignedList (length body) elem)
                else
                  let count = length body div elem
                  in if count > MAX_EVENT_SUMMARIES
                     then Err (DecodeListTooLong MAX_EVENT_SUMMARIES count)
                     else bind_res (collect_res decode_summary (chunks_exact elem body)) (\<lambda>ss.
                       Ok \<lparr>epoch_index = epoch_index, event_summaries = ss\<rparr>))"

section \<open>Slices of a concatenation\<close>

lemma length_slice [simp, codec_simps]: "length (slice a b xs) = min (b - a) (length xs - a)"
  by (simp add: slice_def)

lemma slice_0 [codec_simps]: "slice 0 n xs = take n xs"
  by (simp add: slice_def)

text \<open>A string is the concatenation of adjacent slices.\<close>

lemma slice_append_slice: "a \<le> b \<Longrightarrow> b \<le> c \<Longrightarrow> slice a b xs @ slice b c xs = slice a c xs"
  unfolding slice_def using take_add [of "b - a" "c - b" "drop a xs"] by simp

lemma slice_all: "length xs = n \<Longrightarrow> slice 0 n xs = xs"
  by (simp add: slice_def)

text \<open>Cutting a concatenation at the borders of its parts.\<close>

lemma slice_append_left: "length xs \<le> a \<Longrightarrow> slice a b (xs @ ys) = slice (a - length xs) (b - length xs) ys"
  by (simp add: slice_def)

lemma slice_append_right: "b \<le> length xs \<Longrightarrow> slice a b (xs @ ys) = slice a b xs"
  by (cases "a \<le> b") (auto simp: slice_def)

section \<open>The summary codec\<close>

text \<open>The encoder of a summary cannot fail; \<open>Ok\<close> gives it the contract's type.\<close>

interpretation summary: codec "\<lambda>s. Ok (encode_summary s) :: (u8 list, ssz_error) result" decode_summary
proof unfold_locales
  fix s and bs :: "u8 list"
  assume "(Ok (encode_summary s) :: (u8 list, ssz_error) result) = Ok bs"
  then show "decode_summary bs = Ok s"
    by (cases s)
      (auto simp: decode_summary_def SUMMARY_ENCODED_LEN_def encode_summary_def read_u64_le_def
        slice_append_left slice_append_right slice_all)
next
  fix bs s
  assume "decode_summary bs = Ok s"
  then have len: "length bs = 68" and s: "s = \<lparr>block_timestamp = read_u64_le (slice 0 8 bs),
      sequence_nonce = read_u64_le (slice 8 16 bs), actor_address = arr_of (slice 16 36 bs),
      payload_digest = arr_of (slice 36 68 bs)\<rparr>"
    by (auto simp: decode_summary_def SUMMARY_ENCODED_LEN_def split: if_splits)
  have "encode_summary s = slice 0 8 bs @ slice 8 16 bs @ slice 16 36 bs @ slice 36 68 bs"
    by (simp add: s encode_summary_def read_u64_le_def len)
  also have "\<dots> = bs"
    using len by (simp add: slice_append_slice slice_all)
  finally show "(Ok (encode_summary s) :: (u8 list, ssz_error) result) = Ok bs" by simp
qed

lemma decode_summary_iff [codec_simps]: "decode_summary bs = Ok s \<longleftrightarrow> bs = encode_summary s"
  using summary.decode_iff by auto

section \<open>The snapshot codec\<close>

lemma chunks_exact_concat:
  "0 < n \<Longrightarrow> (\<forall>ys \<in> set yss. length ys = n) \<Longrightarrow> chunks_exact n (concat yss) = yss"
  by (induction yss) (simp_all add: chunks_exact.simps)

lemma concat_chunks_exact: "0 < n \<Longrightarrow> n dvd length xs \<Longrightarrow> concat (chunks_exact n xs) = xs"
proof (induction n xs rule: chunks_exact.induct)
  case (1 n xs)
  show ?case
  proof (cases "length xs < n")
    case True
    with 1 have "xs = []" by (auto dest: dvd_imp_le)
    then show ?thesis using "1.prems" by (simp add: chunks_exact.simps)
  next
    case False
    with 1 have "concat (chunks_exact n (drop n xs)) = drop n xs"
      by (auto simp: dvd_diff_nat)
    with False "1.prems" show ?thesis by (subst chunks_exact.simps) simp
  qed
qed

lemma collect_decode_summaries:
  "collect_res decode_summary bss = Ok ss \<longleftrightarrow> bss = map encode_summary ss"
  unfolding collect_res_eq_Ok
  by (induction bss arbitrary: ss) (auto simp: list_all2_Cons1 decode_summary_iff)


interpretation snapshot: codec encode_snapshot decode_snapshot
proof unfold_locales
  fix s and bs :: "u8 list"
  assume "encode_snapshot s = Ok bs"
  then have n: "length (event_summaries s) \<le> MAX_EVENT_SUMMARIES"
    and bs: "bs = u64_to_le_bytes (epoch_index s) @ u32_to_le_bytes (of_nat FIXED_HEADER_LEN)
      @ concat (map encode_summary (event_summaries s))"
    by (auto simp: encode_snapshot_def split: if_splits)
  have "chunks_exact 68 (concat (map encode_summary (event_summaries s)))
      = map encode_summary (event_summaries s)"
    by (rule chunks_exact_concat) auto
  with n show "decode_snapshot bs = Ok s"
    by (auto simp: bs decode_snapshot_def FIXED_HEADER_LEN_def SUMMARY_ENCODED_LEN_def Let_def
        read_u64_le_def read_u32_le_def slice_append_left slice_append_right slice_all
        collect_decode_summaries)
next
  fix bs s
  assume "decode_snapshot bs = Ok s"
  then have len: "12 \<le> length bs" and off: "read_u32_le (slice 8 12 bs) = 12"
    and dvd: "68 dvd length (drop 12 bs)" and cnt: "length (drop 12 bs) div 68 \<le> MAX_EVENT_SUMMARIES"
    and ep: "epoch_index s = read_u64_le (slice 0 8 bs)"
    and ss: "chunks_exact 68 (drop 12 bs) = map encode_summary (event_summaries s)"
    by (auto simp: decode_snapshot_def FIXED_HEADER_LEN_def SUMMARY_ENCODED_LEN_def Let_def
        collect_decode_summaries dvd_eq_mod_eq_0 split: if_splits)
  have body: "concat (map encode_summary (event_summaries s)) = drop 12 bs"
    using concat_chunks_exact [OF _ dvd] ss by simp
  have "length (event_summaries s) = length (drop 12 bs) div 68"
    unfolding body [symmetric] by simp
  then have "length (event_summaries s) \<le> MAX_EVENT_SUMMARIES" using cnt by simp
  moreover have "u32_to_le_bytes 12 = slice 8 12 bs"
    using len arg_cong [OF off, of u32_to_le_bytes] by (simp add: read_u32_le_def)
  moreover have "slice 0 8 bs @ slice 8 12 bs @ drop 12 bs = bs"
    using len slice_append_slice [of 0 8 12 bs] by (simp add: slice_0 flip: append_assoc)
  ultimately show "encode_snapshot s = Ok bs"
    using len by (auto simp: encode_snapshot_def FIXED_HEADER_LEN_def ep body read_u64_le_def)
qed

lemma decode_summary_no_Panic: "decode_summary bs \<noteq> Panic"
  by (simp add: decode_summary_def)

lemma decode_snapshot_no_Panic: "decode_snapshot bs \<noteq> Panic"
proof -
  have "collect_res decode_summary xs \<noteq> Panic" for xs
    by (rule collect_res_no_Panic) (rule decode_summary_no_Panic)
  then show ?thesis by (simp add: decode_snapshot_def Let_def)
qed

section \<open>Properties\<close>

text \<open>
  C21: the snapshot codec is canonical: a byte string decodes to a snapshot exactly when
  it is that snapshot's encoding, so nothing but its encoding decodes to a snapshot, and
  every snapshot the encoder accepts decodes to itself.
\<close>

theorem snapshot_codec_canonical: "decode_snapshot bs = Ok s \<longleftrightarrow> encode_snapshot s = Ok bs"
  by (rule snapshot.decode_iff)

end
