(* ===== verification/Ssz_Certificate.thy ===== *)
theory Ssz_Certificate
  imports Codec Storage_Root
begin

text \<open>
  \<open>runtime/ssz/src/certificate.rs\<close> and the certificate decoder of \<open>decode.rs\<close>: the
  180-byte encoding of a certificate whose storage root is resolved, its commitment and
  the Merkle root over a batch of certificates.
\<close>

section \<open>Encoding and decoding\<close>

definition CERTIFICATE_ENCODED_LEN :: nat where
  "CERTIFICATE_ENCODED_LEN = 20 + 20 + 4 + 32 + 8 + 32 + 32 + 32"

text \<open>The writes at the running offset fill the array from left to right.\<close>

definition encode_certificate :: "certificate \<Rightarrow> (u8 list, ssz_error) result" where
  "encode_certificate c =
     (case ct_storage_root c of
        AwaitingDerivation \<Rightarrow> Err UnresolvedStorageRoot
      | Verified storage_root \<Rightarrow>
          Ok (as_slice (ct_address c)
            @ as_slice (gk_address (vg_key (ct_generation c)))
            @ u32_to_le_bytes (gk_id (vg_key (ct_generation c)))
            @ as_slice (vg_proof_root (ct_generation c))
            @ u64_to_le_bytes (ct_nonce c)
            @ as_slice (ct_balance c)
            @ as_slice (ct_code_hash c)
            @ as_slice storage_root))"

definition decode_certificate :: "u8 list \<Rightarrow> (certificate, ssz_decode_error) result" where
  "decode_certificate bytes =
     (if length bytes < CERTIFICATE_ENCODED_LEN
      then Err (Truncated CERTIFICATE_ENCODED_LEN (length bytes))
      else if length bytes > CERTIFICATE_ENCODED_LEN
      then Err (TrailingBytes CERTIFICATE_ENCODED_LEN (length bytes))
      else Ok \<lparr>ct_address = arr_of (slice 0 20 bytes),
               ct_generation =
                 \<lparr>vg_key = GenerationKey (arr_of (slice 20 40 bytes)) (read_u32_le (slice 40 44 bytes)),
                  vg_proof_root = arr_of (slice 44 76 bytes)\<rparr>,
               ct_nonce = read_u64_le (slice 76 84 bytes),
               ct_balance = arr_of (slice 84 116 bytes),
               ct_code_hash = arr_of (slice 116 148 bytes),
               ct_storage_root = Verified (arr_of (slice 148 180 bytes))\<rparr>)"

definition commit_root :: "hash_fn \<Rightarrow> certificate \<Rightarrow> (digest, ssz_error) result" where
  "commit_root blake3 c =
     bind_res (encode_certificate c) (\<lambda>bytes. Ok (derive_commitment blake3 LifeCert bytes))"

text \<open>The loop over \<open>certificates.values()\<close> stops at the first certificate it cannot encode.\<close>

definition batch_chunks :: "certificate list \<Rightarrow> (b32 list, ssz_error) result" where
  "batch_chunks certs =
     fold_res (\<lambda>chunks c. bind_res (encode_certificate c) (\<lambda>bytes. Ok (chunks @ chunkify bytes))) [] certs"

definition commit_certificate_batch ::
    "hash_fn \<Rightarrow> (address, certificate) btree_map \<Rightarrow> (b32, ssz_error) result" where
  "commit_certificate_batch blake3 certs =
     bind_res (batch_chunks (bt_values certs)) (merkleize blake3)"

section \<open>The codec\<close>

lemma encode_certificate_length: "encode_certificate c = Ok bs \<Longrightarrow> length bs = 180"
  by (auto simp: encode_certificate_def split: storage_root_state.splits)

interpretation cert: codec encode_certificate decode_certificate
proof unfold_locales
  fix c bs
  assume enc: "encode_certificate c = Ok bs"
  then obtain root where root: "ct_storage_root c = Verified root"
    by (auto simp: encode_certificate_def split: storage_root_state.splits)
  obtain a g n where g: "ct_generation c = \<lparr>vg_key = GenerationKey a n, vg_proof_root = g\<rparr>"
    by (metis generation_key.exhaust verified_generation.cases)
  show "decode_certificate bs = Ok c"
    using enc root g
    by (cases c) (auto simp: encode_certificate_def decode_certificate_def CERTIFICATE_ENCODED_LEN_def
        read_u32_le_def read_u64_le_def slice_append_left slice_append_right slice_all)
next
  fix bs c
  assume dec: "decode_certificate bs = Ok c"
  then have len: "length bs = 180"
    by (auto simp: decode_certificate_def CERTIFICATE_ENCODED_LEN_def split: if_splits)
  have "encode_certificate c = Ok (slice 0 20 bs @ slice 20 40 bs @ slice 40 44 bs @ slice 44 76 bs
      @ slice 76 84 bs @ slice 84 116 bs @ slice 116 148 bs @ slice 148 180 bs)"
    using dec len
    by (auto simp: decode_certificate_def encode_certificate_def CERTIFICATE_ENCODED_LEN_def
        read_u32_le_def read_u64_le_def)
  also have "slice 0 20 bs @ slice 20 40 bs @ slice 40 44 bs @ slice 44 76 bs
      @ slice 76 84 bs @ slice 84 116 bs @ slice 116 148 bs @ slice 148 180 bs = bs"
    using len by (simp add: slice_append_slice slice_all)
  finally show "encode_certificate c = Ok bs" .
qed

lemma encode_certificate_ok:
  "is_ok (encode_certificate c) \<longleftrightarrow> ct_storage_root c \<noteq> AwaitingDerivation"
  by (cases "ct_storage_root c") (simp_all add: encode_certificate_def)

lemma encode_certificate_Err: "encode_certificate c = Err e \<longleftrightarrow>
    ct_storage_root c = AwaitingDerivation \<and> e = UnresolvedStorageRoot"
  by (cases "ct_storage_root c") (auto simp: encode_certificate_def)

lemma encode_certificate_no_Panic: "encode_certificate c \<noteq> Panic"
  by (cases "ct_storage_root c") (simp_all add: encode_certificate_def)

text \<open>The bytes of a certificate that has them.\<close>

definition certificate_bytes :: "certificate \<Rightarrow> u8 list" where
  "certificate_bytes c = (case encode_certificate c of Ok bs \<Rightarrow> bs | _ \<Rightarrow> [])"

lemma certificate_bytes:
  "ct_storage_root c \<noteq> AwaitingDerivation \<Longrightarrow> encode_certificate c = Ok (certificate_bytes c)"
  by (cases "ct_storage_root c") (simp_all add: certificate_bytes_def encode_certificate_def)

lemma length_certificate_bytes:
  "ct_storage_root c \<noteq> AwaitingDerivation \<Longrightarrow> length (certificate_bytes c) = 180"
  using certificate_bytes encode_certificate_length by blast

section \<open>Commitments\<close>

lemma commit_root_binding:
  assumes "commit_root blake3 c = Ok x" and "commit_root blake3 d = Ok x"
  shows "c = d \<or> (\<exists>bs cs. encode_certificate c = Ok bs \<and> encode_certificate d = Ok cs
    \<and> collision blake3 (as_bytes LifeCert @ bs) (as_bytes LifeCert @ cs))"
proof -
  obtain bs cs where enc: "encode_certificate c = Ok bs" "encode_certificate d = Ok cs"
    and eq: "derive_commitment blake3 LifeCert bs = derive_commitment blake3 LifeCert cs"
    using assms by (auto simp: commit_root_def)
  from eq consider "bs = cs" | "collision blake3 (as_bytes LifeCert @ bs) (as_bytes LifeCert @ cs)"
    by (auto simp: derive_commitment_eq_iff)
  then show ?thesis
  proof cases
    case 1
    with enc have "c = d" using cert.encode_unique by blast
    then show ?thesis ..
  qed (use enc in blast)
qed

lemma batch_chunks_eq:
  "batch_chunks certs = map_res (\<lambda>bss. concat (map chunkify bss)) (collect_res encode_certificate certs)"
proof -
  have "fold_res (\<lambda>chunks c. bind_res (encode_certificate c) (\<lambda>bytes. Ok (chunks @ chunkify bytes))) acc certs
      = map_res (\<lambda>bss. acc @ concat (map chunkify bss)) (collect_res encode_certificate certs)" for acc
  proof (induction certs arbitrary: acc)
    case (Cons c certs)
    then show ?case
      by (cases "encode_certificate c"; cases "collect_res encode_certificate certs") auto
  qed simp
  then show ?thesis by (simp add: batch_chunks_def)
qed

lemma concat_chunkify_inject:
  "length bss = length css \<Longrightarrow> \<forall>bs \<in> set bss \<union> set css. length bs = 180 \<Longrightarrow>
    concat (map chunkify bss) = concat (map chunkify css) \<Longrightarrow> bss = css"
proof (induction bss css rule: list_induct2)
  case (Cons bs bss cs css)
  then have "length (chunkify bs) = length (chunkify cs)" by (simp add: length_chunkify)
  with Cons have "chunkify bs = chunkify cs" "concat (map chunkify bss) = concat (map chunkify css)"
    by auto
  with Cons show ?case using chunkify_inject [of bs cs] by auto
qed simp

text \<open>The batch is resolved: every certificate has its storage root.\<close>

definition all_resolved :: "(address, certificate) btree_map \<Rightarrow> bool" where
  "all_resolved certs \<longleftrightarrow> list_all (\<lambda>c. ct_storage_root c \<noteq> AwaitingDerivation) (bt_values certs)"

lemma commit_batch_cases:
  "commit_certificate_batch blake3 certs =
     (if all_resolved certs
      then merkleize blake3 (concat (map chunkify (map certificate_bytes (bt_values certs))))
      else Err UnresolvedStorageRoot)"
proof (cases "all_resolved certs")
  case True
  have "collect_res encode_certificate (bt_values certs)
      = Ok (map certificate_bytes (bt_values certs))"
    using True by (intro collect_res_all_Ok) (simp add: all_resolved_def list_all_iff certificate_bytes)
  with True show ?thesis by (simp add: commit_certificate_batch_def batch_chunks_eq)
next
  case False
  have "collect_res encode_certificate (bt_values certs) \<noteq> Panic"
    by (rule collect_res_no_Panic) (rule encode_certificate_no_Panic)
  moreover have "collect_res encode_certificate (bt_values certs) \<noteq> Ok bss" for bss
  proof
    assume "collect_res encode_certificate (bt_values certs) = Ok bss"
    then have "list_all2 (\<lambda>c bs. encode_certificate c = Ok bs) (bt_values certs) bss"
      by (simp add: collect_res_eq_Ok)
    then have "list_all (\<lambda>c. is_ok (encode_certificate c)) (bt_values certs)"
      by (induction rule: list_all2_induct) auto
    with False show False by (simp add: all_resolved_def encode_certificate_ok)
  qed
  moreover have "e = UnresolvedStorageRoot" if "collect_res encode_certificate (bt_values certs) = Err e" for e
    using that unfolding collect_res_eq_Err encode_certificate_Err by blast
  ultimately have "collect_res encode_certificate (bt_values certs) = Err UnresolvedStorageRoot"
    by (cases "collect_res encode_certificate (bt_values certs)") auto
  with False show ?thesis by (simp add: commit_certificate_batch_def batch_chunks_eq)
qed

definition batch_encodings :: "(address, certificate) btree_map \<Rightarrow> u8 list list" where
  "batch_encodings certs = map certificate_bytes (bt_values certs)"

lemma encode_certificate_inject:
  "list_all (\<lambda>c. ct_storage_root c \<noteq> AwaitingDerivation) xs \<Longrightarrow>
   list_all (\<lambda>c. ct_storage_root c \<noteq> AwaitingDerivation) ys \<Longrightarrow>
   map certificate_bytes xs = map certificate_bytes ys
    \<Longrightarrow> xs = ys"
proof (induction xs arbitrary: ys)
  case (Cons c xs)
  then obtain d ys' where ys: "ys = d # ys'" by (cases ys) auto
  with Cons have "encode_certificate c = Ok (certificate_bytes d)"
    "encode_certificate d = Ok (certificate_bytes d)"
    using certificate_bytes [of c] certificate_bytes [of d] by auto
  then have "c = d" by (rule cert.encode_unique)
  with Cons ys show ?case by auto
qed simp

lemma commit_batch_binding:
  assumes res: "all_resolved xs" "all_resolved ys" and len: "length (entries xs) = length (entries ys)"
    and eq: "commit_certificate_batch blake3 xs = commit_certificate_batch blake3 ys"
  shows "bt_values xs = bt_values ys \<or>
    collide_among blake3 (mp1_inputs blake3 (concat (map chunkify (batch_encodings xs))))
      (mp1_inputs blake3 (concat (map chunkify (batch_encodings ys))))"
proof -
  have lens: "\<forall>bs \<in> set (batch_encodings m). length bs = 180" if "all_resolved m" for m
    using that length_certificate_bytes by (auto simp: batch_encodings_def all_resolved_def list_all_iff)
  have sum: "length (concat (map chunkify bss)) = 6 * length bss"
    if "\<forall>bs \<in> set bss. length bs = 180" for bss
    using that by (induction bss) (simp_all add: length_chunkify)
  have same: "length (batch_encodings xs) = length (batch_encodings ys)"
    using len by (simp add: batch_encodings_def bt_values_def)
  have "merkleize blake3 (concat (map chunkify (batch_encodings xs)))
      = (merkleize blake3 (concat (map chunkify (batch_encodings ys))) :: (b32, ssz_error) result)"
    using eq res by (simp add: commit_batch_cases batch_encodings_def)
  then consider "concat (map chunkify (batch_encodings xs)) = concat (map chunkify (batch_encodings ys))"
    | "collide_among blake3 (mp1_inputs blake3 (concat (map chunkify (batch_encodings xs))))
      (mp1_inputs blake3 (concat (map chunkify (batch_encodings ys))))"
    using merkleize_binding sum [OF lens [OF res(1)]] sum [OF lens [OF res(2)]] same by metis
  then show ?thesis
  proof cases
    case 1
    then have "batch_encodings xs = batch_encodings ys"
      using concat_chunkify_inject [OF same] lens res by blast
    then show ?thesis
      using encode_certificate_inject res by (auto simp: batch_encodings_def all_resolved_def)
  qed simp
qed

section \<open>Properties\<close>

text \<open>
  C20: the certificate codec is canonical on 180 bytes: exactly the strings of 180 bytes
  decode, shorter and longer ones being reported as truncated and as trailing; decoding to a
  certificate and encoding it are inverse in both directions; and encoding fails exactly on a
  certificate whose storage root is not derived.
\<close>

theorem certificate_codec_canonical:
  "(is_ok (decode_certificate bs) \<longleftrightarrow> length bs = 180)
   \<and> (decode_certificate bs = Ok c \<longleftrightarrow> length bs = 180 \<and> encode_certificate c = Ok bs)
   \<and> (encode_certificate c = Ok bs \<longleftrightarrow> length bs = 180 \<and> decode_certificate bs = Ok c)
   \<and> (decode_certificate bs = Err (Truncated 180 (length bs)) \<longleftrightarrow> length bs < 180)
   \<and> (decode_certificate bs = Err (TrailingBytes 180 (length bs)) \<longleftrightarrow> 180 < length bs)
   \<and> (encode_certificate c = Err e \<longleftrightarrow> ct_storage_root c = AwaitingDerivation \<and> e = UnresolvedStorageRoot)"
proof -
  have len: "is_ok (decode_certificate bs) \<longleftrightarrow> length bs = 180"
    "decode_certificate bs = Err (Truncated 180 (length bs)) \<longleftrightarrow> length bs < 180"
    "decode_certificate bs = Err (TrailingBytes 180 (length bs)) \<longleftrightarrow> 180 < length bs"
    by (auto simp: decode_certificate_def CERTIFICATE_ENCODED_LEN_def)
  moreover have "length bs = 180" if "decode_certificate bs = Ok c" using that len(1) by simp
  ultimately show ?thesis using cert.decode_iff encode_certificate_Err by blast
qed

text \<open>
  C29: a certificate commitment binds the certificate: two certificates with one commitment
  are equal, or their tagged encodings are a BLAKE3 collision.
\<close>

theorem certificate_commitment_binds:
  assumes "commit_root blake3 c = Ok x" and "commit_root blake3 d = Ok x"
  shows "c = d \<or> (\<exists>bs cs. encode_certificate c = Ok bs \<and> encode_certificate d = Ok cs
    \<and> collision blake3 (as_bytes LifeCert @ bs) (as_bytes LifeCert @ cs))"
  using assms by (rule commit_root_binding)

theorem certificate_commitment_binds_witness:
  "\<exists>bs cs. encode_certificate (sample_certificate\<lparr>ct_storage_root := Verified (arr_fill 1)\<rparr>) = Ok bs
    \<and> encode_certificate (sample_certificate\<lparr>ct_storage_root := Verified (arr_fill 2)\<rparr>) = Ok cs
    \<and> collision zero_hash (as_bytes LifeCert @ bs) (as_bytes LifeCert @ cs)"
proof -
  let ?c = "\<lambda>n. sample_certificate\<lparr>ct_storage_root := Verified (arr_fill n)\<rparr>"
  have commit: "commit_root zero_hash (?c n) = Ok (Digest (arr_fill 0))" for n
    by (simp add: commit_root_def encode_certificate_def derive_commitment_def zero_hash_def from_bytes_def)
  have "ct_storage_root (?c 1) \<noteq> ct_storage_root (?c 2)" by simp
  then have "?c 1 \<noteq> ?c 2" by metis
  with certificate_commitment_binds [OF commit [of 1] commit [of 2]] show ?thesis by blast
qed

text \<open>
  The batch commitment succeeds exactly on batches with every storage root resolved,
  and fails with the unresolved-root error otherwise.
\<close>

lemma batch_commitment_defined:
  "if all_resolved certs then is_ok (commit_certificate_batch blake3 certs)
   else commit_certificate_batch blake3 certs = Err UnresolvedStorageRoot"
  using merkleize_total by (auto simp: commit_batch_cases is_ok_iff)

text \<open>
  The batch root binds the certificates: two resolved batches of one size with one
  root hold the same certificates in the same order, or two of the strings hashed for
  them collide under BLAKE3.
\<close>

lemma batch_commitment_binds:
  assumes "all_resolved xs" "all_resolved ys" and "length (entries xs) = length (entries ys)"
    and "commit_certificate_batch blake3 xs = commit_certificate_batch blake3 ys"
  shows "bt_values xs = bt_values ys \<or>
    collide_among blake3 (mp1_inputs blake3 (concat (map chunkify (batch_encodings xs))))
      (mp1_inputs blake3 (concat (map chunkify (batch_encodings ys))))"
  using assms by (rule commit_batch_binding)

definition sample_batch :: "u8 \<Rightarrow> (address, certificate) btree_map" where
  "sample_batch n = bt_insert (arr_fill 1) (sample_certificate\<lparr>ct_storage_root := Verified (arr_fill n)\<rparr>) bt_new"

lemma batch_commitment_binds_example:
  "collide_among zero_hash
     (mp1_inputs zero_hash (concat (map chunkify (batch_encodings (sample_batch 1)))))
     (mp1_inputs zero_hash (concat (map chunkify (batch_encodings (sample_batch 2)))))"
proof -
  have "all_resolved (sample_batch n)" for n by (simp add: all_resolved_def sample_batch_def bt_values_def)
  moreover have "commit_certificate_batch zero_hash (sample_batch 1) = commit_certificate_batch zero_hash (sample_batch 2)"
    by code_simp
  moreover have "length (entries (sample_batch 1)) = length (entries (sample_batch 2))"
    by (simp add: sample_batch_def)
  moreover have "ct_storage_root (hd (bt_values (sample_batch 1))) \<noteq> ct_storage_root (hd (bt_values (sample_batch 2)))"
    by (simp add: sample_batch_def bt_values_def)
  then have "bt_values (sample_batch 1) \<noteq> bt_values (sample_batch 2)" by metis
  ultimately show ?thesis
    using batch_commitment_binds [of "sample_batch 1" "sample_batch 2" zero_hash] by blast
qed

end
