(* ===== verification/Pipeline.thy ===== *)
theory Pipeline
  imports World Gate2 Bridge_Trees Cse_Validator Isolation Ssz_Certificate Codec
begin

text \<open>
  The stages composed as \<open>runtime/verify/tests/full_pipeline.rs\<close> composes them: certificates
  of a bucket, their storage roots, and the Gate 2 verdict on them.  The lemmas say what
  one stage may assume of the one before it.
\<close>

section \<open>From a bucket to a batch\<close>

datatype certify_error = Identity_Failure generation_error | Root_Failure derivation_error

definition certify_bucket ::
    "hash_fn \<Rightarrow> snapshot_source \<Rightarrow> (address, bool) btree_map \<Rightarrow> reduced_bucket
     \<Rightarrow> (certificate list, certify_error) result" where
  "certify_bucket blake3 src pre_states rb =
     (let canonical = pass_value (process_bucket pre_states rb)
      in bind_res
           (map_err Identity_Failure (build_canonical_certificates (state_table rb) (ci_generations canonical) src))
           (\<lambda>certs. case resolve_storage_roots (derive blake3) certs (state_table rb) of
              (certs', outcome) \<Rightarrow> map_res (\<lambda>_. bt_values certs') (map_err Root_Failure outcome)))"

text \<open>A source that knows every account, and knows it as empty.\<close>

definition null_source :: snapshot_source where
  "null_source =
     \<lparr>resolve_identity_generation = (\<lambda>a. Ok \<lparr>vg_key = GenerationKey a 0, vg_proof_root = arr_fill 0\<rparr>),
      recover_account_snapshot = (\<lambda>a. Ok empty_account)\<rparr>"

lemma certify_bucket_Ok:
  assumes "certify_bucket blake3 src pre_states rb = Ok cs"
  obtains certs certs' generations where
    "build_canonical_certificates (state_table rb) generations src = Ok certs" "cs = bt_values certs'"
    "\<And>a. \<exists>slots root. (\<forall>s. bt_get slots s = slot_after (state_table rb) a s) \<and> derive blake3 slots = Ok root
        \<and> bt_get certs' a = map_option (\<lambda>c. c\<lparr>ct_storage_root := Verified root\<rparr>) (bt_get certs a)"
proof -
  let ?gens = "ci_generations (pass_value (process_bucket pre_states rb))"
  from assms obtain certs where build: "build_canonical_certificates (state_table rb) ?gens src = Ok certs"
    and rest: "(case resolve_storage_roots (derive blake3) certs (state_table rb) of
      (certs', outcome) \<Rightarrow> map_res (\<lambda>_. bt_values certs') (map_err Root_Failure outcome)) = Ok cs"
    by (auto simp: certify_bucket_def Let_def)
  obtain certs' where resolved: "resolve_storage_roots (derive blake3) certs (state_table rb) = (certs', Ok ())"
    "\<And>a. \<exists>slots root. (\<forall>s. bt_get slots s = slot_after (state_table rb) a s) \<and> derive blake3 slots = Ok root
        \<and> bt_get certs' a = map_option (\<lambda>c. c\<lparr>ct_storage_root := Verified root\<rparr>) (bt_get certs a)"
    using resolved_roots by blast
  show ?thesis
    by (rule that [OF build _ resolved(2)]) (use rest resolved(1) in simp)
qed

text \<open>The table of the only bucket of a transaction.\<close>

lemma summarised_table: "tx_wf tx \<Longrightarrow> summarises rb tx \<Longrightarrow> table_of (tx_events tx) (state_table rb)"
  by (simp add: summarises_def table_of_def tx_net_of)

lemma built_transaction:
  assumes "tx_wf tx" and "build_reduced (tx_events tx) = Ok (ReducedIr [rb])"
  shows "consistent (tx_inner tx)" "summarises rb tx"
proof -
  have ok: "is_ok (build_reduced (tx_events tx))" by (simp add: assms(2))
  show "consistent (tx_inner tx)" using ok assms(1) by (simp add: built_consistent)
  show "summarises rb tx" using build_reduced_single [OF assms(1) ok] assms(2) by auto
qed

section \<open>Streams that partition\<close>

lemma envelope_partitions:
  assumes "envelope_run False (map event_boundary es) False"
  shows "\<exists>bs. partition_events es = Ok (RawIr bs)"
proof -
  obtain s where "fold_res partition_step ([], None) es = Ok s" "\<not> open_bucket s"
    using partition.run_complete [of "([], None)" es False] assms by (auto simp: open_bucket_def)
  then show ?thesis
    by (cases s) (auto simp: partition_fold open_bucket_def)
qed

end
