(* ===== verification/End_To_End.thy ===== *)
theory End_To_End
  imports Pipeline
begin

text \<open>
  The whole pipeline, from the tracer's events to the Gate 2 verdict, as
  \<open>runtime/verify/tests/full_pipeline.rs\<close> runs it, and what its verdict says of a
  transaction made of call trees.
\<close>

section \<open>The pipeline\<close>

text \<open>\<open>Result::expect\<close>.\<close>

fun expect :: "('a, 'e) result \<Rightarrow> ('a, 'f) result" where
  "expect (Ok x) = Ok x"
| "expect (Err e) = Panic"
| "expect Panic = Panic"

lemma expect_simps [simp]:
  "expect r = Ok x \<longleftrightarrow> r = Ok x"
  "expect r \<noteq> Err e"
  "expect r = Panic \<longleftrightarrow> \<not> is_ok r"
  by (cases r; simp)+

text \<open>
  The stages between the parsed events and the verdict.  The pipeline runs on one
  transaction: any other number of buckets fails its assertion.
\<close>

definition full_pipeline :: "hash_fn \<Rightarrow> bridge_config \<Rightarrow> go_event list \<Rightarrow> (unit, replay_error list) result" where
  "full_pipeline blake3 cfg go_events =
     bind_res (expect (translate go_events cfg)) (\<lambda>cse_events.
     let traces = map payload cse_events
     in bind_res (expect (partition_events cse_events)) (\<lambda>raw_ir.
        bind_res (expect (reduce_timelines raw_ir)) (\<lambda>reduced.
        case reduced_buckets reduced of
          [bucket] \<Rightarrow>
            bind_res (expect (certify_bucket blake3 null_source bt_new bucket)) (\<lambda>certs.
            replay_and_verify blake3 \<lparr>account_certificates = certs, execution_traces = traces\<rparr>)
        | _ \<Rightarrow> Panic)))"

section \<open>Certificates from the null source\<close>

lemma resolve_generation_no_Panic: "resolve_generation_for_address generations a \<noteq> Panic"
proof -
  define ms where "ms = filter (\<lambda>g. gk_address (cg_key g) = a) generations"
  define m where "m = Max (set (map (\<lambda>g. gk_id (cg_key g)) ms))"
  have "filter (\<lambda>g. gk_id (cg_key g) = m) ms \<noteq> []" if "ms \<noteq> []"
  proof -
    have "m \<in> set (map (\<lambda>g. gk_id (cg_key g)) ms)"
      unfolding m_def by (rule Max_in) (use that in simp_all)
    then show ?thesis by (auto simp: filter_empty_conv)
  qed
  then show ?thesis
    unfolding resolve_generation_for_address_def Let_def ms_def [symmetric] m_def [symmetric]
    by (auto split: list.split)
qed

lemma null_identity: "is_ok (resolve_identity generations null_source a)"
  using resolve_generation_no_Panic [of generations a]
  by (cases "resolve_generation_for_address generations a") (simp_all add: resolve_identity_def null_source_def)

lemma null_finish: "is_ok (finish_builder null_source a b)"
  by (cases "cf_nonce (cu_fields b)"; cases "cf_balance (cu_fields b)"; cases "cf_code_hash (cu_fields b)")
    (simp_all add: finish_builder_def complete_fields_def fill_fields_def null_source_def)

lemma null_certificates: "is_ok (build_canonical_certificates table generations null_source)"
proof -
  have ids: "identities_ok generations null_source (entries table)" by (simp add: null_identity)
  from builders_exist [OF ids] obtain m where
    "fold_res (builder_step generations null_source) bt_new (entries table) = Ok m"
    using builders_fold ids by blast
  moreover have "finish_builder null_source a b = Ok (case finish_builder null_source a b of Ok c \<Rightarrow> c)" for a b
    using null_finish [of a b] by (cases "finish_builder null_source a b") simp_all
  then have "bt_traverse (finish_builder null_source) m
      = Ok (bt_map (\<lambda>a b. case finish_builder null_source a b of Ok c \<Rightarrow> c) m)"
    by (intro bt_traverse_map_Ok)
  ultimately show ?thesis by (simp add: build_canonical_certificates_def)
qed

lemma null_certified: "is_ok (certify_bucket blake3 null_source pre_states rb)"
proof -
  obtain certs where certs: "build_canonical_certificates (state_table rb)
      (ci_generations (pass_value (process_bucket pre_states rb))) null_source = Ok certs"
    using null_certificates unfolding is_ok_iff by blast
  obtain certs' where resolved: "resolve_storage_roots (derive blake3) certs (state_table rb) = (certs', Ok ())"
    using resolved_roots by blast
  show ?thesis
    unfolding certify_bucket_def Let_def certs
    by (simp only: map_err.simps bind_res.simps resolved prod.case map_res.simps is_ok.simps)
qed

lemma replay_no_Panic: "replay_and_verify blake3 batch \<noteq> Panic"
proof (cases "trace_ok (execution_traces batch)")
  case True
  then obtain errs where "replay_and_verify blake3 batch = (if errs = [] then Ok () else Err errs)"
    by (rule replay_error_sets)
  then show ?thesis by simp
next
  case False
  then obtain errs where "replay_and_verify blake3 batch = Err errs"
    by (rule replay_trace_errors)
  then show ?thesis by simp
qed

section \<open>From the bridge's output to a verdict\<close>

definition one_transaction :: "cse_event list \<Rightarrow> cse_payload list \<Rightarrow> bool" where
  "one_transaction es ps \<longleftrightarrow> map payload es = BeginTransaction # ps @ [EndTransaction]
     \<and> list_all (\<lambda>p. p \<noteq> BeginTransaction \<and> p \<noteq> EndTransaction) ps"

lemma one_transaction_tx:
  assumes "one_transaction es ps"
  obtains tx where "tx_wf tx" "tx_events tx = es" "map payload (tx_inner tx) = ps"
proof -
  obtain e inner e' where es: "es = e # inner @ [e']" "payload e = BeginTransaction" "payload e' = EndTransaction"
    "map payload inner = ps"
    using assms by (auto simp: one_transaction_def map_eq_Cons_conv map_eq_append_conv)
  have "event_boundary x = Inside" if "x \<in> set inner" for x
    using that assms es(4) by (cases "payload x") (auto simp: one_transaction_def list_all_iff)
  with es show ?thesis
    by (intro that [of "\<lparr>tx_open = e, tx_inner = inner, tx_close = e'\<rparr>"]) (auto simp: tx_wf_def tx_events_def)
qed

lemma boundaries_ignored:
  "touched_by (BeginTransaction # ps @ [EndTransaction]) a \<longleftrightarrow> touched_by ps a"
  "certified_by (BeginTransaction # ps @ [EndTransaction]) a \<longleftrightarrow> certified_by ps a"
  "trace_ok (BeginTransaction # ps @ [EndTransaction]) \<longleftrightarrow> trace_ok ps"
proof -
  have agrees: "agrees (BeginTransaction # qs) p \<longleftrightarrow> agrees qs p" for qs p
    by (cases p) (simp_all add: touched_by_def last_write_def write_defs)
  have "trace_ok (BeginTransaction # ps) \<longleftrightarrow> trace_ok ps"
  proof (induction ps rule: rev_induct)
    case (snoc p ps)
    then show ?case using trace_ok_snoc [of "BeginTransaction # ps" p] by (simp add: trace_ok_snoc agrees)
  qed (simp add: trace_ok_def)
  then show "trace_ok (BeginTransaction # ps @ [EndTransaction]) \<longleftrightarrow> trace_ok ps"
    using trace_ok_snoc [of "BeginTransaction # ps" EndTransaction] by simp
qed (simp_all add: touched_by_def certified_by_def)

lemma pipeline_staged:
  assumes "translate go_events cfg = Ok es"
  shows "full_pipeline blake3 cfg go_events =
      bind_res (expect (build_reduced es)) (\<lambda>reduced. case reduced_buckets reduced of
          [bucket] \<Rightarrow>
            bind_res (expect (certify_bucket blake3 null_source bt_new bucket)) (\<lambda>certs.
            replay_and_verify blake3 \<lparr>account_certificates = certs, execution_traces = map payload es\<rparr>)
        | _ \<Rightarrow> Panic)"
  by (cases "partition_events es") (simp_all add: full_pipeline_def assms build_reduced_def Let_def)

lemma pipeline_built:
  assumes out: "translate go_events cfg = Ok (tx_events tx)" and tx: "tx_wf tx"
    and ok: "is_ok (build_reduced (tx_events tx))"
  shows "full_pipeline blake3 cfg go_events \<noteq> Panic"
    and "full_pipeline blake3 cfg go_events = Ok () \<longleftrightarrow> trace_ok (map payload (tx_events tx))
        \<and> (\<forall>a. touched_by (map payload (tx_events tx)) a \<longleftrightarrow> certified_by (map payload (tx_events tx)) a)"
proof -
  obtain rb where rb: "build_reduced (tx_events tx) = Ok (ReducedIr [rb])" "summarises rb tx"
    using build_reduced_single [OF tx ok] by blast
  obtain cs where cs: "certify_bucket blake3 null_source bt_new rb = Ok cs"
    using null_certified unfolding is_ok_iff by blast
  have run: "full_pipeline blake3 cfg go_events =
      replay_and_verify blake3 \<lparr>account_certificates = cs, execution_traces = map payload (tx_events tx)\<rparr>"
    by (simp add: pipeline_staged [OF out] rb(1) cs)
  show "full_pipeline blake3 cfg go_events \<noteq> Panic" unfolding run by (rule replay_no_Panic)
  have consistent: "consistent (tx_events tx)" using ok tx by (simp add: built_consistent tx_consistent)
  obtain generations certs certs' where
    build: "build_canonical_certificates (state_table rb) generations null_source = Ok certs"
    and cs_values: "cs = bt_values certs'"
    and roots: "\<And>a. \<exists>slots root. (\<forall>s. bt_get slots s = slot_after (state_table rb) a s) \<and> derive blake3 slots = Ok root
      \<and> bt_get certs' a = map_option (\<lambda>c. c\<lparr>ct_storage_root := Verified root\<rparr>) (bt_get certs a)"
    using cs by (rule certify_bucket_Ok) (rule that)
  have table: "table_of (tx_events tx) (state_table rb)" by (rule summarised_table [OF tx rb(2)])
  show "full_pipeline blake3 cfg go_events = Ok () \<longleftrightarrow> trace_ok (map payload (tx_events tx))
        \<and> (\<forall>a. touched_by (map payload (tx_events tx)) a \<longleftrightarrow> certified_by (map payload (tx_events tx)) a)"
    unfolding run cs_values trace_ok_fresh [OF consistent]
    by (rule gate2_accepts [OF table consistent _ build roots]) (simp add: null_source_def)
qed

lemma pipeline_after_bridge:
  assumes out: "translate go_events cfg = Ok es" and one: "one_transaction es ps"
  shows "(full_pipeline blake3 cfg go_events = Panic \<longleftrightarrow> (\<nexists>w. honest w ps))
    \<and> (full_pipeline blake3 cfg go_events = Ok () \<longleftrightarrow>
        (\<exists>w. honest w ps) \<and> trace_ok ps \<and> (\<forall>a. touched_by ps a \<longleftrightarrow> certified_by ps a))"
proof -
  obtain tx where tx: "tx_wf tx" "tx_events tx = es" "map payload (tx_inner tx) = ps"
    using one by (rule one_transaction_tx)
  have honest: "(\<exists>w. honest w ps) \<longleftrightarrow> is_ok (build_reduced es)"
    using built_consistent [OF tx(1)] tx by (simp add: consistent_honest)
  have payloads: "map payload es = BeginTransaction # ps @ [EndTransaction]"
    using one by (simp add: one_transaction_def)
  show ?thesis
  proof (cases "is_ok (build_reduced es)")
    case True
    then show ?thesis
      using pipeline_built [OF _ tx(1), of go_events cfg blake3] out
      by (simp add: tx(2) honest payloads boundaries_ignored)
  next
    case False
    then have "full_pipeline blake3 cfg go_events = Panic"
      by (cases "build_reduced es") (simp_all add: pipeline_staged [OF out])
    with False show ?thesis by (simp add: honest)
  qed
qed

section \<open>What survives of a transaction's calls\<close>

text \<open>The payloads the bridge keeps of a list of nodes, in the order it emits them.\<close>

fun free_payloads :: "call_node \<Rightarrow> cse_payload list" where
  "free_payloads (Own m) = []"
| "free_payloads (Free m) = [mutation_payload m]"
| "free_payloads (Call i p d reverted body) = concat (map free_payloads body)"

fun kept_payloads :: "call_node \<Rightarrow> cse_payload list" where
  "kept_payloads (Own m) = [mutation_payload m]"
| "kept_payloads (Free m) = []"
| "kept_payloads (Call i p d reverted body) = (if reverted then [] else concat (map kept_payloads body))"

definition committed :: "call_node list \<Rightarrow> cse_payload list" where
  "committed nodes = concat (map (\<lambda>node. free_payloads node @ kept_payloads node) nodes)"

text \<open>
  The mutations in the order they were made, without those a reverted call contains.  The
  bridge keeps more, the frameless mutations inside any call, and moves them before the
  mutations of the frames; where no frameless mutation is inside a call, it keeps exactly these.
\<close>

fun survivors :: "call_node \<Rightarrow> cse_payload list" where
  "survivors (Own m) = [mutation_payload m]"
| "survivors (Free m) = [mutation_payload m]"
| "survivors (Call i p d reverted body) = (if reverted then [] else concat (map survivors body))"

definition surviving :: "call_node list \<Rightarrow> cse_payload list" where
  "surviving nodes = concat (map survivors nodes)"

lemma tidy_inside: "tidy True node \<Longrightarrow> free_payloads node = [] \<and> kept_payloads node = survivors node"
proof (induction node)
  case (Call i p d reverted body)
  then show ?case by (auto simp: list_all_iff cong: map_cong)
qed simp_all

lemma tidy_committed:
  assumes "list_all (tidy False) nodes"
  shows "committed nodes = surviving nodes"
proof -
  have "free_payloads node @ kept_payloads node = survivors node" if "tidy False node" for node
  proof (cases node)
    case (Call i p d reverted body)
    with that tidy_inside [of node] show ?thesis by simp
  qed simp_all
  with assms show ?thesis by (simp add: committed_def surviving_def list_all_iff cong: map_cong)
qed

lemma committed_events:
  assumes "\<And>f e p. payload (mk f e p) = p"
  shows "map payload (free_events mk node) = free_payloads node"
    and "map payload (kept_events mk f e node) = kept_payloads node"
proof -
  show "map payload (free_events mk node) = free_payloads node"
    by (induction node rule: free_payloads.induct) (simp_all add: assms map_concat comp_def cong: map_cong)
  show "map payload (kept_events mk f e node) = kept_payloads node"
    by (induction node arbitrary: f e rule: kept_payloads.induct)
      (simp_all add: assms map_concat comp_def cong: map_cong)
qed

lemma mutation_not_boundary: "mutation_payload m \<noteq> BeginTransaction" "mutation_payload m \<noteq> EndTransaction"
  by (cases m; simp)+

lemma committed_inside: "list_all (\<lambda>p. p \<noteq> BeginTransaction \<and> p \<noteq> EndTransaction) (committed nodes)"
proof -
  have free: "p \<noteq> BeginTransaction \<and> p \<noteq> EndTransaction" if "p \<in> set (free_payloads node)" for p node
    using that by (induction node rule: free_payloads.induct) (auto simp: mutation_not_boundary)
  have kept: "p \<noteq> BeginTransaction \<and> p \<noteq> EndTransaction" if "p \<in> set (kept_payloads node)" for p node
    using that by (induction node rule: kept_payloads.induct) (auto simp: mutation_not_boundary split: if_splits)
  show ?thesis using free kept by (fastforce simp: committed_def list_all_iff)
qed

lemma loose_output [simp]: "stream_output cfg b (map Loose ms @ items) = stream_output cfg b items"
  by (induction ms) simp_all

text \<open>A block with one transaction; what comes before and after it is lost.\<close>

abbreviation one_tx_block :: "u64 \<Rightarrow> mutation list \<Rightarrow> stream_item \<Rightarrow> mutation list \<Rightarrow> stream_item list" where
  "one_tx_block n ms tx ms' \<equiv> Header n # map Loose ms @ tx # map Loose ms' @ [Footer]"

lemma stream_committed:
  "one_transaction (assign_sequence (stream_output cfg b (one_tx_block n ms (Transact i h r nodes) ms'))) (committed nodes)"
proof -
  have "map payload (root_events (mutation_event cfg n h i) node) = free_payloads node @ kept_payloads node" for node
    by (simp add: root_events_def committed_events mutation_event_def)
  then show ?thesis
    by (simp add: one_transaction_def assign_sequence_payloads committed_inside boundary_event_def)
      (simp add: committed_def map_concat comp_def)
qed

section \<open>Properties\<close>

text \<open>
  C2: the verdict of the whole pipeline on a transaction made of frameless mutations and call
  trees, with frame ids and depths of 32 bits.  Let \<open>committed nodes\<close> be what the bridge
  keeps of each node: its frameless mutations, those inside calls and even inside reverted
  calls included, and after them the mutations of its frames, without those a reverted
  call contains.  The pipeline produces a verdict exactly when these payloads are the honest
  execution of some world.  Gate 2 then passes exactly when, besides, each value an account has
  not written before starts from zero once the account has been touched, and every account
  touched in the replay's sense is one the builder certifies and conversely.  When no
  frameless mutation is inside a call, the payloads are the mutations in the order they
  were made without those a reverted call contains.
\<close>

theorem pipeline_verdict:
  fixes blake3 cfg n i h r nodes
  assumes "list_all root_node nodes"
  defines "ps \<equiv> committed nodes"
    and "verdict \<equiv> full_pipeline blake3 cfg (concat (map flatten_item [Header n, Transact i h r nodes, Footer]))"
  shows "(verdict = Panic \<longleftrightarrow> (\<nexists>w. honest w ps))
    \<and> (verdict = Ok () \<longleftrightarrow> (\<exists>w. honest w ps) \<and> trace_ok ps \<and> (\<forall>a. touched_by ps a \<longleftrightarrow> certified_by ps a))
    \<and> (list_all (tidy False) nodes \<longrightarrow> ps = surviving nodes)"
proof -
  have "list_all item_fits [Header n, Transact i h r nodes, Footer]" using assms(1) by simp
  from pipeline_after_bridge [OF translate_items [OF this] stream_committed [of _ _ _ "[]" _ _ _ _ "[]", unfolded list.map append.simps]]
  show ?thesis unfolding verdict_def ps_def using tidy_committed by blast
qed

text \<open>
  The two transactions of the end-to-end tests: one with a gas debit, a committed call and
  a refund, and one whose call reverts.
\<close>

definition word32 :: "u8 \<Rightarrow> b32" where
  "word32 v = arr_of (replicate 31 0 @ [v])"

lemma word32_zero: "word32 0 = arr_fill 0"
  by code_simp

definition committed_call :: "call_node list" where
  "committed_call =
     [Free (MBalance (arr_fill 17) (word32 100) (word32 90)),
      Call 0 NO_FRAME 0 False
        [Own (MBalance (arr_fill 17) (word32 90) (word32 80)),
         Own (MStorage (arr_fill 17) (word32 9) (word32 0) (word32 7))],
      Free (MBalance (arr_fill 17) (word32 80) (word32 85))]"

definition reverted_call :: "call_node list" where
  "reverted_call =
     [Free (MBalance (arr_fill 34) (word32 100) (word32 90)),
      Call 0 NO_FRAME 0 True [Own (MStorage (arr_fill 34) (word32 9) (word32 0) (word32 7))]]"

definition test_world :: world where
  "test_world =
     \<lparr>w_word = \<lambda>k. (case k of BalanceKey a \<Rightarrow> word32 100 | _ \<Rightarrow> arr_fill 0), w_nonce = \<lambda>a. 0, w_refund = 0\<rparr>"

theorem pipeline_verdict_witness:
  "\<forall>blake3. full_pipeline blake3 \<lparr>cfg_chain_id = 1\<rparr>
       (concat (map flatten_item [Header 42, Transact 0 (word32 1) False committed_call, Footer])) = Ok ()
     \<and> full_pipeline blake3 \<lparr>cfg_chain_id = 1\<rparr>
       (concat (map flatten_item [Header 42, Transact 0 (word32 2) True reverted_call, Footer])) = Ok ()
     \<and> committed committed_call = surviving committed_call \<and> committed reverted_call = surviving reverted_call"
proof -
  have tidy: "list_all (tidy False) committed_call" "list_all (tidy False) reverted_call"
    by (simp_all add: committed_call_def reverted_call_def)
  have honest: "\<exists>w. honest w (committed committed_call)" "\<exists>w. honest w (committed reverted_call)"
    by (rule exI [of _ test_world], code_simp)+
  have trace: "trace_ok (committed committed_call)" "trace_ok (committed reverted_call)"
    by code_simp+
  have accounts: "touched_by (committed nodes) a \<longleftrightarrow> certified_by (committed nodes) a"
    if "nodes = committed_call \<or> nodes = reverted_call" for nodes a
    using that
    by (auto simp: committed_call_def reverted_call_def committed_def touched_by_def certified_by_def)
  have fits: "list_all root_node committed_call" "list_all root_node reverted_call"
    by (simp_all add: committed_call_def reverted_call_def)
  show ?thesis
    using pipeline_verdict [OF fits(1)] pipeline_verdict [OF fits(2)] honest trace accounts tidy by simp
qed

end
