(* ===== verification/Live.thy ===== *)
theory Live
  imports Wire_Json End_To_End
begin

text \<open>
  The two halves of the repository joined: the events of a tracer as the JSON document of
  \<open>FixtureEnvelope.MarshalJSON\<close> (\<open>emes/types.go\<close>), read by \<open>parse_event_stream\<close> and run
  through the stages of \<open>runtime/verify/tests/full_pipeline.rs\<close>.  The two JSON libraries,
  Go's encoder of a struct and \<open>serde_json\<close>, are parameters; what is asked of them is that
  the fields written are the fields read, which holds of those of \<open>Wire_Json\<close>.
\<close>

section \<open>The document\<close>

text \<open>\<open>json.Marshal(e)\<close> of each event, tagged with its kind; the first error is returned.\<close>

definition tag_event :: "(emes_event \<Rightarrow> ('json, 'err) result) \<Rightarrow> emes_event \<Rightarrow> ('json tagged_event, 'err) result" where
  "tag_event marshal e = bind_res (marshal e) (\<lambda>raw. Ok \<lparr>te_kind = kind e, te_data = raw\<rparr>)"

definition tag_events :: "(emes_event \<Rightarrow> ('json, 'err) result) \<Rightarrow> emes_event list \<Rightarrow> ('json tagged_event list, 'err) result" where
  "tag_events marshal = collect_res (tag_event marshal)"

text \<open>The deserializer for the kind of an event reads its fields from the data.\<close>

fun reads_event :: "('json, 'err) serde \<Rightarrow> 'json \<Rightarrow> go_event \<Rightarrow> bool" where
  "reads_event sd j (BlockStart d) \<longleftrightarrow> parse_block_start sd j = Ok d"
| "reads_event sd j (TransactionStart d) \<longleftrightarrow> parse_transaction_start sd j = Ok d"
| "reads_event sd j (FrameEnter d) \<longleftrightarrow> parse_frame_enter sd j = Ok d"
| "reads_event sd j (FrameExit d) \<longleftrightarrow> parse_frame_exit sd j = Ok d"
| "reads_event sd j (TransactionEnd d) \<longleftrightarrow> parse_transaction_end sd j = Ok d"
| "reads_event sd j BlockCommit \<longleftrightarrow> True"
| "reads_event sd j (BalanceMutation d) \<longleftrightarrow> parse_balance_mutation sd j = Ok d"
| "reads_event sd j (NonceMutation d) \<longleftrightarrow> parse_nonce_mutation sd j = Ok d"
| "reads_event sd j (CodeMutation d) \<longleftrightarrow> parse_code_mutation sd j = Ok d"
| "reads_event sd j (StorageMutation d) \<longleftrightarrow> parse_storage_mutation sd j = Ok d"
| "reads_event sd j (AccountCreated d) \<longleftrightarrow> parse_account_created sd j = Ok d"
| "reads_event sd j (SelfDestruct d) \<longleftrightarrow> parse_self_destruct sd j = Ok d"

text \<open>
  \<open>json\<close> is a document that carries the events: the reader of documents finds the tagged
  list the writer made, and the reader of each kind finds the fields of the event.
\<close>

definition document_of ::
    "('json, 'err) serde \<Rightarrow> (emes_event \<Rightarrow> ('json, 'e2) result) \<Rightarrow> str \<Rightarrow> emes_event list \<Rightarrow> bool" where
  "document_of sd marshal json events \<longleftrightarrow>
     (case tag_events marshal events of Ok tagged \<Rightarrow> from_str sd json = Ok tagged | _ \<Rightarrow> False)
     \<and> list_all (\<lambda>e. case marshal e of Ok j \<Rightarrow> reads_event sd j (wire_event e) | _ \<Rightarrow> False) events"

lemma parse_written_event:
  assumes "tag_event marshal e = Ok t" and "case marshal e of Ok j \<Rightarrow> reads_event sd j (wire_event e) | _ \<Rightarrow> False"
  shows "parse_tagged sd t = Ok (wire_event e)"
proof -
  obtain j where "marshal e = Ok j" "t = \<lparr>te_kind = kind e, te_data = j\<rparr>" "reads_event sd j (wire_event e)"
    using assms by (auto simp: tag_event_def)
  then show ?thesis by (cases e) (simp_all add: parse_tagged_def Let_def)
qed

lemma parse_written_events:
  "collect_res (tag_event marshal) es = Ok ts \<Longrightarrow>
    list_all (\<lambda>e. case marshal e of Ok j \<Rightarrow> reads_event sd j (wire_event e) | _ \<Rightarrow> False) es \<Longrightarrow>
    collect_res (parse_tagged sd) ts = Ok (map wire_event es)"
proof (induction es arbitrary: ts)
  case (Cons e es)
  then obtain t ts' where t: "tag_event marshal e = Ok t" "collect_res (tag_event marshal) es = Ok ts'" "ts = t # ts'"
    by auto
  have "parse_tagged sd t = Ok (wire_event e)"
    by (rule parse_written_event [OF t(1)]) (use Cons.prems(2) in simp)
  with Cons.IH [OF t(2)] Cons.prems(2) show ?case by (simp add: t(3))
qed simp

lemma parse_document:
  "document_of sd marshal json events \<Longrightarrow> parse_event_stream sd json = Ok (map wire_event events)"
  by (auto simp: document_of_def tag_events_def parse_event_stream_def parse_written_events split: result.splits)

section \<open>The pipeline from the document\<close>

definition full_pipeline_json ::
    "hash_fn \<Rightarrow> bridge_config \<Rightarrow> ('json, 'err) serde \<Rightarrow> str \<Rightarrow> (unit, replay_error list) result" where
  "full_pipeline_json blake3 cfg sd json =
     bind_res (expect (parse_event_stream sd json)) (full_pipeline blake3 cfg)"

text \<open>In a stream with one transaction, everything else is a mutation outside it.\<close>

fun starts_transaction :: "emes_event \<Rightarrow> bool" where
  "starts_transaction (TransactionStartEvent d) = True"
| "starts_transaction e = False"

fun go_starts :: "go_event \<Rightarrow> bool" where
  "go_starts (TransactionStart d) = True"
| "go_starts e = False"

lemma go_starts_wire [simp]: "go_starts (wire_event e) = starts_transaction e"
  by (cases e) simp_all

lemma starts_in_mutation [simp]: "\<not> go_starts (go_mutation f m)"
  by (cases m) simp_all

lemma starts_in_node: "filter go_starts (flatten_node p node) = []"
  by (induction p node rule: flatten_node.induct) (simp_all add: filter_concat comp_def cong: map_cong)

lemma starts_in_nodes: "filter go_starts (concat (map (flatten_node p) nodes)) = []"
  by (simp add: filter_concat starts_in_node comp_def)

fun is_transact :: "stream_item \<Rightarrow> bool" where
  "is_transact (Transact i h r nodes) = True"
| "is_transact item = False"

lemma starts_in_items:
  assumes "list_all (item_lawful strict) items"
  shows "length (filter go_starts (concat (map flatten_item items))) = length (filter is_transact items)"
  using assms
proof (induction items)
  case (Cons item items)
  then show ?case by (cases item) (simp_all add: starts_in_nodes)
qed simp

lemma loose_items:
  "list_all (item_lawful strict) items \<Longrightarrow> filter is_transact items = [] \<Longrightarrow> \<exists>ms. items = map Loose ms"
proof (induction items)
  case (Cons item items)
  then obtain m ms where "item = Loose m" "items = map Loose ms" by (cases item) auto
  then show ?case by (intro exI [of _ "m # ms"]) simp
qed simp

lemma one_item:
  assumes "map wire_event stream = concat (map flatten_item (Header n # items @ [Footer]))"
    and "list_all (item_lawful True) items" and "length (filter starts_transaction stream) = 1"
  obtains ms i h r nodes ms' where "items = map Loose ms @ Transact i h r nodes # map Loose ms'"
    "list_all root_node nodes" "list_all (tidy False) nodes"
proof -
  have "length (filter go_starts (map wire_event stream)) = 1"
    using assms(3) by (simp add: filter_map comp_def)
  then have "length (filter is_transact items) = 1" using starts_in_items [OF assms(2)] unfolding assms(1) by simp
  then obtain item where "filter is_transact items = [item]" by (auto simp: length_Suc_conv)
  then obtain xs zs where split: "items = xs @ item # zs" "is_transact item" "filter is_transact xs = []" "filter is_transact zs = []"
    by (metis filter_eq_Cons_iff filter_empty_conv)
  obtain ms where "xs = map Loose ms" using loose_items [of True xs] assms(2) split by auto
  moreover obtain ms' where "zs = map Loose ms'" using loose_items [of True zs] assms(2) split by auto
  ultimately show ?thesis using that assms(2) split(1,2) by (cases item) auto
qed

lemma passed_stream_verdict:
  assumes passed: "verify_gate1_invariants stream = Ok ()" "placed True None stream"
    and one: "length (filter starts_transaction stream) = 1" and doc: "document_of sd marshal json stream"
  shows "\<exists>n ms i h r nodes ms'. map wire_event stream = concat (map flatten_item (one_tx_block n ms (Transact i h r nodes) ms'))
    \<and> (full_pipeline_json blake3 cfg sd json = Panic \<longleftrightarrow> (\<nexists>w. honest w (surviving nodes)))
    \<and> (full_pipeline_json blake3 cfg sd json = Ok () \<longleftrightarrow> (\<exists>w. honest w (surviving nodes)) \<and> trace_ok (surviving nodes)
        \<and> (\<forall>a. touched_by (surviving nodes) a \<longleftrightarrow> certified_by (surviving nodes) a))"
proof -
  obtain n items where items: "map wire_event stream = concat (map flatten_item (Header n # items @ [Footer]))"
    "list_all (item_lawful True) items"
    using gate1_items [OF passed] by blast
  obtain ms i h r nodes ms' where nodes: "items = map Loose ms @ Transact i h r nodes # map Loose ms'"
    "list_all root_node nodes" "list_all (tidy False) nodes"
    using one_item [OF items one] by blast
  let ?block = "one_tx_block n ms (Transact i h r nodes) ms'"
  have flat: "map wire_event stream = concat (map flatten_item ?block)" using items(1) nodes(1) by simp
  have run: "full_pipeline_json blake3 cfg sd json = full_pipeline blake3 cfg (concat (map flatten_item ?block))"
    unfolding full_pipeline_json_def parse_document [OF doc] flat by simp
  have "list_all item_fits ?block" using nodes(2) by (auto simp: list_all_iff)
  from pipeline_after_bridge [OF translate_items [OF this] stream_committed]
  have verdict: "(full_pipeline_json blake3 cfg sd json = Panic \<longleftrightarrow> (\<nexists>w. honest w (surviving nodes)))
    \<and> (full_pipeline_json blake3 cfg sd json = Ok () \<longleftrightarrow> (\<exists>w. honest w (surviving nodes)) \<and> trace_ok (surviving nodes)
        \<and> (\<forall>a. touched_by (surviving nodes) a \<longleftrightarrow> certified_by (surviving nodes) a))"
    unfolding run tidy_committed [OF nodes(3)] .
  show ?thesis using flat verdict by blast
qed

section \<open>From the hooks\<close>

fun opens_transaction :: "hook \<Rightarrow> bool" where
  "opens_transaction (OnTxStart tx a) = True"
| "opens_transaction h = False"

lemma starts_set_sequence [simp]: "starts_transaction (set_event_sequence n e) = starts_transaction e"
  by (cases e) simp_all

lemma hook_starts:
  assumes "run_hook env t h = Ok t'" and "\<not> starts_block h"
  shows "length (filter starts_transaction (tr_events t'))
    = length (filter starts_transaction (tr_events t)) + (if opens_transaction h then 1 else 0)"
  using assms
  by (cases h) (auto simp: Let_def emit_Ok log_error_def split: if_splits option.splits list.splits)

lemma hooks_starts:
  "run_hooks env t hs = Ok t' \<Longrightarrow> list_all (\<lambda>h. \<not> starts_block h) hs \<Longrightarrow>
    length (filter starts_transaction (tr_events t'))
      = length (filter starts_transaction (tr_events t)) + length (filter opens_transaction hs)"
proof (induction hs arbitrary: t)
  case (Cons h hs)
  then obtain t1 where t1: "run_hook env t h = Ok t1" "run_hooks env t1 hs = Ok t'" by (auto simp: run_hooks_def)
  have "\<not> starts_block h" "list_all (\<lambda>h. \<not> starts_block h) hs" using Cons.prems(2) by simp_all
  with hook_starts [OF t1(1)] Cons.IH [OF t1(2)] show ?case by simp
qed (simp add: run_hooks_def)

lemma traced_starts:
  assumes "runs callback_step idle body idle" and "run_hooks env new_tracer (OnBlockStart h # body @ [OnBlockEnd]) = Ok t"
  shows "length (filter starts_transaction (tr_events t)) = length (filter opens_transaction body)"
proof -
  obtain t1 where t1: "run_hook env new_tracer (OnBlockStart h) = Ok t1" "run_hooks env t1 (body @ [OnBlockEnd]) = Ok t"
    using assms(2) by (auto simp: run_hooks_def)
  have "filter starts_transaction (tr_events t1) = []" using t1(1) by (auto simp: Let_def emit_Ok)
  moreover have "list_all (\<lambda>h. \<not> starts_block h) (body @ [OnBlockEnd])" using order_no_block [OF assms(1)] by simp
  ultimately show ?thesis using hooks_starts [OF t1(2)] by simp
qed

section \<open>Properties\<close>

text \<open>
  C1: from go-ethereum's callbacks to the Gate 2 verdict.  A new tracer sees the callbacks of
  a block with one transaction in go-ethereum's order: calls balance inside and outside the
  transaction (outside are system calls) and state changes come anywhere; they are fewer
  than \<open>2 ^ 32\<close>, with values of at most 32 bytes and depths below \<open>2 ^ 32\<close>.  The events are
  written as a document the Rust side reads.  The hooks run to the end and log no anomaly, and the
  stream passes Gate 1 exactly when no call is outside the transaction, which has at most one
  outermost call and shares its outcome.  When it passes, it is the flattening of the
  transaction's call trees between state changes that are lost, and the pipeline run on the
  document gives a verdict exactly when the transaction's state changes, in order and without
  those inside reverted calls, are the honest execution of some world; Gate 2 passes exactly
  when, besides, each value an account has not written before starts from zero once the
  account has been touched, and both crates count the same accounts.
\<close>

theorem live_pipeline_verdict:
  assumes "runs callback_step idle body idle" and "list_all hook_fits body" and "length body < 2 ^ 32"
    and "length (filter opens_transaction body) = 1"
    and "\<And>t. run_hooks env new_tracer (OnBlockStart h # body @ [OnBlockEnd]) = Ok t \<Longrightarrow> document_of sd marshal json (tr_events t)"
  shows "\<exists>t. run_hooks env new_tracer (OnBlockStart h # body @ [OnBlockEnd]) = Ok t \<and> tr_error_log t = []
    \<and> (verify_gate1_invariants (tr_events t) = Ok () \<longleftrightarrow> runs admitted_step None body None)
    \<and> (verify_gate1_invariants (tr_events t) = Ok () \<longrightarrow>
        (\<exists>n ms i hash r nodes ms'. map wire_event (tr_events t) = concat (map flatten_item (one_tx_block n ms (Transact i hash r nodes) ms'))
        \<and> (full_pipeline_json blake3 cfg sd json = Panic \<longleftrightarrow> (\<nexists>w. honest w (surviving nodes)))
        \<and> (full_pipeline_json blake3 cfg sd json = Ok () \<longleftrightarrow> (\<exists>w. honest w (surviving nodes)) \<and> trace_ok (surviving nodes)
            \<and> (\<forall>a. touched_by (surviving nodes) a \<longleftrightarrow> certified_by (surviving nodes) a))))"
proof -
  obtain t where t: "run_hooks env new_tracer (OnBlockStart h # body @ [OnBlockEnd]) = Ok t" "tr_error_log t = []"
    and passes: "verify_gate1_invariants (tr_events t) = Ok () \<longleftrightarrow> runs admitted_step None body None"
    and inside: "verify_gate1_invariants (tr_events t) = Ok () \<longrightarrow> placed True None (tr_events t)"
    using assms(1-3) by (rule traced_outcome [where env = env and h = h])
  have "length (filter starts_transaction (tr_events t)) = 1"
    using traced_starts [OF assms(1) t(1)] assms(4) by simp
  note verdict = passed_stream_verdict [OF _ mp [OF inside] this assms(5) [OF t(1)]]
  show ?thesis using t passes verdict [of blake3 cfg] by blast
qed

text \<open>The writer and the readers of \<open>Wire_Json\<close>, for a parser that reads the text of the value.\<close>

lemma fixture_document:
  assumes "parse json = Some (fixture_json m events errors)"
  shows "document_of (json_serde parse) marshal_event json events"
proof -
  have "tag_events marshal_event events = Ok (map (\<lambda>e. \<lparr>te_kind = kind e, te_data = event_json e\<rparr>) events)"
    unfolding tag_events_def by (induction events) (simp_all add: tag_event_def marshal_event_def)
  moreover have "from_str (json_serde parse) json = Ok (map (\<lambda>e. \<lparr>te_kind = kind e, te_data = event_json e\<rparr>) events)"
    using assms by (simp add: json_serde_def read_fixture)
  moreover have "reads_event (json_serde parse) (event_json e) (wire_event e)" for e
    by (cases e) (simp_all add: json_serde_def event_json_def reader_defs json_simps)
  ultimately show ?thesis by (simp add: document_of_def list_all_iff marshal_event_def)
qed

theorem live_pipeline_verdict_witness:
  "\<exists>t n ms i hash r nodes ms'. run_hooks None new_tracer (OnBlockStart \<lparr>bh_number = 1, bh_time = 2, bh_root = arr_fill 3\<rparr> # traced_body @ [OnBlockEnd]) = Ok t
    \<and> verify_gate1_invariants (tr_events t) = Ok ()
    \<and> map wire_event (tr_events t) = concat (map flatten_item (one_tx_block n ms (Transact i hash r nodes) ms'))
    \<and> (full_pipeline_json (\<lambda>_. arr_fill 0) \<lparr>cfg_chain_id = 1\<rparr> (json_serde (\<lambda>_. Some (fixture_json sample_metadata (tr_events t) (tr_error_log t)))) [] = Ok () \<longleftrightarrow> (\<exists>w. honest w (surviving nodes))
        \<and> trace_ok (surviving nodes) \<and> (\<forall>a. touched_by (surviving nodes) a \<longleftrightarrow> certified_by (surviving nodes) a))"
proof -
  let ?hooks = "OnBlockStart \<lparr>bh_number = 1, bh_time = 2, bh_root = arr_fill 3\<rparr> # traced_body @ [OnBlockEnd]"
  have order: "runs callback_step idle traced_body idle" and admitted: "runs admitted_step None traced_body None"
    by (simp_all add: traced_body_def callback_step_simps admitted_step_simps ex_bool_eq)
  have fits: "list_all hook_fits traced_body" by (simp add: traced_body_def fits_hash_def)
  have short: "length traced_body < 2 ^ 32" and one: "length (filter opens_transaction traced_body) = 1"
    by (simp_all add: traced_body_def)
  obtain t where t: "run_hooks None new_tracer ?hooks = Ok t"
    using order fits short by (rule traced_outcome [where env = None and h = "\<lparr>bh_number = 1, bh_time = 2, bh_root = arr_fill 3\<rparr>"])
  let ?sd = "json_serde (\<lambda>_. Some (fixture_json sample_metadata (tr_events t) (tr_error_log t)))"
  note live = live_pipeline_verdict [where env = None and h = "\<lparr>bh_number = 1, bh_time = 2, bh_root = arr_fill 3\<rparr>"
      and sd = ?sd and json = "[]" and marshal = marshal_event and ?blake3.0 = "\<lambda>_. arr_fill 0" and cfg = "\<lparr>cfg_chain_id = 1\<rparr>",
      OF order fits short one]
  show ?thesis
  proof (rule exE [OF live], goal_cases)
    case (1 t')
    then have "t' = t" using t by simp
    then show ?case using fixture_document [OF refl] by simp
  next
    case (2 t')
    then have "t' = t" using t by simp
    note facts = 2 [unfolded this]
    have passes: "verify_gate1_invariants (tr_events t) = Ok ()" using facts admitted by blast
    show ?case
      using t passes mp [OF conjunct2 [OF conjunct2 [OF conjunct2 [OF facts]]] passes]
      by (elim exE conjE) (intro exI conjI, assumption+)
  qed
qed

end
