(* ===== verification/Conformance_Ssz.thy ===== *)
theory Conformance_Ssz
  imports Ssz_Certificate
begin

text \<open>
  The unit tests of the crates \<open>hash\<close> and \<open>ssz\<close>, translated and evaluated on the model: a
  test is a truth value, its assertions in a row.  Where a test hashes, \<open>blake3\<close> is any
  function; a test that two digests differ then holds or exhibits a collision, and a
  pinned digest is a statement about BLAKE3 alone.
\<close>

section \<open>Assertions\<close>

text \<open>\<open>unwrap\<close> and \<open>unwrap_err\<close> in front of assertions.\<close>

fun ok_and :: "('a, 'e) result \<Rightarrow> ('a \<Rightarrow> bool) \<Rightarrow> bool" where
  "ok_and (Ok a) P = P a"
| "ok_and r P = False"

fun err_and :: "('a, 'e) result \<Rightarrow> ('e \<Rightarrow> bool) \<Rightarrow> bool" where
  "err_and (Err e) P = P e"
| "err_and r P = False"

fun some_and :: "'a option \<Rightarrow> ('a \<Rightarrow> bool) \<Rightarrow> bool" where
  "some_and (Some a) P = P a"
| "some_and None P = False"

text \<open>\<open>let mut b = [0u8; 32]; b[31] = v\<close>.\<close>

definition last_byte :: "u8 \<Rightarrow> b32" where
  "last_byte v = arr_of (replicate 31 0 @ [v])"

definition hex_encode :: "u8 list \<Rightarrow> string" where
  "hex_encode bytes = concat (map hex_byte bytes)"

section \<open>hash/src/lib.rs\<close>

definition test_hash_deterministic :: "hash_fn \<Rightarrow> bool" where
  "test_hash_deterministic blake3 \<longleftrightarrow>
     derive_commitment blake3 TrieLeaf [1, 2, 3, 4] = derive_commitment blake3 TrieLeaf [1, 2, 3, 4]"

definition test_different_domains :: "hash_fn \<Rightarrow> bool" where
  "test_different_domains blake3 \<longleftrightarrow>
     derive_commitment blake3 TrieLeaf [1, 2, 3, 4] \<noteq> derive_commitment blake3 TrieBranch [1, 2, 3, 4]"

definition test_different_bytes :: "hash_fn \<Rightarrow> bool" where
  "test_different_bytes blake3 \<longleftrightarrow>
     derive_commitment blake3 LifeCert [1, 2, 3] \<noteq> derive_commitment blake3 LifeCert [1, 2, 4]"

definition test_try_from_length :: bool where
  "test_try_from_length \<longleftrightarrow> try_from_slice (replicate 16 0) = Err InvalidLength \<and> is_ok (try_from_slice (replicate 32 0))"

definition test_digest_bytes :: bool where
  "test_digest_bytes \<longleftrightarrow> to_bytes (from_bytes (arr_fill 0xAB)) = arr_fill 0xAB"

definition test_hex_length :: "hash_fn \<Rightarrow> bool" where
  "test_hex_length blake3 \<longleftrightarrow> length (to_hex (derive_commitment blake3 TrieLeaf [1, 2, 3, 4])) = 64"

definition test_pinned_digest :: "hash_fn \<Rightarrow> bool" where
  "test_pinned_digest blake3 \<longleftrightarrow>
     to_hex (derive_commitment blake3 TrieLeaf [1, 2, 3, 4])
       = ''80522501585b8ebf1831439e57add0002d22fe75521120104b000cc707b5a34a''"

text \<open>The two loops over pairs of vectors are \<open>distinct\<close>.\<close>

definition test_pinned_domains :: "hash_fn \<Rightarrow> bool" where
  "test_pinned_domains blake3 \<longleftrightarrow>
     (let leaf = to_hex (derive_commitment blake3 TrieLeaf [1, 2, 3, 4]);
          branch = to_hex (derive_commitment blake3 TrieBranch [1, 2, 3, 4]);
          cert = to_hex (derive_commitment blake3 LifeCert [1, 2, 3, 4]);
          ssr = to_hex (derive_commitment blake3 SsrRoot [1, 2, 3, 4])
      in leaf = ''80522501585b8ebf1831439e57add0002d22fe75521120104b000cc707b5a34a''
       \<and> branch = ''51614b8a4a5f5a2b5b7b858e626cd19b710d670ebad2e0b9b296bf282b4bfe93''
       \<and> cert = ''59fd735ed0c0923c4316ad197223aed69b6667f6a00a228aae1638a521d1f62f''
       \<and> ssr = ''1007c1368120e75ff7f8a47d6933f1440e1a6e0fd1b5e10f8721329dd5d47617''
       \<and> distinct [leaf, branch, cert, ssr])"

lemma length_hex_bytes: "length (concat (map hex_byte bs)) = 2 * length bs"
  by (induction bs) (simp_all add: hex_byte_def)

lemma hash_tests:
  "test_hash_deterministic blake3" "test_try_from_length" "test_digest_bytes" "test_hex_length blake3"
  by (simp_all add: test_hash_deterministic_def test_try_from_length_def test_digest_bytes_def try_from_slice_def
      test_hex_length_def to_hex_def length_hex_bytes)

lemma hash_difference_tests:
  "test_different_domains blake3
     \<or> collision blake3 (as_bytes TrieLeaf @ [1, 2, 3, 4]) (as_bytes TrieBranch @ [1, 2, 3, 4])"
  "test_different_bytes blake3 \<or> collision blake3 (as_bytes LifeCert @ [1, 2, 3]) (as_bytes LifeCert @ [1, 2, 4])"
  by (auto simp: test_different_domains_def test_different_bytes_def derive_commitment_eq_iff)

text \<open>The pinned vectors are consistent: four pinned digests are already distinct.\<close>

lemma pinned_domains_iff:
  "test_pinned_domains blake3 \<longleftrightarrow> test_pinned_digest blake3
     \<and> to_hex (derive_commitment blake3 TrieBranch [1, 2, 3, 4])
        = ''51614b8a4a5f5a2b5b7b858e626cd19b710d670ebad2e0b9b296bf282b4bfe93''
     \<and> to_hex (derive_commitment blake3 LifeCert [1, 2, 3, 4])
        = ''59fd735ed0c0923c4316ad197223aed69b6667f6a00a228aae1638a521d1f62f''
     \<and> to_hex (derive_commitment blake3 SsrRoot [1, 2, 3, 4])
        = ''1007c1368120e75ff7f8a47d6933f1440e1a6e0fd1b5e10f8721329dd5d47617''"
  by (auto simp: test_pinned_domains_def test_pinned_digest_def Let_def)

section \<open>ssz/src/lib.rs\<close>

definition ssz_summary :: event_summary where
  "ssz_summary = \<lparr>block_timestamp = 171717, sequence_nonce = 1, actor_address = arr_fill 0xAA, payload_digest = arr_fill 0xFF\<rparr>"

definition test_summary_68_bytes :: bool where
  "test_summary_68_bytes \<longleftrightarrow> (let encoded = encode_summary ssz_summary
     in length encoded = SUMMARY_ENCODED_LEN \<and> length encoded = 68)"

definition test_snapshot_vector :: bool where
  "test_snapshot_vector \<longleftrightarrow>
     ok_and (encode_snapshot \<lparr>epoch_index = 5, event_summaries = [ssz_summary]\<rparr>) (\<lambda>encoded.
       length encoded = 80 \<and> hex_encode encoded =
         ''05000000000000000c000000c59e0200000000000100000000000000aaaaaaaaaaaaaaaaaaaaaaaaaaaaaaaaaaaaaaaaffffffffffffffffffffffffffffffffffffffffffffffffffffffffffffffff'')"

definition test_oversized_list :: bool where
  "test_oversized_list \<longleftrightarrow>
     encode_snapshot \<lparr>epoch_index = 0, event_summaries = replicate (MAX_EVENT_SUMMARIES + 1) ssz_summary\<rparr>
       = Err (ListTooLong MAX_EVENT_SUMMARIES (MAX_EVENT_SUMMARIES + 1))"

definition test_chunk_padding :: bool where
  "test_chunk_padding \<longleftrightarrow> (let chunks = chunkify [1, 2, 3]
     in length chunks = 1 \<and> take 3 (as_slice (chunks ! 0)) = [1, 2, 3] \<and> list_all (\<lambda>b. b = 0) (drop 3 (as_slice (chunks ! 0))))"

definition test_chunk_exact :: bool where
  "test_chunk_exact \<longleftrightarrow> length (chunkify (replicate 64 7)) = 2"

definition test_merkleize_deterministic :: "hash_fn \<Rightarrow> bool" where
  "test_merkleize_deterministic blake3 \<longleftrightarrow> (let chunks = chunkify [1, 2, 3, 4, 5]
     in merkleize blake3 chunks = (merkleize blake3 chunks :: (b32, unit) result))"

definition test_merkleize_differs :: "hash_fn \<Rightarrow> bool" where
  "test_merkleize_differs blake3 \<longleftrightarrow>
     merkleize blake3 (chunkify [1, 2, 3]) \<noteq> (merkleize blake3 (chunkify [1, 2, 4]) :: (b32, unit) result)"

definition test_single_chunk :: "hash_fn \<Rightarrow> bool" where
  "test_single_chunk blake3 \<longleftrightarrow> (let chunks = chunkify (replicate 10 9)
     in length chunks = 1 \<and> merkleize blake3 chunks = (Ok (chunks ! 0) :: (b32, unit) result))"

definition test_ssr_root_pinned :: "hash_fn \<Rightarrow> bool" where
  "test_ssr_root_pinned blake3 \<longleftrightarrow>
     ok_and (encode_snapshot \<lparr>epoch_index = 5, event_summaries = [ssz_summary]\<rparr>) (\<lambda>encoded.
     ok_and (ssr_root blake3 encoded :: (b32, unit) result) (\<lambda>root.
       hex_encode (as_slice root) = ''84fc188deeb381f7d1ac8454af2d21e37c8891112f6c37b4977e7d1c9b80820d''))"

lemma ssz_encoding_tests: "test_summary_68_bytes" "test_snapshot_vector" "test_chunk_padding" "test_chunk_exact"
  by code_simp+

lemma oversized_list_test: "test_oversized_list"
  by (simp add: test_oversized_list_def encode_snapshot_def)

lemma merkle_tests: "test_merkleize_deterministic blake3" "test_merkleize_differs blake3" "test_single_chunk blake3"
  by code_simp+

text \<open>The pinned root is the value of three hashes, over four chunks of which the last is padding.\<close>

lemma merkleize_three:
  "merkleize blake3 [a, b, c] = Ok (hash_pair blake3 (hash_pair blake3 a b) (hash_pair blake3 c (arr_fill 0)))"
proof -
  have "pad_leaves [a, b, c] = [a, b, c, arr_fill 0]" by code_simp
  then show ?thesis by (simp add: merkleize_def fold_layers.simps)
qed

lemma ssr_root_pinned_iff:
  "test_ssr_root_pinned blake3 \<longleftrightarrow>
     (let c = chunkify (u64_to_le_bytes 5 @ u32_to_le_bytes 12 @ encode_summary ssz_summary) in
      hex_encode (as_slice (hash_pair blake3 (hash_pair blake3 (c ! 0) (c ! 1)) (hash_pair blake3 (c ! 2) (arr_fill 0))))
        = ''84fc188deeb381f7d1ac8454af2d21e37c8891112f6c37b4977e7d1c9b80820d'')"
proof -
  let ?bytes = "u64_to_le_bytes 5 @ u32_to_le_bytes 12 @ encode_summary ssz_summary"
  have enc: "encode_snapshot \<lparr>epoch_index = 5, event_summaries = [ssz_summary]\<rparr> = Ok ?bytes"
    by (simp add: encode_snapshot_def MAX_EVENT_SUMMARIES_def FIXED_HEADER_LEN_def)
  have "length (chunkify ?bytes) = 3" by code_simp
  then obtain a b c where "chunkify ?bytes = [a, b, c]" by (auto simp: length_Suc_conv numeral_3_eq_3)
  then show ?thesis by (simp add: test_ssr_root_pinned_def enc ssr_root_def merkleize_three)
qed

section \<open>ssz/src/decode.rs\<close>

definition decode_summary_sample :: event_summary where
  "decode_summary_sample =
     \<lparr>block_timestamp = 171717, sequence_nonce = 7, actor_address = arr_fill 0xAB, payload_digest = arr_fill 0xCD\<rparr>"

definition decode_certificate_sample :: certificate where
  "decode_certificate_sample =
     \<lparr>ct_address = arr_fill 0x42,
      ct_generation = \<lparr>vg_key = GenerationKey (arr_fill 0x42) 3, vg_proof_root = arr_fill 1\<rparr>,
      ct_nonce = 12, ct_balance = last_byte 99, ct_code_hash = arr_fill 0xEE, ct_storage_root = Verified (arr_fill 0x77)\<rparr>"

fun is_truncated :: "ssz_decode_error \<Rightarrow> bool" where
  "is_truncated (Truncated a b) = True"
| "is_truncated e = False"

fun is_trailing :: "ssz_decode_error \<Rightarrow> bool" where
  "is_trailing (TrailingBytes a b) = True"
| "is_trailing e = False"

fun is_invalid_offset :: "ssz_decode_error \<Rightarrow> bool" where
  "is_invalid_offset (InvalidOffset a b) = True"
| "is_invalid_offset e = False"

fun is_misaligned :: "ssz_decode_error \<Rightarrow> bool" where
  "is_misaligned (MisalignedList a b) = True"
| "is_misaligned e = False"

definition test_summary_round_trip :: bool where
  "test_summary_round_trip \<longleftrightarrow>
     ok_and (decode_summary (encode_summary decode_summary_sample)) (\<lambda>decoded. decoded = decode_summary_sample)"

definition test_summary_lengths :: bool where
  "test_summary_lengths \<longleftrightarrow> (let encoded = encode_summary decode_summary_sample
     in err_and (decode_summary (take (length encoded - 1) encoded)) is_truncated
      \<and> err_and (decode_summary (encoded @ [0])) is_trailing)"

definition test_snapshot_round_trips :: bool where
  "test_snapshot_round_trips \<longleftrightarrow> list_all (\<lambda>count.
     let original = \<lparr>epoch_index = 5, event_summaries = replicate count decode_summary_sample\<rparr>
     in ok_and (encode_snapshot original) (\<lambda>encoded.
        ok_and (decode_snapshot encoded) (\<lambda>decoded. decoded = original))) [0, 1, 3]"

definition test_snapshot_corrupted :: bool where
  "test_snapshot_corrupted \<longleftrightarrow>
     ok_and (encode_snapshot \<lparr>epoch_index = 1, event_summaries = [decode_summary_sample]\<rparr>) (\<lambda>encoded.
       err_and (decode_snapshot (encoded[8 := 0xFF])) is_invalid_offset
       \<and> err_and (decode_snapshot (butlast encoded)) is_misaligned)"

definition test_certificate_round_trip :: bool where
  "test_certificate_round_trip \<longleftrightarrow>
     ok_and (encode_certificate decode_certificate_sample) (\<lambda>encoded.
     ok_and (decode_certificate encoded) (\<lambda>decoded. decoded = decode_certificate_sample))"

definition test_certificate_lengths :: bool where
  "test_certificate_lengths \<longleftrightarrow>
     ok_and (encode_certificate decode_certificate_sample) (\<lambda>encoded.
       err_and (decode_certificate (take 100 encoded)) is_truncated
       \<and> err_and (decode_certificate (encoded @ [0])) is_trailing)"

definition test_certificate_fields :: bool where
  "test_certificate_fields \<longleftrightarrow>
     ok_and (encode_certificate decode_certificate_sample) (\<lambda>encoded.
     ok_and (decode_certificate encoded) (\<lambda>decoded.
       gk_address (vg_key (ct_generation decoded)) = ct_address decode_certificate_sample
       \<and> gk_id (vg_key (ct_generation decoded)) = 3
       \<and> vg_proof_root (ct_generation decoded) = arr_fill 1
       \<and> ct_storage_root decoded = Verified (arr_fill 0x77)))"

lemma decode_tests:
  "test_summary_round_trip" "test_summary_lengths" "test_snapshot_round_trips" "test_snapshot_corrupted"
  "test_certificate_round_trip" "test_certificate_lengths" "test_certificate_fields"
  by code_simp+

section \<open>ssz/src/certificate.rs\<close>

definition ssz_certificate :: "address \<Rightarrow> storage_root_state \<Rightarrow> certificate" where
  "ssz_certificate address storage_root =
     \<lparr>ct_address = address, ct_generation = \<lparr>vg_key = GenerationKey address 0, vg_proof_root = arr_fill 0\<rparr>,
      ct_nonce = 7, ct_balance = last_byte 100, ct_code_hash = arr_fill 0xCC, ct_storage_root = storage_root\<rparr>"

definition test_180_bytes :: bool where
  "test_180_bytes \<longleftrightarrow>
     ok_and (encode_certificate (ssz_certificate (arr_fill 0x11) (Verified (arr_fill 0x22)))) (\<lambda>encoded.
       length encoded = 180 \<and> length encoded = CERTIFICATE_ENCODED_LEN)"

definition test_awaiting_rejected :: "hash_fn \<Rightarrow> bool" where
  "test_awaiting_rejected blake3 \<longleftrightarrow> (let cert = ssz_certificate (arr_fill 0x11) AwaitingDerivation
     in encode_certificate cert = Err UnresolvedStorageRoot \<and> commit_root blake3 cert = Err UnresolvedStorageRoot)"

definition test_field_offsets :: bool where
  "test_field_offsets \<longleftrightarrow>
     ok_and (encode_certificate (ssz_certificate (arr_fill 0xAA) (Verified (arr_fill 0x99)))) (\<lambda>encoded.
       slice 0 20 encoded = replicate 20 0xAA \<and> slice 20 40 encoded = replicate 20 0xAA
       \<and> slice 40 44 encoded = u32_to_le_bytes 0 \<and> slice 44 76 encoded = replicate 32 0
       \<and> slice 76 84 encoded = u64_to_le_bytes 7 \<and> slice 116 148 encoded = replicate 32 0xCC
       \<and> slice 148 180 encoded = replicate 32 0x99)"

definition test_commitments_differ :: "hash_fn \<Rightarrow> bool" where
  "test_commitments_differ blake3 \<longleftrightarrow>
     ok_and (commit_root blake3 (ssz_certificate (arr_fill 1) (Verified (arr_fill 2)))) (\<lambda>a.
     ok_and (commit_root blake3 (ssz_certificate (arr_fill 1) (Verified (arr_fill 3)))) (\<lambda>b. a \<noteq> b))"

definition test_commitment_deterministic :: "hash_fn \<Rightarrow> bool" where
  "test_commitment_deterministic blake3 \<longleftrightarrow> (let cert = ssz_certificate (arr_fill 5) (Verified (arr_fill 6))
     in ok_and (commit_root blake3 cert) (\<lambda>a. ok_and (commit_root blake3 cert) (\<lambda>b. a = b)))"

definition test_batch_unresolved :: "hash_fn \<Rightarrow> bool" where
  "test_batch_unresolved blake3 \<longleftrightarrow>
     commit_certificate_batch blake3
       (bt_insert (arr_fill 2) (ssz_certificate (arr_fill 2) AwaitingDerivation)
         (bt_insert (arr_fill 1) (ssz_certificate (arr_fill 1) (Verified (arr_fill 0))) bt_new))
       = Err UnresolvedStorageRoot"

definition test_batch_order :: "hash_fn \<Rightarrow> bool" where
  "test_batch_order blake3 \<longleftrightarrow>
     (let c1 = ssz_certificate (arr_fill 1) (Verified (arr_fill 0xAA));
          c2 = ssz_certificate (arr_fill 2) (Verified (arr_fill 0xBB));
          certs_a = bt_insert (arr_fill 2) c2 (bt_insert (arr_fill 1) c1 bt_new);
          certs_b = bt_insert (arr_fill 1) c1 (bt_insert (arr_fill 2) c2 bt_new)
      in ok_and (commit_certificate_batch blake3 certs_a) (\<lambda>a.
         ok_and (commit_certificate_batch blake3 certs_b) (\<lambda>b. a = b)))"

definition test_golden_vector :: "hash_fn \<Rightarrow> bool" where
  "test_golden_vector blake3 \<longleftrightarrow> (let cert = ssz_certificate (arr_fill 0x42) (Verified (arr_fill 0x77)) in
     ok_and (encode_certificate cert) (\<lambda>encoded. ok_and (commit_root blake3 cert) (\<lambda>commitment.
       hex_encode encoded = ''4242424242424242424242424242424242424242424242424242424242424242424242424242424200000000000000000000000000000000000000000000000000000000000000000000000007000000000000000000000000000000000000000000000000000000000000000000000000000064cccccccccccccccccccccccccccccccccccccccccccccccccccccccccccccccc7777777777777777777777777777777777777777777777777777777777777777''
       \<and> to_hex commitment = ''2900460538b2f458aaf17d71bd414d342a8002c9ec6607d04558c1011b5bdf9c'')))"

lemma certificate_tests:
  "test_180_bytes" "test_field_offsets" "test_awaiting_rejected blake3" "test_commitment_deterministic blake3"
  "test_batch_unresolved blake3" "test_batch_order blake3"
  by code_simp+

lemma commitments_differ_test:
  "test_commitments_differ blake3 \<or> (\<exists>bs cs. collision blake3 (as_bytes LifeCert @ bs) (as_bytes LifeCert @ cs))"
proof -
  let ?c = "\<lambda>v. ssz_certificate (arr_fill 1) (Verified (arr_fill v))"
  have ok: "ct_storage_root (?c v) \<noteq> AwaitingDerivation" for v by (simp add: ssz_certificate_def)
  then obtain x y where xy: "commit_root blake3 (?c 2) = Ok x" "commit_root blake3 (?c 3) = Ok y"
    by (simp add: commit_root_def certificate_bytes)
  have "?c 2 \<noteq> ?c 3" by (simp add: ssz_certificate_def)
  with xy commit_root_binding [of blake3 "?c 2" x "?c 3"] show ?thesis
    by (auto simp: test_commitments_differ_def)
qed

text \<open>Of the golden vector the encoding is checked here, the commitment is BLAKE3's.\<close>

lemma golden_vector_iff:
  "test_golden_vector blake3 \<longleftrightarrow>
     to_hex (derive_commitment blake3 LifeCert (certificate_bytes (ssz_certificate (arr_fill 0x42) (Verified (arr_fill 0x77)))))
       = ''2900460538b2f458aaf17d71bd414d342a8002c9ec6607d04558c1011b5bdf9c''"
proof -
  let ?c = "ssz_certificate (arr_fill 0x42) (Verified (arr_fill 0x77))"
  have "ct_storage_root ?c \<noteq> AwaitingDerivation" by (simp add: ssz_certificate_def)
  then have enc: "encode_certificate ?c = Ok (certificate_bytes ?c)" by (rule certificate_bytes)
  have "hex_encode (certificate_bytes ?c) = ''4242424242424242424242424242424242424242424242424242424242424242424242424242424200000000000000000000000000000000000000000000000000000000000000000000000007000000000000000000000000000000000000000000000000000000000000000000000000000064cccccccccccccccccccccccccccccccccccccccccccccccccccccccccccccccc7777777777777777777777777777777777777777777777777777777777777777''"
    by code_simp
  with enc show ?thesis by (simp add: test_golden_vector_def commit_root_def Let_def)
qed

end
