(* ===== verification/Diagnostics.thy ===== *)
theory Diagnostics
  imports End_To_End
begin

text \<open>
  The conformance properties of \<open>runtime/builder/tests/conformance.rs\<close> in general: diagnostic
  isolation, that trace contexts change no certificate and no verdict of a lifecycle pass,
  and semantic sensitivity, that certificates change with what they certify.
\<close>

section \<open>Provenance without its trace context\<close>

definition bare :: "trace_provenance \<Rightarrow> trace_provenance" where
  "bare p = default_provenance\<lparr>trace_ordinal := trace_ordinal p\<rparr>"

definition bare_obs :: "observed_lifecycle \<Rightarrow> observed_lifecycle" where
  "bare_obs x = x\<lparr>ol_provenance := bare (ol_provenance x)\<rparr>"

definition bare_relation :: "generation_relation \<Rightarrow> generation_relation" where
  "bare_relation g = g\<lparr>gn_begin := bare (gn_begin g), gn_end := map_option bare (gn_end g)\<rparr>"

definition bare_gen :: "canonical_generation \<Rightarrow> canonical_generation" where
  "bare_gen g = g\<lparr>cg_begin := bare (cg_begin g), cg_end := map_option bare (cg_end g)\<rparr>"

definition bare_diag :: "diagnostic \<Rightarrow> diagnostic" where
  "bare_diag d = d\<lparr>dg_location := bare (dg_location d)\<rparr>"

text \<open>What is left of the output of a lifecycle pass.\<close>

definition bare_pass :: "canonical_ir pass_output
    \<Rightarrow> canonical_pre_state list \<times> canonical_generation list \<times> diagnostic list \<times> invariant_report" where
  "bare_pass out = (ci_pre_states (pass_value out), map bare_gen (ci_generations (pass_value out)),
     map bare_diag (pass_diagnostics out), pass_report out)"

lemma bare_simps [simp]:
  "trace_ordinal (bare p) = trace_ordinal p" "bare default_provenance = default_provenance"
  "lifecycle_payload (bare_obs x) = lifecycle_payload x" "ol_provenance (bare_obs x) = bare (ol_provenance x)"
  "cg_key (bare_gen g) = cg_key g" "cg_begin (bare_gen g) = bare (cg_begin g)"
  "cg_end (bare_gen g) = map_option bare (cg_end g)"
  "gen_rank (bare_gen g) = gen_rank g" "gen_cmp (bare_gen g) (bare_gen h) = gen_cmp g h"
  "is_created (bare_obs x) = is_created x" "dg_severity (bare_diag d) = dg_severity d"
  by (simp_all add: bare_def default_provenance_def bare_obs_def bare_gen_def bare_diag_def gen_rank_def gen_cmp_def
      is_created.simps)

lemma bare_bare [simp]: "bare (bare p) = bare p" "bare_gen (bare_gen g) = bare_gen g" "bare_diag (bare_diag d) = bare_diag d"
proof -
  show bare: "bare (bare p) = bare p" for p by (simp add: bare_def default_provenance_def)
  show "bare_gen (bare_gen g) = bare_gen g" "bare_diag (bare_diag d) = bare_diag d"
    by (simp_all add: bare_gen_def bare_diag_def option.map_comp comp_def bare)
qed

section \<open>Resolution\<close>

lemma bare_observations:
  assumes "same_lives t u"
  shows "map (\<lambda>(a, obs). (a, map bare_obs obs)) (entries t) = map (\<lambda>(a, obs). (a, map bare_obs obs)) (entries u)"
proof -
  have eq: "bare_obs x = bare_obs y" if "same_observation x y" for x y
    using that by (cases x; cases y) (simp add: same_observation_def bare_obs_def bare_def)
  have "map bare_obs xs = map bare_obs ys" if "list_all2 same_observation xs ys" for xs ys
    using that by (induction rule: list_all2_induct) (simp_all add: eq)
  moreover have "rel_option (list_all2 same_observation) (bt_get t a) (bt_get u a)" for a
    using assms by (simp add: same_lives_def)
  ultimately have "map_option (map bare_obs) (bt_get t a) = map_option (map bare_obs) (bt_get u a)" for a
    by (cases "bt_get t a"; cases "bt_get u a") (metis option.rel_distinct option.rel_inject(2) option.simps(8,9))+
  then have "bt_map (\<lambda>_. map bare_obs) t = bt_map (\<lambda>_. map bare_obs) u" by (intro bt.map_ext) simp
  moreover have "entries (bt_map (\<lambda>_. map bare_obs) m) = map (\<lambda>(a, obs). (a, map bare_obs obs)) (entries m)"
    for m :: "(address, observed_lifecycle list) btree_map"
    by (rule entries_map_option) simp
  ultimately show ?thesis by metis
qed

lemma lifetimes_bare: "lifetimes a n (bare b) opn (map bare_obs os) = map bare_relation (lifetimes a n b opn os)"
  by (induction a n b opn os rule: lifetimes.induct) (simp_all add: bare_relation_def)

lemma collisions_bare: "collisions a ex n (map bare_obs os) = map bare_diag (collisions a ex n os)"
  by (induction a ex n os rule: collisions.induct) (simp_all add: collision_diagnostic_def bare_diag_def)

lemma canonical_bare: "canonical_generation_of (bare_relation g) = bare_gen (canonical_generation_of g)"
  by (simp add: canonical_generation_of_def bare_relation_def bare_gen_def)

lemma generations_bare:
  "table_generations (map (\<lambda>(a, obs). (a, map bare_obs obs)) es) = map bare_gen (table_generations es)"
proof -
  have "map canonical_generation_of (account_lifetimes (a, map bare_obs obs))
      = map bare_gen (map canonical_generation_of (account_lifetimes (a, obs)))" for a obs
  proof (cases obs)
    case (Cons o1 os)
    show ?thesis
      using lifetimes_bare [of a 0 "ol_provenance o1" True obs] by (simp add: account_lifetimes_def canonical_bare Cons)
  qed (simp add: account_lifetimes_def canonical_generation_of_def bare_gen_def)
  then show ?thesis by (simp add: table_generations_def map_concat comp_def split_def)
qed

section \<open>Canonicalization\<close>

lemma sort_bare: "sort_key gen_rank (map bare_gen gs) = map bare_gen (sort_key gen_rank gs)"
proof -
  have insort: "insort_key gen_rank (bare_gen g) (map bare_gen gs) = map bare_gen (insort_key gen_rank g gs)" for g gs
    by (induction gs) simp_all
  show ?thesis by (induction gs) (simp_all add: insort)
qed

lemma dedup_map:
  assumes "\<And>a b. eq' (f a) (f b) = eq a b"
  shows "dedup_by eq' (map f xs) = map f (dedup_by eq xs)"
proof -
  have "(\<And>a b. eq' (f a) (f b) = eq a b) \<Longrightarrow> dedup_by eq' (map f xs) = map f (dedup_by eq xs)"
    by (induction eq xs rule: dedup_by.induct) simp_all
  with assms show ?thesis by blast
qed

lemma dedup_bare:
  "dedup_by (\<lambda>a b. cg_key a = cg_key b) (map bare_gen gs) = map bare_gen (dedup_by (\<lambda>a b. cg_key a = cg_key b) gs)"
  by (rule dedup_map) simp

lemma windows_map: "windows2 (map f xs) = map (map_prod f f) (windows2 xs)"
  by (induction xs rule: windows2.induct) simp_all

definition bare_state :: "verify_state \<Rightarrow> verify_state" where
  "bare_state s = s\<lparr>vs_diagnostics := map bare_diag (vs_diagnostics s)\<rparr>"

lemma bare_state_simps [simp]:
  "vs_report (bare_state s) = vs_report s" "vs_seen (bare_state s) = vs_seen s" "vs_active (bare_state s) = vs_active s"
  "vs_diagnostics (bare_state s) = map bare_diag (vs_diagnostics s)"
  by (simp_all add: bare_state_def)

lemma bare_messages [simp]:
  "duplicate_key (bare_gen g) = bare_diag (duplicate_key g)" "interval_invalid (bare_gen g) = bare_diag (interval_invalid g)"
  "ordering_breach (bare_gen g) = bare_diag (ordering_breach g)" "overlap_detected (bare_gen g) = bare_diag (overlap_detected g)"
  by (simp_all add: duplicate_key_def interval_invalid_def ordering_breach_def overlap_detected_def schema_error_def bare_diag_def)

lemma verify_steps_bare:
  "verify_generation (bare_state s) (bare_gen g) = bare_state (verify_generation s g)"
  "verify_window (bare_state s) (bare_gen g, bare_gen h) = bare_state (verify_window s (g, h))"
  by (auto simp: verify_generation_def verify_window_def report_error_def Let_def bare_state_def split: option.splits)

lemma canonicalize_bare:
  "bare_pass (canonicalize pres (map bare_gen gs) []) = bare_pass (canonicalize pres gs [])"
proof -
  let ?gs = "dedup_by (\<lambda>a b. cg_key a = cg_key b) (sort_key gen_rank gs)"
  have "foldl verify_generation (bare_state s) (map bare_gen xs) = bare_state (foldl verify_generation s xs)" for s xs
    by (induction xs arbitrary: s) (simp_all add: verify_steps_bare)
  moreover have "foldl verify_window (bare_state s) (map (map_prod bare_gen bare_gen) ws) = bare_state (foldl verify_window s ws)"
    for s ws
    by (induction ws arbitrary: s) (auto simp: verify_steps_bare)
  moreover define s0 where "s0 = \<lparr>vs_diagnostics = [], vs_report = \<lparr>keys_unique = True, referential_integrity = True,
      deterministic_order = True, intervals_valid = True\<rparr>, vs_seen = {}, vs_active = {}\<rparr>"
  moreover have "bare_state s0 = s0" by (simp add: s0_def bare_state_def)
  ultimately have "foldl verify_window (foldl verify_generation s0 (map bare_gen ?gs)) (windows2 (map bare_gen ?gs))
      = bare_state (foldl verify_window (foldl verify_generation s0 ?gs) (windows2 ?gs))"
    by (metis windows_map)
  then show ?thesis
    by (simp add: canonicalize_def canonical_form_def sort_bare dedup_bare verify_global_schema_def s0_def [symmetric]
        bare_pass_def Let_def comp_def)
qed

lemma process_bucket_bare:
  assumes "same_reduced rb rb'"
  shows "bare_pass (process_bucket pre_states rb) = bare_pass (process_bucket pre_states rb')"
proof -
  let ?strip = "map (\<lambda>(a, obs). (a, map bare_obs obs))"
  have out: "bare_pass (process_bucket pre_states b) =
      (let es = ?strip (entries (rb_lifecycle_table b));
           out = bare_pass (canonicalize (table_pre_states pre_states es) (table_generations es) [])
       in (fst out, fst (snd out),
           fst (snd (snd out)) @ concat (map (\<lambda>(a, obs). map bare_diag (collisions a (existed_in pre_states a) 0 obs)) es),
           snd (snd (snd out))))" for b :: reduced_bucket
  proof -
    let ?es = "entries (rb_lifecycle_table b)"
    have pres: "table_pre_states pre_states (?strip ?es) = table_pre_states pre_states ?es"
      by (simp add: table_pre_states_def split_def comp_def)
    have colls: "concat (map (\<lambda>(a, obs). map bare_diag (collisions a (existed_in pre_states a) 0 obs)) (?strip ?es))
        = map bare_diag (concat (map (\<lambda>(a, obs). collisions a (existed_in pre_states a) 0 obs) ?es))"
      by (simp add: map_concat split_def comp_def collisions_bare)
    show ?thesis
      unfolding Let_def generations_bare canonicalize_bare pres colls
      by (simp add: process_bucket_eq Let_def bare_pass_def)
  qed
  have "?strip (entries (rb_lifecycle_table rb)) = ?strip (entries (rb_lifecycle_table rb'))"
    by (rule bare_observations) (use assms in \<open>simp add: same_reduced_def\<close>)
  then show ?thesis by (simp only: out)
qed

section \<open>Certificates\<close>

lemma resolve_generation_bare:
  "resolve_generation_for_address (map bare_gen gs) a = resolve_generation_for_address gs a"
  by (simp add: resolve_generation_for_address_def filter_map comp_def Let_def split: list.split)

lemma certificates_bare:
  assumes "map bare_gen gs = map bare_gen gs'"
  shows "build_canonical_certificates table gs src = build_canonical_certificates table gs' src"
proof -
  have "resolve_generation_for_address gs = resolve_generation_for_address gs'"
    using assms resolve_generation_bare by (metis ext)
  then have "resolve_identity gs src = resolve_identity gs' src" by (simp add: resolve_identity_def fun_eq_iff)
  then have "builder_step gs src = builder_step gs' src" by (intro ext) (simp only: builder_step_def)
  then show ?thesis by (simp add: build_canonical_certificates_def)
qed

lemma certify_bare:
  assumes "same_reduced rb rb'"
  shows "certify_bucket blake3 src pre_states rb = certify_bucket blake3 src pre_states rb'"
proof -
  have "map bare_gen (ci_generations (pass_value (process_bucket pre_states rb)))
      = map bare_gen (ci_generations (pass_value (process_bucket pre_states rb')))"
    using process_bucket_bare [OF assms, of pre_states] by (simp add: bare_pass_def)
  note build = certificates_bare [OF this]
  have "state_table rb = state_table rb'" using assms by (simp add: same_reduced_def)
  then show ?thesis by (simp only: certify_bucket_def Let_def build)
qed

text \<open>
  What the builder makes of a stream: for each transaction its certificates, and the
  output of its lifecycle pass without trace contexts.
\<close>

definition certified_stream ::
    "hash_fn \<Rightarrow> snapshot_source \<Rightarrow> (address, bool) btree_map \<Rightarrow> cse_event list
     \<Rightarrow> (((certificate list, certify_error) result
        \<times> canonical_pre_state list \<times> canonical_generation list \<times> diagnostic list \<times> invariant_report) list, builder_error) result" where
  "certified_stream blake3 src pre_states es =
     bind_res (build_reduced es) (\<lambda>ir.
     Ok (map (\<lambda>rb. (certify_bucket blake3 src pre_states rb, bare_pass (process_bucket pre_states rb)))
       (reduced_buckets ir)))"

section \<open>What certificates determine\<close>

lemma certified_addresses:
  assumes "certify_bucket blake3 src pre_states rb = Ok cs" and "typed_table (state_table rb)"
  obtains certs gens where "cs = bt_values certs"
    "\<And>a. bt_get certs a = None \<longleftrightarrow> \<not> touched (entries (state_table rb)) a"
    "\<And>a c. bt_get certs a = Some c \<Longrightarrow> \<exists>d slots. certificate_says (state_table rb) gens src a d
      \<and> (\<forall>s. bt_get slots s = slot_after (state_table rb) a s)
      \<and> derive blake3 slots = Ok (case ct_storage_root c of Verified r \<Rightarrow> r | _ \<Rightarrow> arr_fill 0)
      \<and> ct_address c = a \<and> ct_nonce c = ct_nonce d \<and> ct_balance c = ct_balance d \<and> ct_code_hash c = ct_code_hash d"
proof -
  obtain certs certs' gens where
    build: "build_canonical_certificates (state_table rb) gens src = Ok certs" and cs: "cs = bt_values certs'"
    and roots: "\<And>a. \<exists>slots root. (\<forall>s. bt_get slots s = slot_after (state_table rb) a s) \<and> derive blake3 slots = Ok root
        \<and> bt_get certs' a = map_option (\<lambda>c. c\<lparr>ct_storage_root := Verified root\<rparr>) (bt_get certs a)"
    using assms(1) by (rule certify_bucket_Ok) (rule that)
  have certs: "if touched (entries (state_table rb)) a
      then \<exists>c. certificate_says (state_table rb) gens src a c \<and> bt_get certs a = Some c else bt_get certs a = None" for a
    using build unfolding build_certificates_Ok [OF assms(2)] certificate_for_Ok by blast
  show ?thesis
  proof (rule that [OF cs])
    show "bt_get certs' a = None \<longleftrightarrow> \<not> touched (entries (state_table rb)) a" for a
      using roots [of a] certs [of a] by (auto split: if_splits)
    show "\<exists>d slots. certificate_says (state_table rb) gens src a d \<and> (\<forall>s. bt_get slots s = slot_after (state_table rb) a s)
        \<and> derive blake3 slots = Ok (case ct_storage_root c of Verified r \<Rightarrow> r | _ \<Rightarrow> arr_fill 0)
        \<and> ct_address c = a \<and> ct_nonce c = ct_nonce d \<and> ct_balance c = ct_balance d \<and> ct_code_hash c = ct_code_hash d"
      if got: "bt_get certs' a = Some c" for a c
    proof -
      obtain slots root where root: "\<forall>s. bt_get slots s = slot_after (state_table rb) a s" "derive blake3 slots = Ok root"
        "bt_get certs' a = map_option (\<lambda>c. c\<lparr>ct_storage_root := Verified root\<rparr>) (bt_get certs a)"
        using roots [of a] by blast
      then obtain d where d: "bt_get certs a = Some d" "c = d\<lparr>ct_storage_root := Verified root\<rparr>"
        using got by (cases "bt_get certs a") auto
      with certs [of a] have "certificate_says (state_table rb) gens src a d" by (auto split: if_splits)
      with d root(1,2) show ?thesis
        by (intro exI [of _ d] exI [of _ slots]) (simp add: certificate_says_def)
    qed
  qed
qed

text \<open>The account after a transaction: what it wrote, and otherwise what the source knows.\<close>

definition final_account :: "(canonical_key, reduced_variant) btree_map \<Rightarrow> snapshot_source \<Rightarrow> address \<Rightarrow> account_snapshot" where
  "final_account table src a =
     (let known = (case recover_account_snapshot src a of Ok s \<Rightarrow> s | _ \<Rightarrow> empty_account)
      in \<lparr>as_nonce = (case nonce_after table a of Some n \<Rightarrow> n | None \<Rightarrow> as_nonce known),
          as_balance = (case balance_after table a of Some v \<Rightarrow> v | None \<Rightarrow> as_balance known),
          as_code_hash = (case code_after table a of Some h \<Rightarrow> h | None \<Rightarrow> as_code_hash known)\<rparr>)"

lemma certified_final:
  "certificate_says table gens src a c \<Longrightarrow>
    final_account table src a = \<lparr>as_nonce = ct_nonce c, as_balance = ct_balance c, as_code_hash = ct_code_hash c\<rparr>"
  by (cases "nonce_after table a"; cases "balance_after table a"; cases "code_after table a")
    (auto simp: certificate_says_def final_account_def Let_def)

lemma same_values:
  assumes "bt_values m = bt_values m'" and "\<And>a c. bt_get m a = Some c \<Longrightarrow> key c = a"
    and "\<And>a c. bt_get m' a = Some c \<Longrightarrow> key c = a"
  shows "m = m'"
proof -
  have "entries n = map (\<lambda>c. (key c, c)) (bt_values n)" if n: "\<And>a c. bt_get n a = Some c \<Longrightarrow> key c = a" for n
  proof -
    have "(key (snd e), snd e) = e" if "e \<in> set (entries n)" for e
      using n that bt.in_iter_iff [of "fst e" "snd e" n] by (cases e) simp
    then show ?thesis by (simp add: bt_values_def comp_def map_idI)
  qed
  with assms have "entries m = entries m'" by metis
  then show ?thesis by (simp add: entries_inject)
qed

section \<open>Properties\<close>

text \<open>
  C9: diagnostic isolation, for every stream: replacing the call frame and depth of every
  event, in whatever way, changes neither the success nor the error of the builder's
  stages, no certificate and no error of certification, and of the lifecycle passes only
  the frames that their provenance repeats: relations, diagnostics and report stay.
\<close>

theorem certificates_ignore_trace:
  "certified_stream blake3 src pre_states (map (retrace f) es) = certified_stream blake3 src pre_states es"
  unfolding certified_stream_def
proof (rule rel_res_bind [OF build_reduced_retrace, symmetric])
  fix ir ir' :: reduced_ir
  assume "same_ir ir ir'"
  then have "map (\<lambda>rb. (certify_bucket blake3 src pre_states rb, bare_pass (process_bucket pre_states rb))) (reduced_buckets ir)
    = map (\<lambda>rb. (certify_bucket blake3 src pre_states rb, bare_pass (process_bucket pre_states rb))) (reduced_buckets ir')"
    by (induction rule: list_all2_induct) (simp_all add: certify_bare process_bucket_bare)
  then show "Ok (map (\<lambda>rb. (certify_bucket blake3 src pre_states rb, bare_pass (process_bucket pre_states rb))) (reduced_buckets ir))
    = Ok (map (\<lambda>rb. (certify_bucket blake3 src pre_states rb, bare_pass (process_bucket pre_states rb))) (reduced_buckets ir'))"
    by simp
qed

text \<open>
  C10: semantic sensitivity: equal certificates certify equal effects.  If two transactions,
  whatever their snapshot sources and earlier lifetimes, yield the same certificates, then
  they touch the same accounts, and each of these ends with the same nonce, balance and code
  hash, where a value the transaction did not write is the source's; and the slots written
  are the same, with the same final values, or the strings hashed for the two storage
  roots contain a collision of BLAKE3 or a string it maps to 32 zero bytes.
\<close>

theorem certificates_semantically_sensitive:
  assumes "typed_table (state_table rb)" and "typed_table (state_table rb')"
    and "certify_bucket blake3 src pre_states rb = Ok cs" and "certify_bucket blake3 src' pre_states' rb' = Ok cs"
  shows "(touched (entries (state_table rb)) a \<longleftrightarrow> touched (entries (state_table rb')) a)
    \<and> (touched (entries (state_table rb)) a \<longrightarrow>
        final_account (state_table rb) src a = final_account (state_table rb') src' a
        \<and> (\<exists>s s'. (\<forall>k. bt_get s k = slot_after (state_table rb) a k) \<and> (\<forall>k. bt_get s' k = slot_after (state_table rb') a k)
          \<and> (s = s' \<or> collide_among blake3 (storage_inputs blake3 s) (storage_inputs blake3 s')
              \<or> zero_hashed blake3 (storage_inputs blake3 s) \<or> zero_hashed blake3 (storage_inputs blake3 s'))))"
proof -
  obtain certs gens where cs: "cs = bt_values certs"
    and acc: "\<And>a. bt_get certs a = None \<longleftrightarrow> \<not> touched (entries (state_table rb)) a"
    and says: "\<And>a c. bt_get certs a = Some c \<Longrightarrow> \<exists>d slots. certificate_says (state_table rb) gens src a d
      \<and> (\<forall>s. bt_get slots s = slot_after (state_table rb) a s)
      \<and> derive blake3 slots = Ok (case ct_storage_root c of Verified r \<Rightarrow> r | _ \<Rightarrow> arr_fill 0)
      \<and> ct_address c = a \<and> ct_nonce c = ct_nonce d \<and> ct_balance c = ct_balance d \<and> ct_code_hash c = ct_code_hash d"
    using assms(3,1) by (rule certified_addresses) (rule that)
  obtain certs' gens' where cs': "cs = bt_values certs'"
    and acc': "\<And>a. bt_get certs' a = None \<longleftrightarrow> \<not> touched (entries (state_table rb')) a"
    and says': "\<And>a c. bt_get certs' a = Some c \<Longrightarrow> \<exists>d slots. certificate_says (state_table rb') gens' src' a d
      \<and> (\<forall>s. bt_get slots s = slot_after (state_table rb') a s)
      \<and> derive blake3 slots = Ok (case ct_storage_root c of Verified r \<Rightarrow> r | _ \<Rightarrow> arr_fill 0)
      \<and> ct_address c = a \<and> ct_nonce c = ct_nonce d \<and> ct_balance c = ct_balance d \<and> ct_code_hash c = ct_code_hash d"
    using assms(4,2) by (rule certified_addresses) (rule that)
  have "certs = certs'"
    using cs cs' says says' by (intro same_values [of _ _ ct_address]) blast+
  then have touched: "touched (entries (state_table rb)) a \<longleftrightarrow> touched (entries (state_table rb')) a"
    using acc acc' by blast
  show ?thesis
  proof (cases "bt_get certs a")
    case None
    then have "\<not> touched (entries (state_table rb)) a" using acc by blast
    then show ?thesis using touched by simp
  next
    case (Some c)
    obtain d slots where d: "certificate_says (state_table rb) gens src a d"
      "\<forall>s. bt_get slots s = slot_after (state_table rb) a s"
      "derive blake3 slots = Ok (case ct_storage_root c of Verified r \<Rightarrow> r | _ \<Rightarrow> arr_fill 0)"
      "ct_nonce c = ct_nonce d" "ct_balance c = ct_balance d" "ct_code_hash c = ct_code_hash d"
      using says [OF Some] by blast
    obtain d' slots' where d': "certificate_says (state_table rb') gens' src' a d'"
      "\<forall>s. bt_get slots' s = slot_after (state_table rb') a s"
      "derive blake3 slots' = Ok (case ct_storage_root c of Verified r \<Rightarrow> r | _ \<Rightarrow> arr_fill 0)"
      "ct_nonce c = ct_nonce d'" "ct_balance c = ct_balance d'" "ct_code_hash c = ct_code_hash d'"
      using says' Some unfolding \<open>certs = certs'\<close> by blast
    have "derive blake3 slots = derive blake3 slots'" using d(3) d'(3) by simp
    note slots = storage_root_binding_any [OF this]
    have "final_account (state_table rb) src a = final_account (state_table rb') src' a"
      using certified_final [OF d(1)] certified_final [OF d'(1)] d(4-6) d'(4-6) by simp
    then show ?thesis using touched d(2) d'(2) slots by blast
  qed
qed

text \<open>The hash that maps everything to zero: two tables that differ in one slot have the same certificates.\<close>

definition slot_bucket :: "u8 \<Rightarrow> reduced_bucket" where
  "slot_bucket v =
     \<lparr>rb_metadata = \<lparr>tm_chain_id = 1, tm_block_number = 1, tm_block_hash = arr_fill 0, tm_transaction_hash = arr_fill 0,
        tm_transaction_index = 0\<rparr>,
      state_table = bt_insert (StorageKey (arr_fill 1) (arr_fill 2))
        (StorageRt \<lparr>initial = arr_fill 0, terminal = arr_fill v, rt_provenance = new_provenance\<rparr>) bt_new,
      rb_lifecycle_table = bt_new, rb_log_table = bt_new, gas_refund = None\<rparr>"

theorem certificates_semantically_sensitive_witness:
  "final_account (state_table (slot_bucket 7)) null_source (arr_fill 1) = final_account (state_table (slot_bucket 8)) null_source (arr_fill 1)
    \<and> (\<exists>s s'. (\<forall>k. bt_get s k = slot_after (state_table (slot_bucket 7)) (arr_fill 1) k)
      \<and> (\<forall>k. bt_get s' k = slot_after (state_table (slot_bucket 8)) (arr_fill 1) k)
      \<and> (s = s' \<or> collide_among zero_hash (storage_inputs zero_hash s) (storage_inputs zero_hash s')
          \<or> zero_hashed zero_hash (storage_inputs zero_hash s) \<or> zero_hashed zero_hash (storage_inputs zero_hash s')))"
proof -
  have typed: "typed_table (state_table (slot_bucket v))" for v
    by (simp add: typed_table_def slot_bucket_def)
  have "certify_bucket zero_hash null_source bt_new (slot_bucket 7) = certify_bucket zero_hash null_source bt_new (slot_bucket 8)"
    by code_simp
  moreover obtain cs where "certify_bucket zero_hash null_source bt_new (slot_bucket 8) = Ok cs"
    using null_certified unfolding is_ok_iff by blast
  moreover have "touched (entries (state_table (slot_bucket 7))) (arr_fill 1)"
    by (simp add: touched_def slot_bucket_def)
  ultimately have certified: "certify_bucket zero_hash null_source bt_new (slot_bucket 7) = Ok cs"
    "certify_bucket zero_hash null_source bt_new (slot_bucket 8) = Ok cs"
    "touched (entries (state_table (slot_bucket 7))) (arr_fill 1)" by simp_all
  show ?thesis
    using certificates_semantically_sensitive [OF typed typed certified(1,2), where a = "arr_fill 1"] certified(3)
    by blast
qed

end
