(* ===== verification/Protocol.thy ===== *)
theory Protocol
  imports Prelude
begin

text \<open>
  \<open>runtime/protocol/src/errors.rs\<close>: the public error type and its messages.
\<close>

datatype protocol_error = InvalidGenesisContext | LengthLimitExceeded | NonCanonicalInputOrder

text \<open>\<open>Display::fmt\<close>.\<close>

fun display :: "protocol_error \<Rightarrow> string" where
  "display InvalidGenesisContext = ''invalid genesis context''"
| "display LengthLimitExceeded = ''length limit exceeded''"
| "display NonCanonicalInputOrder = ''input is not in canonical order''"

text \<open>A message identifies its error.\<close>

lemma display_inject: "display e = display e' \<longleftrightarrow> e = e'"
  by (cases e; cases e') simp_all

end
