(* ===== verification/Conformance_Builder.thy ===== *)
theory Conformance_Builder
  imports Conformance_Ssz Diagnostics Protocol
begin

text \<open>
  The unit tests of the crate \<open>builder\<close> (\<open>lifecycle/{certificate,hydration,storage_root,
  canonicalize}.rs\<close>), the end of those of \<open>ssz/src/certificate.rs\<close>, and the conformance
  tests of \<open>builder/tests/conformance.rs\<close>, as in \<open>Conformance_Ssz\<close>.
\<close>

section \<open>Fixtures\<close>

definition make_prov :: "u64 \<Rightarrow> trace_provenance" where
  "make_prov ord = \<lparr>trace_ordinal = ord, tx_index = 0, frame_id = 0, tp_call_depth = 0, frame_ordinal = 0\<rparr>"

definition make_transition :: "'v \<Rightarrow> 'v \<Rightarrow> 'v reduced_transition" where
  "make_transition v w = \<lparr>initial = v, terminal = w, rt_provenance = new_provenance\<rparr>"

definition mock_source :: "account_snapshot \<Rightarrow> snapshot_source" where
  "mock_source snapshot =
     \<lparr>resolve_identity_generation = (\<lambda>_. Ok \<lparr>vg_key = GenerationKey (arr_fill 0) 0, vg_proof_root = arr_fill 0\<rparr>),
      recover_account_snapshot = (\<lambda>_. Ok snapshot)\<rparr>"

definition test_generation :: "address \<Rightarrow> u32 \<Rightarrow> u64 \<Rightarrow> u64 option \<Rightarrow> canonical_generation" where
  "test_generation a n b e = \<lparr>cg_key = GenerationKey a n, cg_begin = make_prov b, cg_end = map_option make_prov e\<rparr>"

definition gens_for :: "address \<Rightarrow> canonical_generation list" where
  "gens_for a = [test_generation a 0 0 None]"

section \<open>certificate.rs\<close>

definition test_single_generation :: bool where
  "test_single_generation \<longleftrightarrow>
     ok_and (resolve_generation_for_address [test_generation (arr_fill 1) 0 10 None] (arr_fill 1))
       (\<lambda>resolved. gk_id (vg_key resolved) = 0)"

definition test_highest_generation :: bool where
  "test_highest_generation \<longleftrightarrow>
     ok_and (resolve_generation_for_address
         [test_generation (arr_fill 2) 0 10 (Some 20), test_generation (arr_fill 2) 1 30 None] (arr_fill 2))
       (\<lambda>resolved. gk_id (vg_key resolved) = 1)"

definition test_absent :: bool where
  "test_absent \<longleftrightarrow>
     err_and (resolve_generation_for_address [] (arr_fill 3)) (\<lambda>err. err = IdentityAbsent (arr_fill 3))"

definition test_ambiguous :: bool where
  "test_ambiguous \<longleftrightarrow>
     err_and (resolve_generation_for_address
         [test_generation (arr_fill 4) 1 10 None, test_generation (arr_fill 4) 1 15 None] (arr_fill 4))
       (\<lambda>err. err = IdentityAmbiguous (arr_fill 4))"

definition test_projection_precedence :: bool where
  "test_projection_precedence \<longleftrightarrow>
     (let addr = arr_fill 111;
          state_table = bt_insert (BalanceKey addr) (BalanceRt (make_transition (arr_fill 0) (last_byte 100))) bt_new;
          src = mock_source \<lparr>as_nonce = 10, as_balance = last_byte 255, as_code_hash = arr_fill 0xFA\<rparr>
      in ok_and (build_canonical_certificates state_table (gens_for addr) src) (\<lambda>certs.
         some_and (bt_get certs addr) (\<lambda>cert.
           ct_balance cert = last_byte 100 \<and> ct_nonce cert = 10 \<and> ct_storage_root cert = AwaitingDerivation)))"

definition test_mixed_recovery :: bool where
  "test_mixed_recovery \<longleftrightarrow>
     (let addr = arr_fill 222;
          state_table = bt_insert (BalanceKey addr) (BalanceRt (make_transition (arr_fill 0) (last_byte 55)))
            (bt_insert (StorageKey addr (arr_fill 0)) (StorageRt (make_transition (arr_fill 0) (arr_fill 1))) bt_new);
          src = mock_source \<lparr>as_nonce = 3, as_balance = last_byte 255, as_code_hash = arr_fill 0xCC\<rparr>
      in ok_and (build_canonical_certificates state_table (gens_for addr) src) (\<lambda>certs.
         some_and (bt_get certs addr) (\<lambda>cert.
           ct_balance cert = last_byte 55 \<and> ct_nonce cert = 3 \<and> ct_code_hash cert = arr_fill 0xCC)))"

definition test_multi_account :: bool where
  "test_multi_account \<longleftrightarrow>
     (let a = arr_fill 1; b = arr_fill 2;
          state_table = bt_insert (NonceKey b) (NonceRt (make_transition 0 88))
            (bt_insert (StorageKey a (arr_fill 0)) (StorageRt (make_transition (arr_fill 0) (arr_fill 1))) bt_new);
          src = mock_source \<lparr>as_nonce = 0, as_balance = arr_fill 0, as_code_hash = arr_fill 0\<rparr>
      in ok_and (build_canonical_certificates state_table (gens_for a @ gens_for b) src) (\<lambda>certs.
         length (entries certs) = 2 \<and> some_and (bt_get certs a) (\<lambda>cert. ct_nonce cert = 0)
         \<and> some_and (bt_get certs b) (\<lambda>cert. ct_nonce cert = 88)))"

lemma generation_tests: "test_single_generation" "test_highest_generation" "test_absent" "test_ambiguous"
  by code_simp+

lemma account_certificate_tests: "test_projection_precedence" "test_mixed_recovery" "test_multi_account"
  by code_simp+

section \<open>hydration.rs\<close>

definition test_identity_consistency :: bool where
  "test_identity_consistency \<longleftrightarrow>
     (let key_addr = arr_fill 42; state_addr = arr_fill 99;
          corrupted = bt_insert key_addr
            \<lparr>hy_address = state_addr, hy_snapshot = \<lparr>as_nonce = 0, as_balance = arr_fill 0, as_code_hash = arr_fill 0\<rparr>,
             hy_generation = \<lparr>vg_key = GenerationKey state_addr 1, vg_proof_root = arr_fill 0\<rparr>,
             hy_storage_root = AwaitingDerivation\<rparr> bt_new
      in assemble_certificates corrupted = Err (IdentityMismatchedKey state_addr key_addr))"

definition test_assembly :: bool where
  "test_assembly \<longleftrightarrow>
     (let addr = arr_fill 7; generation = \<lparr>vg_key = GenerationKey addr 12, vg_proof_root = arr_fill 0xFF\<rparr>;
          snapshot = \<lparr>as_nonce = 45, as_balance = arr_fill 1, as_code_hash = arr_fill 0x11\<rparr>;
          hydrated = bt_insert addr
            \<lparr>hy_address = addr, hy_snapshot = snapshot, hy_generation = generation,
             hy_storage_root = Verified (arr_fill 0x99)\<rparr> bt_new
      in ok_and (assemble_certificates hydrated) (\<lambda>certificates.
         length (entries certificates) = 1 \<and> some_and (bt_get certificates addr) (\<lambda>cert.
           ct_address cert = addr \<and> ct_generation cert = generation \<and> ct_nonce cert = 45
           \<and> ct_balance cert = arr_fill 1 \<and> ct_code_hash cert = arr_fill 0x11
           \<and> ct_storage_root cert = Verified (arr_fill 0x99))))"

definition test_hydrate_matches_build :: bool where
  "test_hydrate_matches_build \<longleftrightarrow>
     (let addr = arr_fill 123;
          state_table = bt_insert (NonceKey addr) (NonceRt (make_transition 0 9)) bt_new;
          src = mock_source \<lparr>as_nonce = 0, as_balance = arr_fill 0, as_code_hash = arr_fill 0\<rparr>
      in ok_and (hydrate_accounts state_table (gens_for addr) src) (\<lambda>hydrated.
         ok_and (assemble_certificates hydrated) (\<lambda>certs.
         ok_and (build_canonical_certificates state_table (gens_for addr) src) (\<lambda>direct. certs = direct))))"

lemma hydration_tests: "test_identity_consistency" "test_assembly" "test_hydrate_matches_build"
  by code_simp+

section \<open>canonicalize.rs\<close>

definition canonical_prov :: "u64 \<Rightarrow> trace_provenance" where
  "canonical_prov ord = \<lparr>trace_ordinal = ord, tx_index = 0, frame_id = 1, tp_call_depth = 1, frame_ordinal = 0\<rparr>"

definition test_sorting :: bool where
  "test_sorting \<longleftrightarrow>
     (let g1 = \<lparr>cg_key = GenerationKey (arr_fill 2) 1, cg_begin = canonical_prov 40, cg_end = Some (canonical_prov 50)\<rparr>;
          g2 = \<lparr>cg_key = GenerationKey (arr_fill 2) 0, cg_begin = canonical_prov 10, cg_end = Some (canonical_prov 20)\<rparr>;
          out = canonicalize [] [g1, g2] []
      in ci_generations (pass_value out) ! 0 = g2 \<and> ci_generations (pass_value out) ! 1 = g1
       \<and> deterministic_order (pass_report out) \<and> intervals_valid (pass_report out))"

definition test_projection_stability :: bool where
  "test_projection_stability \<longleftrightarrow>
     (let gens = [\<lparr>cg_key = GenerationKey (arr_fill 3) 0, cg_begin = canonical_prov 10, cg_end = Some (canonical_prov 20)\<rparr>];
          bals = [\<lparr>cb_key = GenerationKey (arr_fill 3) 0, cb_value = (7, 0, 0, 0), cb_location = canonical_prov 10\<rparr>];
          baseline = canonicalize [] gens bals; extended = canonicalize [] gens bals
      in ci_balances (pass_value baseline) = ci_balances (pass_value extended)
       \<and> ci_generations (pass_value baseline) = ci_generations (pass_value extended)
       \<and> referential_integrity (pass_report baseline))"

definition test_idempotent :: bool where
  "test_idempotent \<longleftrightarrow>
     (let pass1 = canonicalize [] [] [];
          pass2 = canonicalize (ci_pre_states (pass_value pass1)) (ci_generations (pass_value pass1)) (ci_balances (pass_value pass1))
      in pass_value pass1 = pass_value pass2)"

lemma canonicalize_tests: "test_sorting" "test_projection_stability" "test_idempotent"
  by code_simp+

section \<open>storage_root.rs\<close>

definition root_cert :: "address \<Rightarrow> certificate" where
  "root_cert address =
     \<lparr>ct_address = address, ct_generation = \<lparr>vg_key = GenerationKey address 0, vg_proof_root = arr_fill 0\<rparr>,
      ct_nonce = 0, ct_balance = arr_fill 0, ct_code_hash = arr_fill 0, ct_storage_root = AwaitingDerivation\<rparr>"

fun is_verified :: "storage_root_state \<Rightarrow> bool" where
  "is_verified (Verified r) = True"
| "is_verified AwaitingDerivation = False"

definition test_empty_storage :: "hash_fn \<Rightarrow> bool" where
  "test_empty_storage blake3 \<longleftrightarrow>
     ok_and (derive blake3 bt_new) (\<lambda>a. ok_and (derive blake3 bt_new) (\<lambda>b. a = b))"

definition test_nonempty_storage :: "hash_fn \<Rightarrow> bool" where
  "test_nonempty_storage blake3 \<longleftrightarrow>
     ok_and (derive blake3 bt_new) (\<lambda>empty_root.
     ok_and (derive blake3 (bt_insert (arr_fill 1) (arr_fill 2) bt_new)) (\<lambda>root. empty_root \<noteq> root))"

definition test_slot_values :: "hash_fn \<Rightarrow> bool" where
  "test_slot_values blake3 \<longleftrightarrow>
     ok_and (derive blake3 (bt_insert (arr_fill 1) (arr_fill 2) bt_new)) (\<lambda>a.
     ok_and (derive blake3 (bt_insert (arr_fill 1) (arr_fill 3) bt_new)) (\<lambda>b. a \<noteq> b))"

definition test_slot_order :: "hash_fn \<Rightarrow> bool" where
  "test_slot_order blake3 \<longleftrightarrow>
     ok_and (derive blake3 (bt_insert (arr_fill 2) (arr_fill 0xBB) (bt_insert (arr_fill 1) (arr_fill 0xAA) bt_new))) (\<lambda>a.
     ok_and (derive blake3 (bt_insert (arr_fill 1) (arr_fill 0xAA) (bt_insert (arr_fill 2) (arr_fill 0xBB) bt_new))) (\<lambda>b.
       a = b))"

definition test_all_resolved :: "hash_fn \<Rightarrow> bool" where
  "test_all_resolved blake3 \<longleftrightarrow>
     (let a = arr_fill 1; b = arr_fill 2;
          certs = bt_insert b (root_cert b) (bt_insert a (root_cert a) bt_new);
          state_table = bt_insert (StorageKey a (arr_fill 7)) (StorageRt (make_transition (arr_fill 0) (arr_fill 9))) bt_new
      in case resolve_storage_roots (derive blake3) certs state_table of (certs, outcome) \<Rightarrow>
         ok_and outcome (\<lambda>_. list_all (\<lambda>cert. is_verified (ct_storage_root cert)) (bt_values certs)
           \<and> some_and (bt_get certs b) (\<lambda>cert. ct_storage_root cert \<noteq> AwaitingDerivation)))"

definition test_transient_excluded :: "hash_fn \<Rightarrow> bool" where
  "test_transient_excluded blake3 \<longleftrightarrow>
     (let addr = arr_fill 3; certs = bt_insert addr (root_cert addr) bt_new;
          state_table = bt_insert (TransientKey addr (arr_fill 1)) (TransientRt (make_transition (arr_fill 0) (arr_fill 0xFF))) bt_new
      in case resolve_storage_roots (derive blake3) certs state_table of (certs, outcome) \<Rightarrow>
         ok_and outcome (\<lambda>_. ok_and (derive blake3 bt_new) (\<lambda>empty_root.
           some_and (bt_get certs addr) (\<lambda>cert. ct_storage_root cert = Verified empty_root))))"

lemma storage_root_tests:
  "test_empty_storage blake3" "test_slot_order blake3" "test_all_resolved blake3" "test_transient_excluded blake3"
  by code_simp+

lemma derive_one_slot: "derive blake3 (bt_insert s v bt_new) = Ok (slot_leaf blake3 (s, v))"
  by (simp add: derive_def trie.root_single)

text \<open>The empty root is not hashed: it is 32 zero bytes.\<close>

lemma storage_difference_tests:
  "test_nonempty_storage blake3 \<or> blake3 (leaf_input (arr_fill 1, arr_fill 2)) = arr_fill 0"
  "test_slot_values blake3
     \<or> collision blake3 (leaf_input (arr_fill 1, arr_fill 2)) (leaf_input (arr_fill 1, arr_fill 3))"
proof -
  have empty: "derive blake3 bt_new = Ok (arr_fill 0)" by code_simp
  have leaf: "slot_leaf blake3 e = blake3 (leaf_input e)" for e
    by (simp add: slot_leaf_def leaf_input_def derive_commitment_def split_def)
  show "test_nonempty_storage blake3 \<or> blake3 (leaf_input (arr_fill 1, arr_fill 2)) = arr_fill 0"
    by (simp add: test_nonempty_storage_def empty derive_one_slot leaf)
  have "leaf_input (arr_fill 1, arr_fill 2) \<noteq> leaf_input (arr_fill 1, arr_fill 3)"
    by (simp add: leaf_input_def)
  then show "test_slot_values blake3
     \<or> collision blake3 (leaf_input (arr_fill 1, arr_fill 2)) (leaf_input (arr_fill 1, arr_fill 3))"
    by (simp add: test_slot_values_def derive_one_slot leaf collision_def)
qed

section \<open>ssz/src/certificate.rs, the vertical slice\<close>

definition test_vertical_slice :: "hash_fn \<Rightarrow> bool" where
  "test_vertical_slice blake3 \<longleftrightarrow>
     (let address = arr_fill 0x55;
          state_table = bt_insert (StorageKey address (arr_fill 1)) (StorageRt (make_transition (arr_fill 0) (arr_fill 2))) bt_new;
          generations = [\<lparr>cg_key = GenerationKey address 0, cg_begin = default_provenance, cg_end = None\<rparr>]
      in ok_and (build_canonical_certificates state_table generations null_source) (\<lambda>certs.
         \<not> is_ok (commit_root blake3 (hd (bt_values certs))) \<and>
         (case resolve_storage_roots (derive blake3) certs state_table of (certs, outcome) \<Rightarrow>
            ok_and outcome (\<lambda>_. some_and (bt_get certs address) (\<lambda>cert.
              ok_and (encode_certificate cert) (\<lambda>encoded. ok_and (commit_root blake3 cert) (\<lambda>commitment.
                length encoded = 180 \<and> ok_and (commit_root blake3 cert) (\<lambda>again. commitment = again))))))))"

lemma vertical_slice_test: "test_vertical_slice blake3"
proof -
  let ?a = "arr_fill 0x55 :: address" and ?t = "make_transition (arr_fill 0) (arr_fill 2) :: b32 reduced_transition"
  let ?table = "bt_insert (StorageKey ?a (arr_fill 1)) (StorageRt ?t) bt_new"
  let ?gens = "[\<lparr>cg_key = GenerationKey ?a 0, cg_begin = default_provenance, cg_end = None\<rparr>]"
  define c where "c = root_cert ?a"
  define d where "d = c\<lparr>ct_storage_root := Verified (slot_leaf blake3 (arr_fill 1, arr_fill 2))\<rparr>"
  have build: "build_canonical_certificates ?table ?gens null_source = Ok (bt_insert ?a c bt_new)"
    unfolding c_def by code_simp
  have slots: "bt_get (slots_by_address ?table) ?a = Some (bt_insert (arr_fill 1) (arr_fill 2) bt_new)"
    by (simp add: slots_by_address_def collect_slot_def make_transition_def)
  have resolve: "resolve_storage_roots (derive blake3) (bt_insert ?a c bt_new) ?table
      = (bt_insert ?a d (bt_insert ?a c bt_new), Ok ())"
    unfolding d_def by (simp add: resolve_storage_roots_def slots derive_one_slot)
  have first: "hd (bt_values (bt_insert ?a c bt_new)) = c" by (simp add: bt_values_def)
  have waiting: "commit_root blake3 c = Err ssz_error.UnresolvedStorageRoot"
    by (simp add: c_def root_cert_def commit_root_def encode_certificate_def)
  have enc: "encode_certificate d = Ok (certificate_bytes d)" by (rule certificate_bytes) (simp add: d_def)
  have len: "length (certificate_bytes d) = 180" using enc by (rule encode_certificate_length)
  have commit: "commit_root blake3 d = Ok (derive_commitment blake3 LifeCert (certificate_bytes d))"
    by (simp add: commit_root_def enc)
  show ?thesis
    unfolding test_vertical_slice_def Let_def build resolve ok_and.simps prod.case first waiting
    by (simp add: enc commit len)
qed

section \<open>protocol/src/errors.rs\<close>

definition test_display :: bool where
  "test_display \<longleftrightarrow> display InvalidGenesisContext = ''invalid genesis context''
     \<and> display LengthLimitExceeded = ''length limit exceeded''
     \<and> display NonCanonicalInputOrder = ''input is not in canonical order''"

lemma display_test: "test_display"
  by code_simp

section \<open>builder/tests/conformance.rs\<close>

definition conformance_event :: "u64 \<Rightarrow> cse_payload \<Rightarrow> trace_context \<Rightarrow> cse_event" where
  "conformance_event seq pl t =
     \<lparr>version = V1,
      event_context = \<lparr>normative = \<lparr>sequence_number = seq\<rparr>,
        provisional = \<lparr>chain_id = 1, block_hash = arr_fill 0, block_number = 100, transaction_hash = arr_fill 0,
          transaction_index = 0\<rparr>,
        trace = t\<rparr>,
      payload = pl\<rparr>"

definition conformance_balance :: "u64 \<Rightarrow> address \<Rightarrow> b32 \<Rightarrow> b32 \<Rightarrow> trace_context \<Rightarrow> cse_event" where
  "conformance_balance seq address previous current t = conformance_event seq
     (BalanceChanged \<lparr>bc_address = address, bc_previous_balance = previous, bc_current_balance = current\<rparr>) t"

text \<open>
  The certificates of the first bucket; \<open>None\<close> where an \<open>expect\<close> or an index panics.  The test
  compares their \<open>Debug\<close> renderings, the model the certificates.
\<close>

definition bucket_certificates ::
    "(address, bool) btree_map \<Rightarrow> reduced_bucket \<Rightarrow> ((address, certificate) btree_map, generation_error) result" where
  "bucket_certificates pre_states bucket =
     build_canonical_certificates (state_table bucket) (ci_generations (pass_value (process_bucket pre_states bucket)))
       null_source"

definition run_pipeline :: "cse_event list \<Rightarrow> (address, certificate) btree_map option" where
  "run_pipeline events =
     (case build_reduced events of
        Ok reduced \<Rightarrow>
          (case reduced_buckets reduced of
             bucket # _ \<Rightarrow> (case bucket_certificates bt_new bucket of Ok certs \<Rightarrow> Some certs | _ \<Rightarrow> None)
           | [] \<Rightarrow> None)
      | _ \<Rightarrow> None)"

definition conformance_stream :: "address \<Rightarrow> b32 \<Rightarrow> trace_context \<Rightarrow> cse_event list" where
  "conformance_stream address current t =
     [conformance_event 0 BeginTransaction t, conformance_balance 1 address (arr_fill 0) current t,
      conformance_event 2 EndTransaction t]"

definition test_diagnostic_isolation :: bool where
  "test_diagnostic_isolation \<longleftrightarrow>
     (let address = arr_fill 0xAB;
          certs_a = run_pipeline (conformance_stream address (last_byte 200) \<lparr>call_frame_id = 1, call_depth = 1\<rparr>);
          certs_b = run_pipeline (conformance_stream address (last_byte 200) \<lparr>call_frame_id = 999, call_depth = 12\<rparr>)
      in certs_a \<noteq> None \<and> certs_a = certs_b)"

definition test_semantic_sensitivity :: bool where
  "test_semantic_sensitivity \<longleftrightarrow>
     (let address = arr_fill 0xCD; t = \<lparr>call_frame_id = 1, call_depth = 1\<rparr>;
          certs_a = run_pipeline (conformance_stream address (last_byte 200) t);
          certs_b = run_pipeline (conformance_stream address (last_byte 201) t)
      in certs_a \<noteq> None \<and> certs_b \<noteq> None \<and> certs_a \<noteq> certs_b)"

lemma conformance_tests: "test_diagnostic_isolation" "test_semantic_sensitivity"
  by code_simp+

text \<open>The first test holds of every stream, not only of the one in the file.\<close>

lemma bucket_certificates_isolated:
  assumes "same_reduced rb rb'"
  shows "bucket_certificates pre_states rb = bucket_certificates pre_states rb'"
proof -
  have "map bare_gen (ci_generations (pass_value (process_bucket pre_states rb)))
      = map bare_gen (ci_generations (pass_value (process_bucket pre_states rb')))"
    using process_bucket_bare [OF assms, of pre_states] by (simp add: bare_pass_def)
  note build = certificates_bare [OF this]
  have "state_table rb = state_table rb'" using assms by (simp add: same_reduced_def)
  then show ?thesis by (simp only: bucket_certificates_def build)
qed

lemma run_pipeline_isolated: "run_pipeline (map (retrace f) events) = run_pipeline events"
proof (cases "build_reduced events")
  case (Ok ir)
  then obtain ir' where ir': "build_reduced (map (retrace f) events) = Ok ir'" "same_ir ir ir'"
    using build_reduced_retrace [of events f] by (cases "build_reduced (map (retrace f) events)") auto
  show ?thesis
  proof (cases "reduced_buckets ir")
    case Nil
    then have "reduced_buckets ir' = []" using ir'(2) by simp
    then show ?thesis by (simp only: run_pipeline_def Ok ir' Nil result.case)
  next
    case (Cons rb rbs)
    then obtain rb' rbs' where "reduced_buckets ir' = rb' # rbs'" and same: "same_reduced rb rb'"
      using ir'(2) by (auto simp: list_all2_Cons1)
    then show ?thesis
      by (simp only: run_pipeline_def Ok ir' Cons result.case list.case bucket_certificates_isolated [OF same])
  qed
next
  case (Err e)
  then have "build_reduced (map (retrace f) events) = Err e"
    using build_reduced_retrace [of events f] by (cases "build_reduced (map (retrace f) events)") auto
  then show ?thesis by (simp only: run_pipeline_def Err result.case)
next
  case Panic
  then have "build_reduced (map (retrace f) events) = Panic"
    using build_reduced_retrace [of events f] by (cases "build_reduced (map (retrace f) events)") auto
  then show ?thesis by (simp only: run_pipeline_def Panic result.case)
qed

end
