(* ===== verification/Conformance_Bridge.thy ===== *)
theory Conformance_Bridge
  imports Live Conformance_Builder
begin

text \<open>
  The integration tests that start from the JSON document of a tracer:
  \<open>bridge/tests/bridge_integration.rs\<close> and \<open>verify/tests/full_pipeline.rs\<close>.  The documents
  are JSON values, read by \<open>json_serde\<close> of \<open>Wire_Json\<close>; each test is a truth value, as in
  \<open>Conformance_Ssz\<close>, and is shown to hold.
\<close>

section \<open>Documents\<close>

definition tagged :: "string \<Rightarrow> (string \<times> json_value) list \<Rightarrow> json_value" where
  "tagged k data = JObject [(''type'', json_string k), (''data'', JObject data)]"

definition fixture :: "json_value list \<Rightarrow> json_value" where
  "fixture events = JObject [(''metadata'', JObject []), (''events'', JArray events)]"

definition ADDR_A :: json_value where
  "ADDR_A = JString (byte_string ''0x1111111111111111111111111111111111111111'')"

definition ADDR_B :: json_value where
  "ADDR_B = JString (byte_string ''0x2222222222222222222222222222222222222222'')"

definition HASH_ZERO :: json_value where
  "HASH_ZERO = JString (byte_string
     ''0x0000000000000000000000000000000000000000000000000000000000000000'')"

definition HASH_ONE :: json_value where
  "HASH_ONE = JString (byte_string
     ''0x0000000000000000000000000000000000000000000000000000000000000001'')"

definition HASH_TWO :: json_value where
  "HASH_TWO = JString (byte_string
     ''0x0000000000000000000000000000000000000000000000000000000000000002'')"

definition NO_FRAME_HEX :: json_value where
  "NO_FRAME_HEX = JNumber 18446744073709551615"

text \<open>\<open>h(v)\<close>: \<open>format!("0x{:062x}{:02x}", 0, v)\<close>.\<close>

definition json_word :: "u8 \<Rightarrow> json_value" where
  "json_word v = JString (byte_string (''0x'' @ replicate 62 (CHR ''0'') @ hex_byte v))"

text \<open>The events of a document, and what becomes of it; a failed \<open>expect\<close> fails the test.\<close>

definition parse_fixture_events :: "json_value list \<Rightarrow> (go_event list, json_error stream_error) result" where
  "parse_fixture_events events = parse_event_stream (json_serde (\<lambda>_. Some (fixture events))) []"

definition run_bridge :: "json_value list \<Rightarrow> (cse_event list \<Rightarrow> bool) \<Rightarrow> bool" where
  "run_bridge events P \<longleftrightarrow>
     ok_and (parse_fixture_events events) (\<lambda>parsed. ok_and (translate parsed \<lparr>cfg_chain_id = 1\<rparr>) P)"

lemma json_number [json_simps]: "0 \<le> n \<Longrightarrow> n < 2 ^ 64 \<Longrightarrow> read_u64 (JNumber n) = Ok (of_int n)"
  by (simp add: read_u64_def)

lemma json_no_frame [json_simps]: "read_u64 NO_FRAME_HEX = Ok NO_FRAME"
  by (simp add: read_u64_def NO_FRAME_HEX_def NO_FRAME_def)

lemma json_addresses [json_simps]:
  "read_address ADDR_A = Ok (HexAddress (arr_fill 0x11))" "read_address ADDR_B = Ok (HexAddress (arr_fill 0x22))"
  by code_simp+

lemma json_hashes [json_simps]:
  "read_hash HASH_ZERO = Ok (HexHash (word32 0))" "read_hash HASH_ONE = Ok (HexHash (word32 1))"
  "read_hash HASH_TWO = Ok (HexHash (word32 2))"
  by code_simp+

lemma json_word [json_simps]: "read_hash (json_word v) = Ok (HexHash (word32 v))"
proof -
  have digits: "hex_byte 0 = ''00''" by code_simp
  have "concat (map hex_byte (as_slice (word32 v))) = concat (map hex_byte (replicate 31 0)) @ hex_byte v"
    by (simp add: word32_def)
  also have "\<dots> = replicate 62 (CHR ''0'') @ hex_byte v"
    by (simp add: digits numeral_eq_Suc)
  finally have "json_word v = json_hex (word32 v)" by (simp add: json_word_def json_hex_def marshal_hex_def)
  then show ?thesis by (simp add: json_simps)
qed

text \<open>Documents are read event by event.\<close>

lemma parse_kinds [json_simps]:
  fixes p d defines "sd \<equiv> json_serde p"
  shows "parse_tagged sd \<lparr>te_kind = ''BlockStart'', te_data = d\<rparr> = map_res BlockStart (map_err Json_Error (read_block_start d))"
    and "parse_tagged sd \<lparr>te_kind = ''TransactionStart'', te_data = d\<rparr>
      = map_res TransactionStart (map_err Json_Error (read_transaction_start d))"
    and "parse_tagged sd \<lparr>te_kind = ''FrameEnter'', te_data = d\<rparr> = map_res FrameEnter (map_err Json_Error (read_frame_enter d))"
    and "parse_tagged sd \<lparr>te_kind = ''FrameExit'', te_data = d\<rparr> = map_res FrameExit (map_err Json_Error (read_frame_exit d))"
    and "parse_tagged sd \<lparr>te_kind = ''TransactionEnd'', te_data = d\<rparr>
      = map_res TransactionEnd (map_err Json_Error (read_transaction_end d))"
    and "parse_tagged sd \<lparr>te_kind = ''BlockCommit'', te_data = d\<rparr> = Ok BlockCommit"
    and "parse_tagged sd \<lparr>te_kind = ''BalanceMutation'', te_data = d\<rparr>
      = map_res BalanceMutation (map_err Json_Error (read_balance_mutation d))"
    and "parse_tagged sd \<lparr>te_kind = ''StorageMutation'', te_data = d\<rparr>
      = map_res StorageMutation (map_err Json_Error (read_storage_mutation d))"
  by (simp_all add: sd_def parse_tagged_def json_serde_def)

lemma read_tagged_value [json_simps]: "read_tagged_event (tagged k data) = Ok \<lparr>te_kind = k, te_data = JObject data\<rparr>"
  by (simp add: read_tagged_event_def tagged_def json_simps char_of_byte_string)

lemma parse_fixture_list:
  "parse_fixture_events events =
     bind_res (map_err Json_Error (collect_res read_tagged_event events))
       (collect_res (parse_tagged (json_serde (\<lambda>_. Some (fixture events)))))"
proof -
  have "from_str (json_serde p) s = bind_res (ok_or (p s) Syntax) read_envelope" for p s
    by (simp add: json_serde_def)
  then show ?thesis
    by (simp add: parse_fixture_events_def parse_event_stream_def read_envelope_def fixture_def json_simps read_array_def)
qed

section \<open>bridge_integration.rs\<close>

text \<open>\<open>matches!(out[i].payload, CsePayload::BalanceChanged(_))\<close>.\<close>

fun is_balance_changed :: "cse_payload \<Rightarrow> bool" where
  "is_balance_changed (BalanceChanged p) = True"
| "is_balance_changed p = False"

abbreviation block_start_json :: "int \<Rightarrow> json_value" where
  "block_start_json n \<equiv> tagged ''BlockStart'' [(''Number'', JNumber n)]"

abbreviation tx_start_json :: "json_value \<Rightarrow> json_value" where
  "tx_start_json h \<equiv> tagged ''TransactionStart'' [(''TxIndex'', JNumber 0), (''Hash'', h)]"

abbreviation tx_end_json :: "bool \<Rightarrow> json_value" where
  "tx_end_json r \<equiv> tagged ''TransactionEnd'' [(''TxIndex'', JNumber 0), (''Reverted'', JBool r)]"

abbreviation frame_enter_json :: "int \<Rightarrow> json_value \<Rightarrow> int \<Rightarrow> json_value" where
  "frame_enter_json f p d \<equiv>
     tagged ''FrameEnter'' [(''FrameID'', JNumber f), (''ParentFrameID'', p), (''Depth'', JNumber d)]"

abbreviation frame_exit_json :: "int \<Rightarrow> bool \<Rightarrow> json_value" where
  "frame_exit_json f r \<equiv> tagged ''FrameExit'' [(''FrameID'', JNumber f), (''Reverted'', JBool r)]"

abbreviation balance_json :: "json_value \<Rightarrow> json_value \<Rightarrow> json_value \<Rightarrow> json_value \<Rightarrow> json_value" where
  "balance_json f a b c \<equiv>
     tagged ''BalanceMutation'' [(''FrameID'', f), (''Address'', a), (''Before'', b), (''After'', c)]"

abbreviation storage_json :: "json_value \<Rightarrow> json_value \<Rightarrow> json_value \<Rightarrow> json_value \<Rightarrow> json_value \<Rightarrow> json_value" where
  "storage_json f a k b c \<equiv>
     tagged ''StorageMutation'' [(''FrameID'', f), (''Address'', a), (''Slot'', k), (''Before'', b), (''After'', c)]"

abbreviation block_commit_json :: json_value where
  "block_commit_json \<equiv> tagged ''BlockCommit'' []"

definition test_committed_call :: bool where
  "test_committed_call \<longleftrightarrow> run_bridge
     [block_start_json 100, tx_start_json HASH_ONE, frame_enter_json 0 NO_FRAME_HEX 0,
      balance_json (JNumber 0) ADDR_A HASH_ZERO HASH_ONE, frame_exit_json 0 False, tx_end_json False, block_commit_json]
     (\<lambda>out. length out = 3 \<and> payload (out ! 0) = BeginTransaction \<and> is_balance_changed (payload (out ! 1))
       \<and> payload (out ! 2) = EndTransaction \<and> seq_of (out ! 0) = 0 \<and> seq_of (out ! 1) = 1 \<and> seq_of (out ! 2) = 2)"

definition test_root_revert :: bool where
  "test_root_revert \<longleftrightarrow> run_bridge
     [block_start_json 100, tx_start_json HASH_ONE, frame_enter_json 0 NO_FRAME_HEX 0,
      storage_json (JNumber 0) ADDR_A HASH_ZERO HASH_ZERO HASH_ONE, frame_exit_json 0 True, tx_end_json True,
      block_commit_json]
     (\<lambda>out. length out = 2 \<and> payload (out ! 0) = BeginTransaction \<and> payload (out ! 1) = EndTransaction)"

definition test_frameless_survive :: bool where
  "test_frameless_survive \<longleftrightarrow> run_bridge
     [block_start_json 100, tx_start_json HASH_ONE, balance_json NO_FRAME_HEX ADDR_A HASH_TWO HASH_ONE,
      frame_enter_json 0 NO_FRAME_HEX 0, storage_json (JNumber 0) ADDR_B HASH_ZERO HASH_ZERO HASH_ONE,
      frame_exit_json 0 True, balance_json NO_FRAME_HEX ADDR_A HASH_ONE HASH_ZERO, tx_end_json True, block_commit_json]
     (\<lambda>out. length out = 4 \<and> payload (out ! 0) = BeginTransaction \<and> is_balance_changed (payload (out ! 1))
       \<and> is_balance_changed (payload (out ! 2)) \<and> payload (out ! 3) = EndTransaction)"

definition test_child_revert :: bool where
  "test_child_revert \<longleftrightarrow> run_bridge
     [block_start_json 100, tx_start_json HASH_ONE, frame_enter_json 0 NO_FRAME_HEX 0,
      balance_json (JNumber 0) ADDR_A HASH_ZERO HASH_ONE, frame_enter_json 1 (JNumber 0) 1,
      storage_json (JNumber 1) ADDR_B HASH_ZERO HASH_ZERO HASH_ONE, frame_exit_json 1 True, frame_exit_json 0 False,
      tx_end_json False, block_commit_json]
     (\<lambda>out. length out = 3 \<and> payload (out ! 0) = BeginTransaction \<and> is_balance_changed (payload (out ! 1))
       \<and> payload (out ! 2) = EndTransaction)"

definition test_zero_frames :: bool where
  "test_zero_frames \<longleftrightarrow> run_bridge
     [block_start_json 100, tx_start_json HASH_ONE, balance_json NO_FRAME_HEX ADDR_A HASH_TWO HASH_ONE,
      tx_end_json True, block_commit_json]
     (\<lambda>out. length out = 3 \<and> payload (out ! 0) = BeginTransaction \<and> is_balance_changed (payload (out ! 1))
       \<and> payload (out ! 2) = EndTransaction)"

definition test_unclosed_frame :: bool where
  "test_unclosed_frame \<longleftrightarrow>
     ok_and (parse_fixture_events
       [block_start_json 100, tx_start_json HASH_ONE, frame_enter_json 0 NO_FRAME_HEX 0, tx_end_json False,
        block_commit_json])
     (\<lambda>parsed. err_and (translate parsed \<lparr>cfg_chain_id = 1\<rparr>) (\<lambda>e. \<exists>i. e = UnbalancedFrames i))"

definition test_hex_decoding :: bool where
  "test_hex_decoding \<longleftrightarrow> run_bridge
     [block_start_json 1, tx_start_json HASH_ONE, balance_json NO_FRAME_HEX ADDR_A HASH_ZERO HASH_TWO,
      tx_end_json False, block_commit_json]
     (\<lambda>out. case payload (out ! 1) of
        BalanceChanged b \<Rightarrow> bc_address b = arr_fill 0x11 \<and> bc_previous_balance b = arr_fill 0
          \<and> bc_current_balance b = last_byte 2
      | _ \<Rightarrow> False)"

text \<open>A document that reads as a stream of call trees.\<close>

lemma run_bridge_trees:
  assumes "parse_fixture_events events = Ok (concat (map flatten_item items))" and "list_all item_fits items"
    and "P (assign_sequence (stream_output \<lparr>cfg_chain_id = 1\<rparr> 0 items))"
  shows "run_bridge events P"
  using assms by (simp add: run_bridge_def translate_items)

lemmas bridge_simps = parse_fixture_list reader_defs json_simps

lemma bridge_tests:
  "test_committed_call" "test_root_revert" "test_frameless_survive" "test_child_revert" "test_zero_frames"
proof -
  note outs = root_events_def assign_sequence_def boundary_event_def mutation_event_def
  show "test_committed_call" unfolding test_committed_call_def
    by (rule run_bridge_trees [where items = "[Header 100, Transact 0 (word32 1) False
          [Call 0 NO_FRAME 0 False [Own (MBalance (arr_fill 0x11) (word32 0) (word32 1))]], Footer]"])
      (simp_all add: bridge_simps outs)
  show "test_root_revert" unfolding test_root_revert_def
    by (rule run_bridge_trees [where items = "[Header 100, Transact 0 (word32 1) True
          [Call 0 NO_FRAME 0 True [Own (MStorage (arr_fill 0x11) (word32 0) (word32 0) (word32 1))]], Footer]"])
      (simp_all add: bridge_simps outs)
  show "test_frameless_survive" unfolding test_frameless_survive_def
    by (rule run_bridge_trees [where items = "[Header 100, Transact 0 (word32 1) True
          [Free (MBalance (arr_fill 0x11) (word32 2) (word32 1)),
           Call 0 NO_FRAME 0 True [Own (MStorage (arr_fill 0x22) (word32 0) (word32 0) (word32 1))],
           Free (MBalance (arr_fill 0x11) (word32 1) (word32 0))], Footer]"])
      (simp_all add: bridge_simps outs)
  show "test_child_revert" unfolding test_child_revert_def
    by (rule run_bridge_trees [where items = "[Header 100, Transact 0 (word32 1) False
          [Call 0 NO_FRAME 0 False [Own (MBalance (arr_fill 0x11) (word32 0) (word32 1)),
             Call 1 0 1 True [Own (MStorage (arr_fill 0x22) (word32 0) (word32 0) (word32 1))]]], Footer]"])
      (simp_all add: bridge_simps outs)
  show "test_zero_frames" unfolding test_zero_frames_def
    by (rule run_bridge_trees [where items = "[Header 100, Transact 0 (word32 1) True
          [Free (MBalance (arr_fill 0x11) (word32 2) (word32 1))], Footer]"])
      (simp_all add: bridge_simps outs)
qed

lemma hex_decoding_test: "test_hex_decoding"
  unfolding test_hex_decoding_def
  by (rule run_bridge_trees [where items = "[Header 1, Transact 0 (word32 1) False
        [Free (MBalance (arr_fill 0x11) (word32 0) (word32 2))], Footer]"])
    (simp_all add: bridge_simps root_events_def assign_sequence_def boundary_event_def mutation_event_def
      word32_zero, simp add: word32_def last_byte_def)

lemma unclosed_frame_test: "test_unclosed_frame"
  by (simp add: test_unclosed_frame_def bridge_simps translate_def translate_step_def initial_bridge_def)

section \<open>full_pipeline.rs\<close>

definition committed_document :: "json_value list" where
  "committed_document =
     (let addr = ADDR_A; h = json_word in
      [block_start_json 42, tx_start_json (h 1), balance_json NO_FRAME_HEX addr (h 100) (h 90),
       frame_enter_json 0 NO_FRAME_HEX 0, balance_json (JNumber 0) addr (h 90) (h 80),
       storage_json (JNumber 0) addr (h 9) (h 0) (h 7), frame_exit_json 0 False,
       balance_json NO_FRAME_HEX addr (h 80) (h 85), tx_end_json False, block_commit_json])"

definition reverted_document :: "json_value list" where
  "reverted_document =
     (let addr = ADDR_B; h = json_word in
      [block_start_json 42, tx_start_json (h 2), balance_json NO_FRAME_HEX addr (h 100) (h 90),
       frame_enter_json 0 NO_FRAME_HEX 0, storage_json (JNumber 0) addr (h 9) (h 0) (h 7), frame_exit_json 0 True,
       tx_end_json True, block_commit_json])"

lemma documents_parsed:
  "parse_fixture_events committed_document
     = Ok (concat (map flatten_item [Header 42, Transact 0 (word32 1) False committed_call, Footer]))"
  "parse_fixture_events reverted_document
     = Ok (concat (map flatten_item [Header 42, Transact 0 (word32 2) True reverted_call, Footer]))"
  by (simp_all add: bridge_simps committed_document_def reverted_document_def committed_call_def reverted_call_def Let_def)

definition test_full_pipeline :: "hash_fn \<Rightarrow> bool" where
  "test_full_pipeline blake3 \<longleftrightarrow>
     full_pipeline_json blake3 \<lparr>cfg_chain_id = 1\<rparr> (json_serde (\<lambda>_. Some (fixture committed_document))) [] = Ok ()"

text \<open>The stages from the events to the certificates, with a condition on those.\<close>

definition certify_stream :: "hash_fn \<Rightarrow> cse_event list \<Rightarrow> (certificate list \<Rightarrow> bool) \<Rightarrow> bool" where
  "certify_stream blake3 es P \<longleftrightarrow>
     ok_and (build_reduced es) (\<lambda>reduced.
       case reduced_buckets reduced of
         bucket # _ \<Rightarrow> ok_and (certify_bucket blake3 null_source bt_new bucket) P
       | [] \<Rightarrow> False)"

definition test_reverted_pipeline :: "hash_fn \<Rightarrow> bool" where
  "test_reverted_pipeline blake3 \<longleftrightarrow>
     run_bridge reverted_document (\<lambda>cse_events. certify_stream blake3 cse_events (\<lambda>certs. length certs = 1 \<and>
       replay_and_verify blake3 \<lparr>account_certificates = certs, execution_traces = map payload cse_events\<rparr> = Ok ()))"

text \<open>The output of the bridge, with \<open>u32::MAX\<close> as the frame of frameless events.\<close>

definition pipeline_event :: "b32 \<Rightarrow> nat \<times> u32 \<times> cse_payload \<Rightarrow> cse_event" where
  "pipeline_event txh e =
     (case e of (n, frame, pl) \<Rightarrow> set_sequence n (mutation_event \<lparr>cfg_chain_id = 1\<rparr> 42 txh 0 frame 0 pl))"

definition committed_output :: "cse_event list" where
  "committed_output = map (pipeline_event (word32 1))
     [(0, 4294967295, BeginTransaction),
      (1, 4294967295, mutation_payload (MBalance (arr_fill 17) (word32 100) (word32 90))),
      (2, 0, mutation_payload (MBalance (arr_fill 17) (word32 90) (word32 80))),
      (3, 0, mutation_payload (MStorage (arr_fill 17) (word32 9) (word32 0) (word32 7))),
      (4, 4294967295, mutation_payload (MBalance (arr_fill 17) (word32 80) (word32 85))),
      (5, 4294967295, EndTransaction)]"

definition reverted_output :: "cse_event list" where
  "reverted_output = map (pipeline_event (word32 2))
     [(0, 4294967295, BeginTransaction),
      (1, 4294967295, mutation_payload (MBalance (arr_fill 34) (word32 100) (word32 90))),
      (2, 4294967295, EndTransaction)]"

lemma documents_translated:
  "translate (concat (map flatten_item [Header 42, Transact 0 (word32 1) False committed_call, Footer])) \<lparr>cfg_chain_id = 1\<rparr>
     = Ok committed_output"
  "translate (concat (map flatten_item [Header 42, Transact 0 (word32 2) True reverted_call, Footer])) \<lparr>cfg_chain_id = 1\<rparr>
     = Ok reverted_output"
proof -
  note defs = root_events_def assign_sequence_def boundary_event_def mutation_event_def pipeline_event_def set_sequence_def
  show "translate (concat (map flatten_item [Header 42, Transact 0 (word32 1) False committed_call, Footer])) \<lparr>cfg_chain_id = 1\<rparr>
     = Ok committed_output"
    by (subst translate_items) (simp_all add: committed_call_def committed_output_def defs)
  show "translate (concat (map flatten_item [Header 42, Transact 0 (word32 2) True reverted_call, Footer])) \<lparr>cfg_chain_id = 1\<rparr>
     = Ok reverted_output"
    by (subst translate_items) (simp_all add: reverted_call_def reverted_output_def defs)
qed

lemma streams_verified:
  "certify_stream blake3 committed_output (\<lambda>certs.
     replay_and_verify blake3 \<lparr>account_certificates = certs, execution_traces = map payload committed_output\<rparr> = Ok ())"
  "certify_stream blake3 reverted_output (\<lambda>certs. length certs = 1 \<and>
     replay_and_verify blake3 \<lparr>account_certificates = certs, execution_traces = map payload reverted_output\<rparr> = Ok ())"
  "ok_and (build_reduced committed_output) (\<lambda>reduced. length (reduced_buckets reduced) = 1)"
  by code_simp+

lemma full_pipeline_tests: "test_full_pipeline blake3" "test_reverted_pipeline blake3"
proof -
  have run: "full_pipeline_json blake3 \<lparr>cfg_chain_id = 1\<rparr> (json_serde (\<lambda>_. Some (fixture committed_document))) []
      = full_pipeline blake3 \<lparr>cfg_chain_id = 1\<rparr>
          (concat (map flatten_item [Header 42, Transact 0 (word32 1) False committed_call, Footer]))"
    unfolding full_pipeline_json_def parse_fixture_events_def [symmetric] documents_parsed by simp
  show "test_full_pipeline blake3"
    using streams_verified(1) [of blake3] streams_verified(3)
    unfolding test_full_pipeline_def run pipeline_staged [OF documents_translated(1)] certify_stream_def
    by (cases "build_reduced committed_output") (auto split: list.splits elim!: ok_and.elims)
  show "test_reverted_pipeline blake3"
    using streams_verified(2) [of blake3]
    by (simp only: test_reverted_pipeline_def run_bridge_def documents_parsed documents_translated ok_and.simps)
qed

end
