(* ===== verification/Conformance_Verify.thy ===== *)
theory Conformance_Verify
  imports Conformance_Ssz Verify
begin

text \<open>
  The unit tests of \<open>verify/src/lib.rs\<close>, as in \<open>Conformance_Ssz\<close>: each is a truth value and
  is shown to hold, for every hash function, or up to a collision of the two strings hashed
  where the test rests on the hash function alone.
\<close>

section \<open>Envelope integrity\<close>

definition test_envelope_matches :: "hash_fn \<Rightarrow> bool" where
  "test_envelope_matches blake3 \<longleftrightarrow>
     (let bytes = byte_string ''pretend this is ssz-serialized ExecutionBatchReplay bytes'';
          commitment = derive_commitment blake3 Gate2Replay bytes
      in verify_envelope_integrity blake3 bytes commitment)"

definition test_envelope_tampered :: "hash_fn \<Rightarrow> bool" where
  "test_envelope_tampered blake3 \<longleftrightarrow>
     (let bytes = byte_string ''original bytes'';
          commitment = derive_commitment blake3 Gate2Replay bytes;
          tampered = byte_string ''tampered bytes!''
      in \<not> verify_envelope_integrity blake3 tampered commitment)"

definition test_gate2_domain :: "hash_fn \<Rightarrow> bool" where
  "test_gate2_domain blake3 \<longleftrightarrow>
     (let bytes = byte_string ''same input bytes'';
          gate2 = derive_commitment blake3 Gate2Replay bytes;
          life_cert = derive_commitment blake3 LifeCert bytes;
          ssr_root = derive_commitment blake3 SsrRoot bytes
      in gate2 \<noteq> life_cert \<and> gate2 \<noteq> ssr_root)"

definition test_envelope_domain :: "hash_fn \<Rightarrow> bool" where
  "test_envelope_domain blake3 \<longleftrightarrow>
     (let bytes = byte_string ''identical bytes across domains'';
          wrong_domain_commitment = derive_commitment blake3 LifeCert bytes
      in \<not> verify_envelope_integrity blake3 bytes wrong_domain_commitment)"

text \<open>The string hashed for a domain: its tag, then the bytes.\<close>

abbreviation hashed :: "domain \<Rightarrow> string \<Rightarrow> u8 list" where
  "hashed d s \<equiv> as_bytes d @ byte_string s"

lemma envelope_tests:
  "test_envelope_matches blake3"
  "test_envelope_tampered blake3
     \<or> collision blake3 (hashed Gate2Replay ''tampered bytes!'') (hashed Gate2Replay ''original bytes'')"
  "test_gate2_domain blake3
     \<or> collision blake3 (hashed Gate2Replay ''same input bytes'') (hashed LifeCert ''same input bytes'')
     \<or> collision blake3 (hashed Gate2Replay ''same input bytes'') (hashed SsrRoot ''same input bytes'')"
  "test_envelope_domain blake3
     \<or> collision blake3 (hashed Gate2Replay ''identical bytes across domains'')
         (hashed LifeCert ''identical bytes across domains'')"
proof -
  have strings: "byte_string ''tampered bytes!'' \<noteq> byte_string ''original bytes''" by code_simp
  show "test_envelope_matches blake3"
    by (simp add: test_envelope_matches_def verify_envelope_integrity_def Let_def)
  show "test_envelope_tampered blake3
     \<or> collision blake3 (hashed Gate2Replay ''tampered bytes!'') (hashed Gate2Replay ''original bytes'')"
    using strings
    by (simp add: test_envelope_tampered_def verify_envelope_integrity_def Let_def derive_commitment_eq_iff)
  show "test_gate2_domain blake3
     \<or> collision blake3 (hashed Gate2Replay ''same input bytes'') (hashed LifeCert ''same input bytes'')
     \<or> collision blake3 (hashed Gate2Replay ''same input bytes'') (hashed SsrRoot ''same input bytes'')"
    by (auto simp: test_gate2_domain_def Let_def derive_commitment_eq_iff)
  show "test_envelope_domain blake3
     \<or> collision blake3 (hashed Gate2Replay ''identical bytes across domains'')
         (hashed LifeCert ''identical bytes across domains'')"
    by (simp add: test_envelope_domain_def verify_envelope_integrity_def Let_def derive_commitment_eq_iff)
qed

section \<open>Replay\<close>

definition replay_cert :: "address \<Rightarrow> u64 \<Rightarrow> b32 \<Rightarrow> storage_root_state \<Rightarrow> certificate" where
  "replay_cert address nonce balance storage_root =
     \<lparr>ct_address = address, ct_generation = \<lparr>vg_key = GenerationKey address 0, vg_proof_root = arr_fill 0\<rparr>,
      ct_nonce = nonce, ct_balance = balance, ct_code_hash = arr_fill 0, ct_storage_root = storage_root\<rparr>"

abbreviation replay_balance :: "u8 \<Rightarrow> b32" where
  "replay_balance v \<equiv> last_byte v"

definition nonce_trace :: "address \<Rightarrow> u64 \<Rightarrow> u64 \<Rightarrow> cse_payload" where
  "nonce_trace a m n = NonceUpdated \<lparr>nu_address = a, nu_previous_nonce = m, nu_current_nonce = n\<rparr>"

definition balance_trace :: "address \<Rightarrow> b32 \<Rightarrow> b32 \<Rightarrow> cse_payload" where
  "balance_trace a v w = BalanceChanged \<lparr>bc_address = a, bc_previous_balance = v, bc_current_balance = w\<rparr>"

text \<open>\<open>unwrap_err()\<close> with a condition on the errors.\<close>

fun errors_satisfy :: "(unit, replay_error list) result \<Rightarrow> (replay_error list \<Rightarrow> bool) \<Rightarrow> bool" where
  "errors_satisfy (Err errs) P = P errs"
| "errors_satisfy (Ok u) P = False"
| "errors_satisfy Panic P = False"

fun is_balance_mismatch :: "field_mismatch \<Rightarrow> bool" where
  "is_balance_mismatch (Balance_Mismatch e f) = True"
| "is_balance_mismatch m = False"

fun is_root_mismatch :: "field_mismatch \<Rightarrow> bool" where
  "is_root_mismatch (Storage_Root_Mismatch e f) = True"
| "is_root_mismatch m = False"

definition test_correct_certificate :: "hash_fn \<Rightarrow> bool" where
  "test_correct_certificate blake3 \<longleftrightarrow>
     (let addr = arr_fill 0xAA;
          traces = [nonce_trace addr 0 1, balance_trace addr (arr_fill 0) (replay_balance 100)]
      in ok_and (derive blake3 bt_new) (\<lambda>expected_root.
           replay_and_verify blake3
             \<lparr>account_certificates = [replay_cert addr 1 (replay_balance 100) (Verified expected_root)],
              execution_traces = traces\<rparr> = Ok ()))"

definition test_wrong_balance :: "hash_fn \<Rightarrow> bool" where
  "test_wrong_balance blake3 \<longleftrightarrow>
     (let addr = arr_fill 0xBB; traces = [balance_trace addr (arr_fill 0) (replay_balance 100)]
      in ok_and (derive blake3 bt_new) (\<lambda>expected_root.
           errors_satisfy (replay_and_verify blake3
             \<lparr>account_certificates = [replay_cert addr 0 (replay_balance 199) (Verified expected_root)],
              execution_traces = traces\<rparr>)
           (\<lambda>errors. length errors = 1 \<and>
             (case hd errors of
                CertificateMismatch address mismatches \<Rightarrow> address = addr \<and> list_ex is_balance_mismatch mismatches
              | _ \<Rightarrow> False))))"

definition test_root_rederived :: "hash_fn \<Rightarrow> bool" where
  "test_root_rederived blake3 \<longleftrightarrow>
     (let addr = arr_fill 0xCC;
          traces = [StorageSlotUpdated \<lparr>su_address = addr, su_slot = arr_fill 1, su_previous_value = arr_fill 0,
            su_current_value = arr_fill 2\<rparr>]
      in errors_satisfy (replay_and_verify blake3
           \<lparr>account_certificates = [replay_cert addr 0 (arr_fill 0) (Verified (arr_fill 0xFF))],
            execution_traces = traces\<rparr>)
         (list_ex (\<lambda>e. case e of CertificateMismatch _ mismatches \<Rightarrow> list_ex is_root_mismatch mismatches | _ \<Rightarrow> False)))"

definition test_missing_certificate :: "hash_fn \<Rightarrow> bool" where
  "test_missing_certificate blake3 \<longleftrightarrow>
     (let addr = arr_fill 0xDD
      in errors_satisfy (replay_and_verify blake3
           \<lparr>account_certificates = [], execution_traces = [nonce_trace addr 0 1]\<rparr>)
         (list_ex (\<lambda>e. e = MissingCertificate addr)))"

definition test_untouched_certificate :: "hash_fn \<Rightarrow> bool" where
  "test_untouched_certificate blake3 \<longleftrightarrow>
     (let addr = arr_fill 0xEE
      in ok_and (derive blake3 bt_new) (\<lambda>expected_root.
           errors_satisfy (replay_and_verify blake3
             \<lparr>account_certificates = [replay_cert addr 0 (arr_fill 0) (Verified expected_root)], execution_traces = []\<rparr>)
           (list_ex (\<lambda>e. e = UntouchedCertificate addr))))"

definition test_inconsistent_trace :: "hash_fn \<Rightarrow> bool" where
  "test_inconsistent_trace blake3 \<longleftrightarrow>
     (let addr = arr_fill 0x11;
          traces = [balance_trace addr (arr_fill 0) (replay_balance 50),
                    balance_trace addr (replay_balance 199) (replay_balance 100)]
      in errors_satisfy (replay_and_verify blake3 \<lparr>account_certificates = [], execution_traces = traces\<rparr>)
         (list_ex (\<lambda>e. case e of TraceInconsistency address _ \<Rightarrow> address = addr | _ \<Rightarrow> False)))"

definition test_unresolved_root :: "hash_fn \<Rightarrow> bool" where
  "test_unresolved_root blake3 \<longleftrightarrow>
     (let addr = arr_fill 0x22
      in errors_satisfy (replay_and_verify blake3
           \<lparr>account_certificates = [replay_cert addr 1 (arr_fill 0) AwaitingDerivation],
            execution_traces = [nonce_trace addr 0 1]\<rparr>)
         (list_ex (\<lambda>e. e = UnresolvedStorageRoot addr)))"

lemma replay_tests:
  "test_correct_certificate blake3" "test_wrong_balance blake3" "test_missing_certificate blake3"
  "test_untouched_certificate blake3" "test_inconsistent_trace blake3" "test_unresolved_root blake3"
  by code_simp+

text \<open>The claimed root 255, .., 255 is wrong unless the slot's leaf happens to hash to it.\<close>

lemma root_rederived_test:
  "test_root_rederived blake3 \<or> slot_leaf blake3 (arr_fill 1, arr_fill 2) = arr_fill 0xFF"
proof -
  have "derive blake3 (bt_insert (arr_fill 1) (arr_fill 2) bt_new) = Ok (slot_leaf blake3 (arr_fill 1, arr_fill 2))"
    by (simp add: derive_def trie.root_single)
  then show ?thesis
    by (simp add: test_root_rederived_def replay_and_verify_def Let_def account_of_def check_previous_def
      default_account_def check_certificate_def replay_cert_def touched_addresses_def set_difference_def
      address_set_def bt_keys_def)
qed

end
