(* ===== verification/Spec2Isabelle.thy ===== *)
theory Spec2Isabelle
  imports Conformance_Bridge Conformance_Verify
begin

text \<open>
  KaySentinel: a Go tracer for go-ethereum (\<open>src/tracer\<close>, \<open>src/emes\<close>,
  \<open>src/validation\<close>) and a Rust runtime (\<open>src/runtime\<close>), a deterministic pipeline from
  the execution trace to account certificates that a second crate replays and checks.

  The parts and how they interact.  The tracer turns callbacks into an event stream,
  Gate 1 checks its structure, and it is written as JSON.  \<open>bridge\<close> parses it and
  translates it into Canonical Semantic Events (the types of \<open>cse\<close>), dropping what
  reverted call frames did.  \<open>builder\<close> partitions the
  events into transaction buckets and timelines per key, reduces every timeline to its
  net transition, resolves contract lifetimes, and makes one certificate per touched
  account, whose storage root it derives.  \<open>ssz\<close> encodes and commits to certificates
  and summaries with the hash domains of \<open>hash\<close>.  \<open>verify\<close> (Gate 2) replays the raw
  payloads and compares the outcome with the certificates.

  Correspondence of the Go side.
  \<^item> \<open>Emes\<close>: the event structs of \<open>emes/types.go\<close>; \<open>Emes_Hex\<close>: their hexadecimal form
    against the Rust decoder.
  \<^item> \<open>Gate1\<close>: \<open>validation/gate1.go\<close> and the grammar it recognises, over the locale
    \<open>loop_bisimulation\<close> of \<open>Loops\<close>; \<open>Gate1_Tests\<close>: \<open>gate1_test.go\<close>; \<open>Gate1_Bridge\<close>:
    what the bridge may assume of a stream that passed.
  \<^item> \<open>Tracer\<close>: the hooks of \<open>tracer/kaysentinel_tracer.go\<close>, and the order in which
    go-ethereum calls them as a step relation (\<open>callback_step\<close>), apart from the callbacks
    whose stream Gate 1 admits (\<open>admitted_step\<close>); \<open>Wire_Json\<close>: the JSON value of a fixture and
    the fields \<open>bridge/src/wire.rs\<close> reads from it; \<open>Live\<close>: tracer, document and runtime
    joined.

  Correspondence of the Rust side, under \<open>src/runtime\<close>.
  \<^item> \<open>Prelude\<close>: results with \<open>Ok\<close>, \<open>Err\<close> and \<open>Panic\<close>, loops that stop at the first
    error.  \<open>Bytes\<close>: \<open>[u8; N]\<close>, little-endian conversions, \<open>Debug\<close> text.
    \<open>BTreeMap\<close>: the standard library's map, with the locale \<open>ordered_map\<close>.
  \<^item> \<open>Cse\<close>: \<open>cse/src/{context,payloads,event,errors,version,traits}.rs\<close>;
    \<open>Cse_Validator\<close>: \<open>cse/src/validator.rs\<close>.  \<open>Envelope\<close> is the two-state machine
    of the transaction markers that validator, partition stage and bridge refine
    (locales \<open>envelope_checker\<close>, \<open>exact_envelope_checker\<close>).
  \<^item> \<open>Hash\<close>: \<open>hash/src/lib.rs\<close>.  \<open>Merkle\<close>: the loops that \<open>ssz/src/lib.rs\<close> and
    \<open>builder/src/lifecycle/storage_root.rs\<close> share, with the locale \<open>merkle_profile\<close>
    of the tree they promise.
  \<^item> \<open>Ssz\<close>: \<open>ssz/src/lib.rs\<close>; \<open>Codec\<close>: \<open>ssz/src/decode.rs\<close> with the locale \<open>codec\<close>;
    \<open>Ssz_Certificate\<close>: \<open>ssz/src/certificate.rs\<close> and its decoder.
  \<^item> \<open>Timeline\<close>: \<open>builder/src/ir\<close>, \<open>traits.rs\<close>, \<open>errors.rs\<close>; \<open>Partition\<close>:
    \<open>partition.rs\<close>; \<open>Reduce\<close>: \<open>reduce.rs\<close>; \<open>Isolation\<close>: two runs of these stages
    compared; \<open>World\<close>: their abstract specification, the execution of a transaction in a
    world of balances, nonces, code and slots.  \<open>Diagnostics\<close>: the two properties of
    \<open>builder/tests/conformance.rs\<close>, isolation and sensitivity, at the certificates.
  \<^item> \<open>Lifecycle\<close>, \<open>Canonicalize\<close>, \<open>Lifecycle_Process\<close>, \<open>Certificate\<close>, \<open>Hydration\<close>,
    \<open>Storage_Root\<close>: \<open>builder/src/lifecycle/*.rs\<close>.
  \<^item> \<open>Wire\<close> and \<open>Bridge\<close>: \<open>bridge/src/wire.rs\<close> and \<open>translate.rs\<close>; \<open>Bridge_Trees\<close>:
    the translation on streams that come from call trees.
  \<^item> \<open>Verify\<close>: \<open>verify/src/lib.rs\<close>.  \<open>Gate2\<close>: the builder's view of a transaction
    against the verifier's.  \<open>Pipeline\<close> and \<open>End_To_End\<close>: the stages composed as
    \<open>verify/tests/full_pipeline.rs\<close> composes them, from the tracer's events to the
    verdict.  \<open>Protocol\<close>:
    \<open>protocol/src/errors.rs\<close>.  \<open>Sample\<close>: concrete events for the witnesses.
  \<^item> \<open>Conformance_Ssz\<close>, \<open>Conformance_Builder\<close>, \<open>Conformance_Verify\<close>, \<open>Conformance_Bridge\<close>:
    the tests of the workspace, in-file ones and \<open>builder/tests\<close>, \<open>bridge/tests\<close>,
    \<open>verify/tests\<close>, each a truth value evaluated on the model.  They hold for every hash
    function; a test that two digests differ holds up to a collision of the two strings
    hashed, and a digest pinned in a test is a condition on the hash function.

  State and operations.  A struct is a record, an enum a datatype with its
  constructors (error texts included where they are data), \<open>u8\<close>, \<open>u32\<close> and \<open>u64\<close> are
  words of their width.  \<open>&mut self\<close> methods return the new state.  \<open>?\<close> is the bind of
  \<open>Prelude\<close>, an index, slice or \<open>expect\<close> that may fail yields \<open>Panic\<close>.  A \<open>usize\<close> that
  counts elements of a vector in memory is a natural number; the one loop whose result
  could overflow, \<open>next_power_of_two\<close> by doubling, is a \<open>partial_function\<close> on 64-bit
  words.

  In Go a panic is \<open>Panic\<close>, a returned error \<open>Err\<close>; a pointer that may be nil is an
  option, and a slice used as a stack a list with its top in front.

  What the lemmas show.
  \<^item> From callbacks to the verdict (\<open>Live\<close>): what a new tracer records of a block passes
    Gate 1 exactly when no call is outside a transaction and outcomes agree; then it is the
    call trees of its transaction, and the pipeline on its document judges them.  Gate 1
    accepts exactly its grammar (\<open>Gate1\<close>); what it leaves to the bridge (\<open>Gate1_Bridge\<close>);
    and why the second block of a tracer, or one with system calls, never passes (\<open>Tracer\<close>).
  \<^item> The whole pipeline on a transaction recorded as call trees (\<open>End_To_End\<close>): it gives a
    verdict exactly when what the bridge keeps is the honest execution of some world, and
    it is stated when Gate 2 then passes.  What the bridge keeps (\<open>committed\<close>) are the mutations
    outside reverted calls, in order (\<open>surviving\<close>), if no frameless mutation is inside a
    call, as in the tracer's streams.
  \<^item> Specification of each stage on its input alone: what the validator and the bridge
    accept (\<open>Cse_Validator\<close>, \<open>Bridge\<close>), what partition and reduction compute
    (\<open>Partition\<close>, \<open>Reduce\<close>, and as a difference of worlds \<open>World\<close>), which lifetimes and
    certificates come out (\<open>Lifecycle_Process\<close>, \<open>Certificate\<close>), what replay accepts
    (\<open>Verify\<close>), and which error each stage gives when it rejects.
  \<^item> Refinement and composition: the envelope the bridge emits is the one the builder
    and the validator take, and Gate 2 accepts the builder's certificates exactly on
    transactions that start from zero wherever the replay expects it and whose touched
    accounts both crates count (this theory); hydration and assembly are certificate building (\<open>Hydration\<close>).
  \<^item> The mutations of reverted frames leave no event and those of others are all kept
    (\<open>Bridge_Trees\<close>); an
    open stream can always be completed, output is numbered and bracketed (\<open>Bridge\<close>).
  \<^item> Round trips of the codecs (\<open>Codec\<close>, \<open>Ssz_Certificate\<close>), of hexadecimal text (\<open>Wire\<close>,
    \<open>Emes_Hex\<close>) and of whole documents between Go and Rust (\<open>Wire_Json\<close>), Merkle roots equal
    to the recursive tree and their size (\<open>Ssz\<close>), and binding of every
    commitment, stated as a reduction to a collision of BLAKE3 (\<open>Hash\<close>, \<open>Ssz\<close>,
    \<open>Ssz_Certificate\<close>, \<open>Storage_Root\<close>).
  \<^item> Determinism: canonical forms, the report's diagnostics and flags (\<open>Canonicalize\<close>), independence
    of trace context (\<open>Isolation\<close>, \<open>Diagnostics\<close>), identity lookup (\<open>Certificate\<close>), typed state tables.
  \<^item> Absence of panics in bridge, Merkleization, replay and decoders, and termination of
    the padding loop (\<open>Merkle\<close>).
  Lemmas that are not numbered record behaviours a maintainer should know, such as
  \<open>frameless_mutation_reordered\<close> below, \<open>replay_rejects_prior_nonce\<close> in \<open>Verify\<close> and
  \<open>hex_panics_inside_character\<close> in \<open>Wire\<close>.

  Bounds.  There is no fuel: every other loop is structural.  The padding loop returns
  without overflow for at most \<open>2 ^ 63\<close> leaves, far above what a vector can hold; a
  snapshot within its limit of 16384 summaries needs 65536 (\<open>Ssz\<close>).
  Generation numbers are \<open>u32\<close> and event numbers \<open>u64\<close>; hypotheses on the number of
  events appear only where a wrap would be visible.

  Parameters.  BLAKE3 (\<open>blake3\<close>) is any function from bytes to 32 bytes.  The
  deserializers of \<open>serde_json\<close> are a record of functions, Go's \<open>encoding/json\<close> of a struct a
  function; \<open>document_of\<close> in \<open>Live\<close> says that one reads what the other wrote, and
  \<open>Wire_Json\<close> gives both on JSON values, so that only the text between them is left open.
  \<open>AccountSnapshotSource\<close> is a trait without an implementation, a record of two functions.  Nothing is assumed of
  them except where a statement says so.

  Not modelled: the harnesses, scripts and the multiplexer around the runtime (input and
  output); the text of JSON documents; go-ethereum itself, of which the order of its
  callbacks is a hypothesis (\<open>callback_step\<close>: transactions do not nest, calls balance inside
  and outside them, state changes come anywhere); the crate \<open>ssr\<close>, which is empty; \<open>Display\<close> text
  of errors that no code reads back; module declarations.
\<close>

section \<open>Sample transaction\<close>

text \<open>
  A transaction shaped like the one of \<open>runtime/verify/tests/full_pipeline.rs\<close>: the balance
  of one account changes three times and one of its slots is set.
\<close>

definition sample_balance :: "u8 \<Rightarrow> u8 \<Rightarrow> cse_payload" where
  "sample_balance b c = BalanceChanged
     \<lparr>bc_address = arr_fill 17, bc_previous_balance = arr_fill b, bc_current_balance = arr_fill c\<rparr>"

definition sample_slot :: "u8 \<Rightarrow> u8 \<Rightarrow> u8 \<Rightarrow> cse_payload" where
  "sample_slot s b c = StorageSlotUpdated
     \<lparr>su_address = arr_fill 17, su_slot = arr_fill s, su_previous_value = arr_fill b, su_current_value = arr_fill c\<rparr>"

definition sample_tx :: transaction where
  "sample_tx = \<lparr>tx_open = sample_event 0 BeginTransaction,
     tx_inner = [sample_event 1 (sample_balance 100 90), sample_event 2 (sample_balance 90 80),
       sample_event 3 (sample_slot 9 0 7), sample_event 4 (sample_balance 80 85)],
     tx_close = sample_event 5 EndTransaction\<rparr>"

definition built_buckets :: "cse_event list \<Rightarrow> reduced_bucket list" where
  "built_buckets es = (case build_reduced es of Ok ir \<Rightarrow> reduced_buckets ir | _ \<Rightarrow> [])"

lemma sample_tx_wf: "tx_wf sample_tx"
  by (simp add: sample_tx_def tx_wf_def sample_defs sample_balance_def sample_slot_def)

lemma sample_tx_built: "is_ok (build_reduced (tx_events sample_tx))"
  by code_simp

lemma sample_tx_certified:
  "list_all (\<lambda>rb. is_ok (certify_bucket zero_hash null_source bt_new rb)) (built_buckets (tx_events sample_tx))"
  by code_simp

lemma sample_tx_accepted:
  obtains rb cs where "build_reduced (tx_events sample_tx) = Ok (ReducedIr [rb])"
    "certify_bucket zero_hash null_source bt_new rb = Ok cs"
proof -
  obtain rb where rb: "build_reduced (tx_events sample_tx) = Ok (ReducedIr [rb])"
    using build_reduced_single [OF sample_tx_wf sample_tx_built] by blast
  with sample_tx_certified have "is_ok (certify_bucket zero_hash null_source bt_new rb)"
    by (simp add: built_buckets_def)
  with rb that show ?thesis by (auto simp: is_ok_iff)
qed

section \<open>The builder and the verifier\<close>

text \<open>
  C4: Gate 2 against the builder.  Take the certificates the builder makes of one
  transaction, with a snapshot source that knows every address as an empty account.  Replaying
  the transaction's payloads accepts them exactly when every field or slot of an account
  first written after the replay has touched the account starts from zero (the event that
  first touches an account may start from any value), and the accounts with
  state table entries are the accounts the verifier touches.  So the two crates agree on
  every value; the only rejections come from prior state and from accounts that only one
  of them counts (lifecycle events alone, transient storage alone).
\<close>

theorem gate2_accepts_builder_certificates:
  assumes "tx_wf tx" and "build_reduced (tx_events tx) = Ok (ReducedIr [rb])"
    and "\<And>a. recover_account_snapshot src a = Ok empty_account"
    and "certify_bucket blake3 src pre_states rb = Ok cs"
  shows "replay_and_verify blake3
      \<lparr>account_certificates = cs, execution_traces = map payload (tx_events tx)\<rparr> = Ok ()
    \<longleftrightarrow> starts_fresh (tx_events tx)
      \<and> (\<forall>a. touched_by (map payload (tx_events tx)) a \<longleftrightarrow> certified_by (map payload (tx_events tx)) a)"
proof -
  note built = built_transaction [OF assms(1,2)]
  from certify_bucket_Ok [OF assms(4)] obtain certs certs' generations where
    build: "build_canonical_certificates (state_table rb) generations src = Ok certs" and cs: "cs = bt_values certs'"
    and resolve: "\<And>a. \<exists>slots root. (\<forall>s. bt_get slots s = slot_after (state_table rb) a s) \<and> derive blake3 slots = Ok root
        \<and> bt_get certs' a = map_option (\<lambda>c. c\<lparr>ct_storage_root := Verified root\<rparr>) (bt_get certs a)"
    by metis
  show ?thesis
    unfolding cs
    by (rule gate2_accepts [OF summarised_table [OF assms(1) built(2)] _ assms(3) build resolve])
      (simp add: tx_consistent [OF assms(1)] built(1))
qed

theorem gate2_accepts_builder_certificates_witness:
  "\<exists>rb cs. build_reduced (tx_events sample_tx) = Ok (ReducedIr [rb])
     \<and> certify_bucket zero_hash null_source bt_new rb = Ok cs
     \<and> replay_and_verify zero_hash
         \<lparr>account_certificates = cs, execution_traces = map payload (tx_events sample_tx)\<rparr> = Ok ()"
proof -
  obtain rb cs where *: "build_reduced (tx_events sample_tx) = Ok (ReducedIr [rb])"
    "certify_bucket zero_hash null_source bt_new rb = Ok cs"
    by (rule sample_tx_accepted)
  have "starts_fresh (tx_events sample_tx)" by code_simp
  moreover have "touched_by (map payload (tx_events sample_tx)) a \<longleftrightarrow> certified_by (map payload (tx_events sample_tx)) a" for a
    by (auto simp: touched_by_def certified_by_def sample_tx_def tx_events_def sample_event_def sample_balance_def
        sample_slot_def)
  ultimately show ?thesis
    using gate2_accepts_builder_certificates [OF sample_tx_wf *(1) _ *(2)] * by (auto simp: null_source_def)
qed

section \<open>The bridge, the validator and the builder\<close>

text \<open>
  C34: what the bridge emits the rest of the pipeline takes.  Every stream \<open>translate\<close>
  produces partitions into transactions without an error, and \<open>CseValidator\<close> accepts it,
  ending outside a transaction, exactly when all its payloads are meaningful: numbering
  and envelope are never the reason of a rejection.
\<close>

theorem bridge_feeds_builder:
  assumes "translate events cfg = Ok out"
  shows "(\<exists>bs. partition_events out = Ok (RawIr bs))
    \<and> ((\<exists>v. validate_stream new_validator out = Ok v \<and> \<not> in_transaction v)
        \<longleftrightarrow> list_all (\<lambda>e. payload_meaningful (payload e)) out)"
proof (rule conjI)
  note out = translate_envelope [OF assms]
  show "\<exists>bs. partition_events out = Ok (RawIr bs)" by (rule envelope_partitions [OF out(1)])
  have seq: "seq_of (out ! i) = of_nat i" if "i < length out" for i
    using arg_cong [OF out(2), of "\<lambda>xs. xs ! i"] that by simp
  show "(\<exists>v. validate_stream new_validator out = Ok v \<and> \<not> in_transaction v)
      \<longleftrightarrow> list_all (\<lambda>e. payload_meaningful (payload e)) out"
    unfolding validate_stream_Ok
    using out(1) seq
    by (auto simp: new_validator_def
        intro!: exI [of _ "\<lparr>expected_sequence = of_nat (length out), in_transaction = False\<rparr>"])
qed

theorem bridge_feeds_builder_witness:
  "\<exists>out. translate (concat (map flatten_item [Transact 1 (arr_fill 8) False [Free (MNonce (arr_fill 2) 6 7)]]))
       \<lparr>cfg_chain_id = 1\<rparr> = Ok out
     \<and> (\<exists>v. validate_stream new_validator out = Ok v \<and> \<not> in_transaction v)"
proof -
  let ?items = "[Transact 1 (arr_fill 8) False [Free (MNonce (arr_fill 2) 6 7)]]" and ?cfg = "\<lparr>cfg_chain_id = 1\<rparr>"
  let ?out = "assign_sequence (stream_output ?cfg 0 ?items)"
  have out: "translate (concat (map flatten_item ?items)) ?cfg = Ok ?out"
    by (rule translate_items) simp
  have "list_all (\<lambda>e. payload_meaningful (payload e)) ?out"
    by (simp add: assign_sequence_def root_events_def payload_meaningful_def)
  with bridge_feeds_builder [OF out] out show ?thesis by blast
qed

text \<open>
  A stream the validator has accepted from its first event, with no transaction left
  open, is a stream the partition stage accepts: the two crates recognise the same
  envelope.
\<close>

lemma validated_stream_partitions:
  assumes "validate_stream new_validator es = Ok v" and "\<not> in_transaction v"
  shows "\<exists>bs. partition_events es = Ok (RawIr bs)"
proof (rule envelope_partitions)
  show "envelope_run False (map event_boundary es) False"
    using assms by (simp add: validate_stream_Ok new_validator_def)
qed

lemma validated_stream_partitions_example:
  "\<exists>bs. partition_events (tx_events sample_tx) = Ok (RawIr bs)"
proof (rule validated_stream_partitions)
  show "validate_stream new_validator (tx_events sample_tx) = Ok \<lparr>expected_sequence = 6, in_transaction = False\<rparr>"
    by code_simp
qed simp

text \<open>
  C35: every state table the first two stages produce is well typed, the variant of each
  entry being the one of its key; certificate building and storage roots rely on it.
\<close>

theorem reduced_tables_typed:
  assumes "build_reduced es = Ok (ReducedIr rbs)" and "rb \<in> set rbs"
  shows "typed_table (state_table rb)"
proof -
  obtain txs where "list_all2 summarises rbs txs" using assms(1) build_reduced_exact by blast
  with assms(2) obtain tx where "summarises rb tx" by (auto simp: list_all2_conv_all_nth in_set_conv_nth)
  then have "table_of (tx_inner tx) (state_table rb)" by (simp add: summarises_def table_of_def)
  then show ?thesis by (rule table_typed)
qed

theorem reduced_tables_typed_witness:
  "\<exists>rb. build_reduced (tx_events sample_tx) = Ok (ReducedIr [rb]) \<and> typed_table (state_table rb)"
proof -
  obtain rb cs where rb: "build_reduced (tx_events sample_tx) = Ok (ReducedIr [rb])"
    by (rule sample_tx_accepted)
  then show ?thesis using reduced_tables_typed [OF rb] by simp
qed

section \<open>Behaviours worth knowing\<close>

text \<open>
  A frameless mutation inside an open call is emitted before the mutations the call has
  buffered.  When both change one value the builder rejects the translated stream of an
  honest trace.
\<close>

lemma frameless_mutation_reordered:
  "(case translate (concat (map flatten_item
        [Transact 0 (arr_fill 8) False [Call 0 0 0 False [Own (MNonce (arr_fill 1) 0 1), Free (MNonce (arr_fill 1) 1 2)]]]))
        \<lparr>cfg_chain_id = 1\<rparr> of
      Ok out \<Rightarrow> (case build_reduced out of Err e \<Rightarrow> Some e | _ \<Rightarrow> None)
    | _ \<Rightarrow> None) = Some (TimelineFailure (DiscontinuousLineage (EventId 1) (EventId 2)))"
proof -
  let ?items = "[Transact 0 (arr_fill 8) False [Call 0 0 0 False [Own (MNonce (arr_fill 1) 0 1), Free (MNonce (arr_fill 1) 1 2)]]]"
  let ?out = "assign_sequence (stream_output \<lparr>cfg_chain_id = 1\<rparr> 0 ?items)"
  have "translate (concat (map flatten_item ?items)) \<lparr>cfg_chain_id = 1\<rparr> = Ok ?out"
    by (rule translate_items) simp
  moreover have "build_reduced ?out = Err (TimelineFailure (DiscontinuousLineage (EventId 1) (EventId 2)))"
    by (simp add: root_events_def assign_sequence_def build_reduced_def partition_events_def
        partition_step.simps reduce_timelines_def reduce_bucket_def new_bucket_def bt_traverse_def
        new_timeline_def push_def reduce_def bt_entry_def)
  ultimately show ?thesis by (simp only: result.case option.case)
qed

end
